(* ===== verification/Prelude.thy ===== *)
theory Prelude
  imports Main "HOL-Library.Word"
begin

text \<open>
  Shared vocabulary of the development: the C integer types as words, the reference
  definition of ``index of the lowest set bit'', population count, and the generic lemmas on
  words, bits and indexed lists that the component theories use.
\<close>

unbundle bit_operations_syntax

section \<open>The C integer types\<close>

type_synonym u8 = "8 word"
type_synonym u16 = "16 word"
type_synonym u32 = "32 word"
type_synonym u64 = "64 word"
type_synonym s32 = "32 word"  \<comment> \<open>read with \<open>sint\<close> where the sign matters\<close>

named_theorems flag_simps \<open>facts about single flag bits of a packed word\<close>
named_theorems wf_intros \<open>preservation of well-formedness invariants\<close>
named_theorems frame_simps \<open>components of the state an operation leaves alone\<close>

section \<open>Bits of a word\<close>

definition ctz :: "'a::len word \<Rightarrow> nat" where
  \<comment> \<open>reference: number of trailing zero bits\<close>
  "ctz w = length (takeWhile (\<lambda>n. \<not> bit w n) [0..<LENGTH('a)])"

definition popcount :: "'a::len word \<Rightarrow> nat" where
  \<comment> \<open>reference: number of set bits, as \<open>__builtin_popcount\<close>\<close>
  "popcount w = length (filter (bit w) [0..<LENGTH('a)])"

definition bits_asc :: "'a::len word \<Rightarrow> nat list" where
  \<comment> \<open>the set bit positions in ascending order\<close>
  "bits_asc w = filter (bit w) [0..<LENGTH('a)]"

lemma word_nonzero_bit: "w \<noteq> 0 \<longleftrightarrow> (\<exists>n < LENGTH('a). bit w n)" for w :: "'a::len word"
  by (metis bit_0_eq bit_word_eqI bot_apply bot_bool_def)

lemma ctz_unique:
  fixes w :: "'a::len word"
  assumes "k < LENGTH('a)" "bit w k" "\<And>j. j < k \<Longrightarrow> \<not> bit w j"
  shows "ctz w = k"
proof -
  have split: "[0..<LENGTH('a)] = [0..<k] @ k # [Suc k..<LENGTH('a)]"
    using assms(1) by (metis less_imp_le_nat upt_add_eq_append upt_conv_Cons zero_le
        le_add_diff_inverse add.left_neutral)
  show ?thesis
    unfolding ctz_def split using assms(2,3) by (subst takeWhile_append2) auto
qed

lemma lowest_bit_ex:
  fixes w :: "'a::len word"
  assumes "w \<noteq> 0"
  obtains k where "k < LENGTH('a)" "bit w k" "\<And>j. j < k \<Longrightarrow> \<not> bit w j"
proof -
  from assms obtain n where n: "n < LENGTH('a)" "bit w n"
    using word_nonzero_bit by blast
  define k where "k = (LEAST i. bit w i)"
  have "bit w k" unfolding k_def using n(2) by (rule LeastI)
  moreover have "k \<le> n" unfolding k_def using n(2) by (rule Least_le)
  moreover have "\<And>j. j < k \<Longrightarrow> \<not> bit w j" unfolding k_def by (rule not_less_Least)
  ultimately show thesis using n(1) that by (meson le_less_trans)
qed

lemma ctz_bit: "w \<noteq> 0 \<Longrightarrow> bit w (ctz w)"
  by (metis ctz_unique lowest_bit_ex)

lemma ctz_less: "w \<noteq> 0 \<Longrightarrow> ctz w < LENGTH('a)" for w :: "'a::len word"
  by (metis ctz_unique lowest_bit_ex)

lemma ctz_least: "w \<noteq> 0 \<Longrightarrow> j < ctz w \<Longrightarrow> \<not> bit w j"
  by (metis ctz_unique lowest_bit_ex)

text \<open>Subtracting one clears the lowest set bit and sets the bits below it.\<close>

lemma bit_minus_one:
  fixes w :: "'a::len word"
  assumes k: "k < LENGTH('a)" "bit w k" and low: "\<And>j. j < k \<Longrightarrow> \<not> bit w j"
    and n: "n < LENGTH('a)"
  shows "bit (w - 1) n \<longleftrightarrow> n < k \<or> (k < n \<and> bit w n)"
proof -
  define u where "u = unset_bit k w"
  have "u AND push_bit k 1 = 0"
    by (rule bit_word_eqI) (auto simp: u_def bit_simps)
  moreover have "u OR push_bit k 1 = w"
    using k by (intro bit_word_eqI) (auto simp: u_def bit_simps)
  ultimately have w: "w = u + push_bit k 1"
    by (metis disjunctive_add_eq_or)
  have disj: "u AND mask k = 0"
    using low by (intro bit_word_eqI) (auto simp: u_def bit_simps)
  have "w - 1 = u + mask k"
    by (simp add: w mask_eq_exp_minus_1 push_bit_eq_mult)
  also have "\<dots> = u OR mask k"
    using disj by (rule disjunctive_add_eq_or)
  finally have "w - 1 = u OR mask k" .
  then show ?thesis
    using n low by (auto simp: u_def bit_simps)
qed

lemma lowest_bit_and_neg:
  fixes w :: "'a::len word"
  assumes "w \<noteq> 0"
  shows "w AND - w = push_bit (ctz w) 1"
proof (rule bit_word_eqI)
  fix n assume n: "n < LENGTH('a)"
  note l = ctz_less [OF assms] ctz_bit [OF assms] ctz_least [OF assms]
  have "bit (- w) n \<longleftrightarrow> \<not> bit (w - 1) n"
    using n by (simp add: minus_eq_not_minus_1 bit_simps)
  then show "bit (w AND - w) n \<longleftrightarrow> bit (push_bit (ctz w) 1 :: 'a word) n"
    using n l bit_minus_one [OF l(1,2) _ n] l(3) by (auto simp: bit_simps)
qed

lemma bit_clear_lowest:
  fixes w :: "'a::len word"
  assumes "w \<noteq> 0"
  shows "bit (w AND (w - 1)) n \<longleftrightarrow> bit w n \<and> n \<noteq> ctz w"
proof (cases "n < LENGTH('a)")
  case True
  note l = ctz_less [OF assms] ctz_bit [OF assms] ctz_least [OF assms]
  show ?thesis
    using bit_minus_one [OF l(1,2) _ True] l(3) by (auto simp: bit_and_iff)
next
  case False
  then show ?thesis by (metis bit_imp_le_length)
qed

lemma bits_asc_Nil: "bits_asc w = [] \<longleftrightarrow> w = 0"
  using word_nonzero_bit [of w] by (auto simp: bits_asc_def filter_empty_conv)

lemma set_bits_asc: "set (bits_asc w) = {n. bit w n}"
  by (auto simp: bits_asc_def dest: bit_imp_le_length)

lemma sorted_bits_asc: "sorted (bits_asc w)" "distinct (bits_asc w)"
  using sorted_wrt_filter [OF sorted_upt, of "bit w" 0] by (simp_all add: bits_asc_def)

lemma bits_asc_0 [simp]: "bits_asc 0 = []"
  by (simp add: bits_asc_def)

lemma bits_asc_Cons:
  assumes "w \<noteq> 0"
  shows "bits_asc w = ctz w # bits_asc (w AND (w - 1))"
proof (rule sorted_distinct_set_unique)
  show "sorted (bits_asc w)" "distinct (bits_asc w)"
    by (rule sorted_bits_asc)+
  show "sorted (ctz w # bits_asc (w AND (w - 1)))"
    using ctz_least [OF assms] not_less
    by (auto simp: sorted_bits_asc set_bits_asc bit_clear_lowest [OF assms])
  show "distinct (ctz w # bits_asc (w AND (w - 1)))"
    by (simp add: sorted_bits_asc set_bits_asc bit_clear_lowest [OF assms])
  show "set (bits_asc w) = set (ctz w # bits_asc (w AND (w - 1)))"
    using ctz_bit [OF assms] by (auto simp: set_bits_asc bit_clear_lowest [OF assms])
qed

lemma length_bits_asc: "length (bits_asc w) \<le> LENGTH('a)" for w :: "'a::len word"
  unfolding bits_asc_def by (rule order_trans [OF length_filter_le]) simp

section \<open>Masked indices and indexed lists\<close>

lemma unat_and_le2: "unat (x AND m) \<le> unat (m :: 'a::len word)"
  by (simp add: word_and_le1 flip: word_le_nat_alt)

lemma unat_and_mask: "unat (x AND mask n) = unat x mod 2 ^ n" for x :: "'a::len word"
  proof -
  have "unat (take_bit n x) = take_bit n (unat x)"
    by (rule unsigned_take_bit_eq)
  then show ?thesis
    by (simp only: take_bit_eq_mask [of n x] take_bit_eq_mod [of n "unat x"])
qed

lemma unat_drop_bit: "unat (drop_bit n x) = unat x div 2 ^ n" for x :: "'a::len word"
proof -
  have "unat (drop_bit n x) = drop_bit n (unat x)"
    by (simp only: unsigned_drop_bit_eq take_bit_nat_eq_self unsigned_less)
  then show ?thesis by (simp only: drop_bit_eq_div)
qed

lemma unat_ucast_id:
  fixes x :: "'a::len word"
  assumes "unat x < 2 ^ LENGTH('b::len)"
  shows "unat (ucast x :: 'b word) = unat x"
  using assms by (simp add: unsigned_ucast_eq take_bit_nat_eq_self)

lemma and_low_mask:
  fixes x :: "'a::len word"
  shows "x AND 1 = take_bit 1 x" "x AND 3 = take_bit 2 x" "x AND 7 = take_bit 3 x"
    "x AND 15 = take_bit 4 x" "x AND 63 = take_bit 6 x" "x AND 0xFFF = take_bit 12 x"
    "x AND 0xFFFF = take_bit 16 x" "x AND 0xFFFFF = take_bit 20 x"
    "x AND 0xFFFFFF = take_bit 24 x"
  by (simp_all add: take_bit_eq_mask mask_eq_exp_minus_1)

text \<open>The masks the code writes as \<open>2^k - 1\<close>: array indices and bit fields.\<close>

lemma unat_and_low:
  fixes x :: "'a::len word"
  shows "unat (x AND 1) = unat x mod 2" "unat (x AND 3) = unat x mod 4"
    "unat (x AND 7) = unat x mod 8" "unat (x AND 15) = unat x mod 16"
    "unat (x AND 63) = unat x mod 64"
  using unat_and_mask [of x 1] unat_and_mask [of x 2] unat_and_mask [of x 3]
    unat_and_mask [of x 4] unat_and_mask [of x 6]
  by (simp_all add: mask_eq_exp_minus_1)

end
