(* ===== verification/Bitscan.thy ===== *)
theory Bitscan
  imports Prelude
begin

text \<open>
  \<open>src/src/bpf/bpf_compat.h\<close>: the bit-field extraction macros and the De Bruijn bit scans that
  replace \<open>__builtin_ctz\<close>/\<open>__builtin_ctzll\<close> on older compilers. The locale \<open>bit_scan\<close>
  is the contract the scheduler's victim selection, work stealing and P-core scan rely on;
  both De Bruijn routines and the reference scan are interpretations of it.
\<close>

section \<open>Bit-field extraction\<close>

definition EXTRACT_BITS_U32 :: "u32 \<Rightarrow> nat \<Rightarrow> nat \<Rightarrow> u32" where
  "EXTRACT_BITS_U32 val start len = drop_bit start val AND (push_bit len 1 - 1)"

definition EXTRACT_BITS_U64 :: "u64 \<Rightarrow> nat \<Rightarrow> nat \<Rightarrow> u64" where
  "EXTRACT_BITS_U64 val start len = drop_bit start val AND (push_bit len 1 - 1)"

lemma EXTRACT_BITS_U32_take: "EXTRACT_BITS_U32 v s l = take_bit l (drop_bit s v)"
  by (simp add: EXTRACT_BITS_U32_def take_bit_eq_mask mask_eq_exp_minus_1)

lemma EXTRACT_BITS_U64_take: "EXTRACT_BITS_U64 v s l = take_bit l (drop_bit s v)"
  by (simp add: EXTRACT_BITS_U64_def take_bit_eq_mask mask_eq_exp_minus_1)

section \<open>De Bruijn bit scans\<close>

definition de_bruijn_bits :: "u8 list" where
  "de_bruijn_bits = [
     0,  1,  2, 53,  3,  7, 54, 27, 4, 38, 41,  8, 34, 55, 48, 28,
     62, 5, 39, 46, 44, 42, 22,  9, 24, 35, 59, 56, 49, 18, 29, 11,
     63, 52, 6, 26, 37, 40, 33, 47, 61, 45, 43, 21, 23, 58, 17, 10,
     51, 25, 36, 32, 60, 20, 57, 16, 50, 31, 19, 15, 30, 14, 13, 12]"

definition imperator_ctz64 :: "u64 \<Rightarrow> u64 \<Rightarrow> u32" where
  "imperator_ctz64 m mult =
     (let lsb = m AND - m;
          prod = lsb * mult
      in ucast (de_bruijn_bits ! unat (drop_bit 58 prod)))"

definition BIT_SCAN_FORWARD_U64 :: "u64 \<Rightarrow> u32" where
  "BIT_SCAN_FORWARD_U64 m = imperator_ctz64 m 0x022FDD63CC95386D"

definition de_bruijn32 :: "u8 list" where
  "de_bruijn32 = [
     0, 1, 28, 2, 29, 14, 24, 3, 30, 22, 20, 15, 25, 17, 4, 8,
     31, 27, 13, 23, 21, 19, 16, 7, 26, 12, 18, 6, 11, 5, 10, 9]"

definition imperator_ctz32 :: "u32 \<Rightarrow> u32" where
  "imperator_ctz32 m =
     (let lsb = m AND - m;
          prod = lsb * 0x077CB531
      in ucast (de_bruijn32 ! unat (drop_bit 27 prod)))"

definition BIT_SCAN_FORWARD_U32 :: "u32 \<Rightarrow> u32" where
  "BIT_SCAN_FORWARD_U32 m = imperator_ctz32 m"

text \<open>The table lookups stay inside the tables whatever the multiplier is.\<close>

lemma de_bruijn_index_bound: "unat (drop_bit 58 (x :: u64)) < length de_bruijn_bits"
proof -
  have "unat x < 2 ^ 64" using unsigned_less [of x] by simp
  then have "unat x div 2 ^ 58 < 64" by simp
  then show ?thesis by (simp only: unat_drop_bit) (simp add: de_bruijn_bits_def)
qed

lemma de_bruijn32_index_bound: "unat (drop_bit 27 (x :: u32)) < length de_bruijn32"
proof -
  have "unat x < 2 ^ 32" using unsigned_less [of x] by simp
  then have "unat x div 2 ^ 27 < 32" by simp
  then show ?thesis by (simp only: unat_drop_bit) (simp add: de_bruijn32_def)
qed

text \<open>The De Bruijn property: each power of two selects its own exponent.\<close>

lemma de_bruijn_table:
  "\<forall>k \<in> set [0..<64]. unat (de_bruijn_bits ! unat (drop_bit 58 (push_bit k 1 * 0x022FDD63CC95386D :: u64))) = k"
  by (simp add: upt_rec de_bruijn_bits_def)

lemma de_bruijn32_table:
  "\<forall>k \<in> set [0..<32]. unat (de_bruijn32 ! unat (drop_bit 27 (push_bit k 1 * 0x077CB531 :: u32))) = k"
  by (simp add: upt_rec de_bruijn32_def)

lemma unat_BIT_SCAN_FORWARD_U64: "m \<noteq> 0 \<Longrightarrow> unat (BIT_SCAN_FORWARD_U64 m) = ctz m"
  using de_bruijn_table ctz_less [of m]
  by (simp add: BIT_SCAN_FORWARD_U64_def imperator_ctz64_def lowest_bit_and_neg unsigned_ucast_eq take_bit_nat_eq_self)

lemma unat_BIT_SCAN_FORWARD_U32: "m \<noteq> 0 \<Longrightarrow> unat (BIT_SCAN_FORWARD_U32 m) = ctz m"
  using de_bruijn32_table ctz_less [of m]
  by (simp add: BIT_SCAN_FORWARD_U32_def imperator_ctz32_def lowest_bit_and_neg unsigned_ucast_eq take_bit_nat_eq_self)

section \<open>The bit-scan contract\<close>

text \<open>
  What every caller of \<open>BIT_SCAN_FORWARD\<close> relies on: on a nonzero mask the scan returns the
  position of a set bit below which no bit is set. Everything the callers need about victim
  choice and about the ``scan, then clear the lowest bit'' loops follows from it.
\<close>

locale bit_scan =
  fixes bsf :: "'a::len word \<Rightarrow> u32"
  assumes scan_bit: "m \<noteq> 0 \<Longrightarrow> bit m (unat (bsf m))"
    and scan_least: "m \<noteq> 0 \<Longrightarrow> j < unat (bsf m) \<Longrightarrow> \<not> bit m j"
begin

lemma scan_ctz: "m \<noteq> 0 \<Longrightarrow> unat (bsf m) = ctz m"
  by (metis bit_imp_le_length ctz_unique scan_bit scan_least)

lemma scan_less: "m \<noteq> 0 \<Longrightarrow> unat (bsf m) < LENGTH('a)"
  by (simp add: scan_ctz ctz_less)

lemma scan_le: "m \<noteq> 0 \<Longrightarrow> bit m j \<Longrightarrow> unat (bsf m) \<le> j"
  by (meson not_le_imp_less scan_least)

lemma scan_and:
  assumes "m AND k \<noteq> 0"
  shows "bit m (unat (bsf (m AND k)))" "bit k (unat (bsf (m AND k)))"
  using scan_bit [OF assms] by (simp_all add: bit_and_iff)

lemma scan_step: "m \<noteq> 0 \<Longrightarrow> bits_asc m = unat (bsf m) # bits_asc (m AND (m - 1))"
  by (simp add: scan_ctz bits_asc_Cons)

end

interpretation bsf64: bit_scan BIT_SCAN_FORWARD_U64
  by unfold_locales (simp_all add: unat_BIT_SCAN_FORWARD_U64 ctz_bit ctz_least)

interpretation bsf32: bit_scan BIT_SCAN_FORWARD_U32
  by unfold_locales (simp_all add: unat_BIT_SCAN_FORWARD_U32 ctz_bit ctz_least)

section \<open>Properties\<close>

text \<open>
  C32. The 64-bit De Bruijn scan (\<open>imperator_ctz64\<close> with the multiplier of the macro) agrees with
  the reference count of trailing zeros on every nonzero mask, so both arms of the
  \<open>#if __clang_major__ < 19\<close> compute the same index.
\<close>

theorem ctz64_correct: "m \<noteq> 0 \<Longrightarrow> unat (BIT_SCAN_FORWARD_U64 m) = ctz m"
  by (rule bsf64.scan_ctz)

theorem ctz64_correct_witness:
  "(0x50000 :: u64) \<noteq> 0 \<and> unat (BIT_SCAN_FORWARD_U64 0x50000) = ctz (0x50000 :: u64)
     \<and> unat (BIT_SCAN_FORWARD_U64 0x50000) = 16"
  using ctz64_correct [of "0x50000"]
  by (simp add: BIT_SCAN_FORWARD_U64_def imperator_ctz64_def de_bruijn_bits_def)

text \<open>
  The 32-bit De Bruijn scan used by the work-stealing loop agrees with the reference count
  of trailing zeros on every nonzero mask.
\<close>

theorem ctz32_correct: "m \<noteq> 0 \<Longrightarrow> unat (BIT_SCAN_FORWARD_U32 m) = ctz m"
  by (rule bsf32.scan_ctz)

theorem ctz32_correct_witness:
  "(0x90 :: u32) \<noteq> 0 \<and> unat (BIT_SCAN_FORWARD_U32 0x90) = ctz (0x90 :: u32)
     \<and> unat (BIT_SCAN_FORWARD_U32 0x90) = 4"
  using ctz32_correct [of "0x90"]
  by (simp add: BIT_SCAN_FORWARD_U32_def imperator_ctz32_def de_bruijn32_def)

end
