(* ===== verification/Intf.thy ===== *)
theory Intf
  imports Bitscan
begin

text \<open>
  \<open>src/src/bpf/intf.h\<close>: the tier enumeration, the packed per-task state, the per-CPU mailbox, the
  statistics block and the fused tier configuration, with the macros that pack and unpack
  them. \<open>packed_info\<close> and the fused words stay single machine words here, as in the source; the
  lemmas say which field each macro reads and that no macro disturbs another field.
\<close>

section \<open>Tiers\<close>

datatype imperator_tier = TIER_CRITICAL | TIER_INTERACT | TIER_FRAME | TIER_BULK

abbreviation (input) CAKE_TIER_CRITICAL :: u8 where "CAKE_TIER_CRITICAL \<equiv> 0"
abbreviation (input) CAKE_TIER_INTERACT :: u8 where "CAKE_TIER_INTERACT \<equiv> 1"
abbreviation (input) CAKE_TIER_FRAME :: u8 where "CAKE_TIER_FRAME \<equiv> 2"
abbreviation (input) CAKE_TIER_BULK :: u8 where "CAKE_TIER_BULK \<equiv> 3"
abbreviation (input) CAKE_TIER_MAX :: nat where "CAKE_TIER_MAX \<equiv> 4"

fun tier_code :: "imperator_tier \<Rightarrow> u8" where
  "tier_code TIER_CRITICAL = CAKE_TIER_CRITICAL"
| "tier_code TIER_INTERACT = CAKE_TIER_INTERACT"
| "tier_code TIER_FRAME = CAKE_TIER_FRAME"
| "tier_code TIER_BULK = CAKE_TIER_BULK"

definition tier_of :: "u8 \<Rightarrow> imperator_tier" where
  "tier_of t = (if t = 0 then TIER_CRITICAL else if t = 1 then TIER_INTERACT
                else if t = 2 then TIER_FRAME else TIER_BULK)"

lemma tier_of_code [simp]: "tier_of (tier_code t) = t"
  by (cases t) (simp_all add: tier_of_def)

instantiation imperator_tier :: linorder
begin

definition less_eq_imperator_tier :: "imperator_tier \<Rightarrow> imperator_tier \<Rightarrow> bool" where
  "a \<le> b \<longleftrightarrow> tier_code a \<le> tier_code b"

definition less_imperator_tier :: "imperator_tier \<Rightarrow> imperator_tier \<Rightarrow> bool" where
  "a < b \<longleftrightarrow> tier_code a < tier_code b"

instance
proof
  fix a b :: imperator_tier
  assume "a \<le> b" "b \<le> a"
  then have "tier_code a = tier_code b" by (simp add: less_eq_imperator_tier_def)
  then show "a = b" by (metis tier_of_code)
qed (auto simp: less_eq_imperator_tier_def less_imperator_tier_def)

end

definition CAKE_TIER_IDX :: "'a::len word \<Rightarrow> 'a word" where
  "CAKE_TIER_IDX t = t AND 7"

abbreviation (input) CAKE_MAX_CPUS :: nat where "CAKE_MAX_CPUS \<equiv> 64"
abbreviation (input) CAKE_MAX_LLCS :: nat where "CAKE_MAX_LLCS \<equiv> 8"
abbreviation (input) LLC_DSQ_BASE :: u64 where "LLC_DSQ_BASE \<equiv> 200"

section \<open>Per-task flow state\<close>

text \<open>
  \<open>struct imperator_task_ctx\<close>. The anonymous unions overlay \<open>deficit_us\<close> and
  \<open>avg_runtime_us\<close> on \<open>deficit_avg_fused\<close>, which is how every access of the code goes; the
  trailing \<open>__pad\<close> is never read or written.
\<close>

record imperator_task_ctx =
  next_slice :: u64
  deficit_avg_fused :: u32
  packed_info :: u32
  last_run_at :: u32
  reclass_counter :: u16
  overrun_count :: u8
  lock_skip_count :: u8
  pending_futex_op :: u8
  align_pad :: "u8 list"
  enqueue_time :: u32
  jitter_ewma_us :: u16
  burst_credit :: u16
  sleep_entry_time :: u32
  burst_acc_us :: u16

abbreviation (input) CAKE_FLOW_NEW :: u32 where "CAKE_FLOW_NEW \<equiv> 1"
abbreviation (input) CAKE_FLAG_LOCK_HOLDER :: u32 where "CAKE_FLAG_LOCK_HOLDER \<equiv> 2"
abbreviation (input) CAKE_FLOW_IRQ_WAKE :: u32 where "CAKE_FLOW_IRQ_WAKE \<equiv> 4"

abbreviation (input) SHIFT_FLAGS :: nat where "SHIFT_FLAGS \<equiv> 24"
abbreviation (input) SHIFT_TIER :: nat where "SHIFT_TIER \<equiv> 28"
abbreviation (input) SHIFT_STABLE :: nat where "SHIFT_STABLE \<equiv> 30"
abbreviation (input) MASK_TIER :: "'a::len word" where "MASK_TIER \<equiv> 3"
abbreviation (input) MASK_FLAGS :: "'a::len word" where "MASK_FLAGS \<equiv> 15"
abbreviation (input) CAKE_FUTEX_OP_UNSET :: u8 where "CAKE_FUTEX_OP_UNSET \<equiv> 0xFF"

definition GET_TIER_RAW :: "u32 \<Rightarrow> u32" where
  "GET_TIER_RAW packed = EXTRACT_BITS_U32 packed SHIFT_TIER 2"

definition GET_TIER :: "imperator_task_ctx \<Rightarrow> u32" where
  "GET_TIER ctx = GET_TIER_RAW (packed_info ctx)"

definition packed_tier :: "u32 \<Rightarrow> u8" where
  \<comment> \<open>\<open>(packed >> SHIFT_TIER) & MASK_TIER\<close>\<close>
  "packed_tier packed = ucast (drop_bit SHIFT_TIER packed AND MASK_TIER)"

definition packed_stable :: "u32 \<Rightarrow> u8" where
  \<comment> \<open>\<open>(packed >> SHIFT_STABLE) & 3\<close>\<close>
  "packed_stable packed = ucast (drop_bit SHIFT_STABLE packed AND 3)"

definition flag_mask :: "u32 \<Rightarrow> u32" where
  \<comment> \<open>\<open>(u32)FLAG << SHIFT_FLAGS\<close>\<close>
  "flag_mask f = push_bit SHIFT_FLAGS f"

definition has_flag :: "u32 \<Rightarrow> u32 \<Rightarrow> bool" where
  "has_flag f packed \<longleftrightarrow> packed AND flag_mask f \<noteq> 0"

definition set_flag :: "u32 \<Rightarrow> u32 \<Rightarrow> u32" where
  "set_flag f packed = packed OR flag_mask f"

definition clear_flag :: "u32 \<Rightarrow> u32 \<Rightarrow> u32" where
  "clear_flag f packed = packed AND NOT (flag_mask f)"

definition EXTRACT_DEFICIT :: "u32 \<Rightarrow> u16" where
  "EXTRACT_DEFICIT fused = ucast (fused AND 0xFFFF)"

definition EXTRACT_AVG_RT :: "u32 \<Rightarrow> u16" where
  "EXTRACT_AVG_RT fused = ucast (drop_bit 16 fused)"

definition PACK_DEFICIT_AVG :: "u16 \<Rightarrow> u16 \<Rightarrow> u32" where
  "PACK_DEFICIT_AVG deficit avg = (ucast deficit AND 0xFFFF) OR push_bit 16 (ucast avg)"

definition deficit_us :: "imperator_task_ctx \<Rightarrow> u16" where
  \<comment> \<open>the low half of the union over \<open>deficit_avg_fused\<close>\<close>
  "deficit_us c = EXTRACT_DEFICIT (deficit_avg_fused c)"

definition avg_runtime_us :: "imperator_task_ctx \<Rightarrow> u16" where
  \<comment> \<open>the high half of the union over \<open>deficit_avg_fused\<close>\<close>
  "avg_runtime_us c = EXTRACT_AVG_RT (deficit_avg_fused c)"

definition ctx_tier :: "imperator_task_ctx \<Rightarrow> u8" where
  "ctx_tier c = packed_tier (packed_info c)"

abbreviation (input) TIER_GATE_T0 :: u16 where "TIER_GATE_T0 \<equiv> 100"
abbreviation (input) TIER_GATE_T1 :: u16 where "TIER_GATE_T1 \<equiv> 2000"
abbreviation (input) TIER_GATE_T2 :: u16 where "TIER_GATE_T2 \<equiv> 8000"

section \<open>Mailbox, statistics, tier configuration\<close>

record mega_mailbox_entry =
  mbox_flags :: u8
  dsq_hint :: u8
  tick_counter :: u8

abbreviation (input) MBOX_TIER_MASK :: u8 where "MBOX_TIER_MASK \<equiv> 3"
abbreviation (input) MBOX_VALID_FLAG :: u8 where "MBOX_VALID_FLAG \<equiv> 0x80"

definition MBOX_GET_TIER :: "u8 \<Rightarrow> u8" where
  "MBOX_GET_TIER f = f AND MBOX_TIER_MASK"

record imperator_stats =
  nr_new_flow_dispatches :: u64
  nr_old_flow_dispatches :: u64
  nr_tier_dispatches :: "u64 list"
  nr_starvation_preempts_tier :: "u64 list"
  nr_lock_holder_skips :: u64
  nr_irq_wake_boosts :: u64
  nr_waker_tier_boosts :: u64
  nr_preempt_with_credit :: u64
  nr_burst_credit_consumed :: u64
  nr_jitter_ewma_sum :: u64
  nr_jitter_ewma_count :: u64

type_synonym fused_config_t = u64

abbreviation (input) CFG_SHIFT_MULTIPLIER :: nat where "CFG_SHIFT_MULTIPLIER \<equiv> 0"
abbreviation (input) CFG_SHIFT_QUANTUM :: nat where "CFG_SHIFT_QUANTUM \<equiv> 12"
abbreviation (input) CFG_SHIFT_STARVATION :: nat where "CFG_SHIFT_STARVATION \<equiv> 28"
abbreviation (input) CFG_MASK_MULTIPLIER :: u64 where "CFG_MASK_MULTIPLIER \<equiv> 0x0FFF"
abbreviation (input) CFG_MASK_QUANTUM :: u64 where "CFG_MASK_QUANTUM \<equiv> 0xFFFF"
abbreviation (input) CFG_MASK_STARVATION :: u64 where "CFG_MASK_STARVATION \<equiv> 0xFFFFF"

definition UNPACK_MULTIPLIER :: "fused_config_t \<Rightarrow> u64" where
  "UNPACK_MULTIPLIER c = c AND CFG_MASK_MULTIPLIER"

definition UNPACK_QUANTUM_NS :: "fused_config_t \<Rightarrow> u64" where
  "UNPACK_QUANTUM_NS c = push_bit 10 (drop_bit CFG_SHIFT_QUANTUM c AND CFG_MASK_QUANTUM)"

definition UNPACK_STARVATION_NS :: "fused_config_t \<Rightarrow> u64" where
  "UNPACK_STARVATION_NS c = push_bit 10 (drop_bit CFG_SHIFT_STARVATION c)"

definition PACK_CONFIG :: "u64 \<Rightarrow> u64 \<Rightarrow> u64 \<Rightarrow> fused_config_t" where
  "PACK_CONFIG q_kns mult starv_kns =
     push_bit CFG_SHIFT_MULTIPLIER (mult AND CFG_MASK_MULTIPLIER)
     OR push_bit CFG_SHIFT_QUANTUM (q_kns AND CFG_MASK_QUANTUM)
     OR push_bit CFG_SHIFT_STARVATION (starv_kns AND CFG_MASK_STARVATION)"

section \<open>The fields of \<open>packed_info\<close>\<close>

lemma bit_packed_tier: "bit (packed_tier p) n \<longleftrightarrow> n < 2 \<and> bit p (28 + n)"
  by (auto simp: packed_tier_def and_low_mask bit_simps)

lemma bit_packed_stable: "bit (packed_stable p) n \<longleftrightarrow> n < 2 \<and> bit p (30 + n)"
  by (auto simp: packed_stable_def and_low_mask bit_simps)

lemma unat_packed_tier: "unat (packed_tier p) < 4"
proof -
  have "unat (packed_tier p) = unat (drop_bit 28 p AND 3)"
    unfolding packed_tier_def by (rule unat_ucast_id) (simp only: unat_and_low, simp)
  then show ?thesis by (simp only: unat_and_low)
qed

lemma unat_packed_stable: "unat (packed_stable p) < 4"
proof -
  have "unat (packed_stable p) = unat (drop_bit 30 p AND 3)"
    unfolding packed_stable_def by (rule unat_ucast_id) (simp only: unat_and_low, simp)
  then show ?thesis by (simp only: unat_and_low)
qed

lemma u8_less_4_cases:
  assumes "unat (t :: u8) < 4"
  obtains "t = 0" | "t = 1" | "t = 2" | "t = 3"
proof -
  have "unat t = 0 \<or> unat t = 1 \<or> unat t = 2 \<or> unat t = 3" using assms by linarith
  then have "t = 0 \<or> t = 1 \<or> t = 2 \<or> t = 3"
    by (simp add: word_unat_eq_iff)
  with that show thesis by blast
qed

lemma packed_tier_cases:
  obtains "packed_tier p = 0" | "packed_tier p = 1" | "packed_tier p = 2" | "packed_tier p = 3"
  using unat_packed_tier by (rule u8_less_4_cases)

lemma GET_TIER_RAW_eq: "GET_TIER_RAW p = ucast (packed_tier p)"
  by (rule bit_word_eqI) (auto simp: GET_TIER_RAW_def EXTRACT_BITS_U32_take bit_packed_tier bit_simps)

lemma idx_GET_TIER [simp]: "(ucast (CAKE_TIER_IDX (GET_TIER c)) :: u8) = packed_tier (packed_info c)"
  by (rule bit_word_eqI)
     (auto simp: GET_TIER_def GET_TIER_RAW_eq CAKE_TIER_IDX_def and_low_mask bit_packed_tier bit_simps)

lemma ucast_GET_TIER [simp]: "(ucast (GET_TIER c) :: u8) = packed_tier (packed_info c)"
  by (rule bit_word_eqI) (auto simp: GET_TIER_def GET_TIER_RAW_eq bit_packed_tier bit_simps)

lemma CAKE_TIER_IDX_id: "unat t < 8 \<Longrightarrow> CAKE_TIER_IDX t = t"
  by (simp add: word_unat_eq_iff CAKE_TIER_IDX_def unat_and_low)

lemma CAKE_TIER_IDX_packed_tier [simp]: "CAKE_TIER_IDX (packed_tier p) = packed_tier p"
  using unat_packed_tier [of p] by (intro CAKE_TIER_IDX_id) linarith

lemma unat_CAKE_TIER_IDX: "unat (CAKE_TIER_IDX t) < 8"
  by (simp add: CAKE_TIER_IDX_def unat_and_low)

text \<open>
  A flag of \<open>packed_info\<close> is one bit in positions 24 to 27. Setting or clearing it is exact and
  leaves the tier, the stability counter, the reserved bits and the other flags alone.
\<close>

locale packed_flag =
  fixes k :: nat and f :: u32
  assumes mask_pos: "flag_mask f = push_bit k 1"
    and lo: "24 \<le> k" and hi: "k < 28"
begin

lemma bit_set: "bit (set_flag f p) n \<longleftrightarrow> n = k \<or> bit p n"
  using hi by (auto simp: set_flag_def mask_pos bit_simps)

lemma bit_clear: "bit (clear_flag f p) n \<longleftrightarrow> n \<noteq> k \<and> bit p n"
  using bit_imp_le_length [of p n] by (auto simp: clear_flag_def mask_pos bit_simps)

lemma has_iff: "has_flag f p \<longleftrightarrow> bit p k"
  by (simp add: has_flag_def mask_pos push_bit_eq_mult and_exp_eq_0_iff_not_bit)

lemma tier_set: "packed_tier (set_flag f p) = packed_tier p"
  using hi by (intro bit_word_eqI) (auto simp: bit_packed_tier bit_set)

lemma tier_clear: "packed_tier (clear_flag f p) = packed_tier p"
  using hi by (intro bit_word_eqI) (auto simp: bit_packed_tier bit_clear)

lemma stable_set: "packed_stable (set_flag f p) = packed_stable p"
  using hi by (intro bit_word_eqI) (auto simp: bit_packed_stable bit_set)

lemma stable_clear: "packed_stable (clear_flag f p) = packed_stable p"
  using hi by (intro bit_word_eqI) (auto simp: bit_packed_stable bit_clear)

lemma set_twice: "set_flag f (set_flag f p) = set_flag f p"
  by (rule bit_word_eqI) (simp add: bit_set)

lemma clear_twice: "clear_flag f (clear_flag f p) = clear_flag f p"
  by (rule bit_word_eqI) (simp add: bit_clear)

lemma clear_set: "clear_flag f (set_flag f p) = clear_flag f p"
  by (rule bit_word_eqI) (auto simp: bit_set bit_clear)

lemma clear_id: "\<not> has_flag f p \<Longrightarrow> clear_flag f p = p"
  by (rule bit_word_eqI) (auto simp: has_iff bit_clear)

end

lemma flag_mask_bits: "flag_mask 1 = push_bit 24 1" "flag_mask 2 = push_bit 25 1"
    "flag_mask 4 = push_bit 26 1"
  by (simp_all add: flag_mask_def)

interpretation new_flag: packed_flag 24 CAKE_FLOW_NEW
  by unfold_locales (simp_all add: flag_mask_bits)

interpretation lock_flag: packed_flag 25 CAKE_FLAG_LOCK_HOLDER
  by unfold_locales (simp_all add: flag_mask_bits)

interpretation irq_flag: packed_flag 26 CAKE_FLOW_IRQ_WAKE
  by unfold_locales (simp_all add: flag_mask_bits)

lemmas flag_bits [flag_simps] =
  new_flag.bit_set new_flag.bit_clear new_flag.has_iff
  lock_flag.bit_set lock_flag.bit_clear lock_flag.has_iff
  irq_flag.bit_set irq_flag.bit_clear irq_flag.has_iff

lemmas flag_fields [simp] =
  new_flag.tier_set new_flag.tier_clear new_flag.stable_set new_flag.stable_clear
  lock_flag.tier_set lock_flag.tier_clear lock_flag.stable_set lock_flag.stable_clear
  irq_flag.tier_set irq_flag.tier_clear irq_flag.stable_set irq_flag.stable_clear

definition rsvd_zero :: "u32 \<Rightarrow> bool" where
  \<comment> \<open>bits 23..0 of \<open>packed_info\<close> are reserved and must be zero\<close>
  "rsvd_zero p \<longleftrightarrow> p AND 0xFFFFFF = 0"

lemma rsvd_zero_bits: "rsvd_zero p \<longleftrightarrow> (\<forall>n < 24. \<not> bit p n)"
  by (auto simp: rsvd_zero_def and_low_mask bit_eq_iff bit_simps)

lemma rsvd_zero_flags [wf_intros]:
  "rsvd_zero p \<Longrightarrow> rsvd_zero (set_flag CAKE_FLOW_IRQ_WAKE p)"
  "rsvd_zero p \<Longrightarrow> rsvd_zero (clear_flag CAKE_FLOW_IRQ_WAKE p)"
  "rsvd_zero p \<Longrightarrow> rsvd_zero (set_flag CAKE_FLAG_LOCK_HOLDER p)"
  "rsvd_zero p \<Longrightarrow> rsvd_zero (clear_flag CAKE_FLAG_LOCK_HOLDER p)"
  "rsvd_zero p \<Longrightarrow> rsvd_zero (clear_flag CAKE_FLOW_NEW p)"
  by (simp_all add: rsvd_zero_bits flag_simps)

section \<open>The fused deficit/average word\<close>

lemma EXTRACT_DEFICIT_PACK [simp]: "EXTRACT_DEFICIT (PACK_DEFICIT_AVG d a) = d"
  by (rule bit_word_eqI) (auto simp: EXTRACT_DEFICIT_def PACK_DEFICIT_AVG_def and_low_mask bit_simps)

lemma EXTRACT_AVG_RT_PACK [simp]: "EXTRACT_AVG_RT (PACK_DEFICIT_AVG d a) = a"
  by (rule bit_word_eqI) (auto simp: EXTRACT_AVG_RT_def PACK_DEFICIT_AVG_def and_low_mask bit_simps)

lemma PACK_EXTRACT [simp]: "PACK_DEFICIT_AVG (EXTRACT_DEFICIT w) (EXTRACT_AVG_RT w) = w"
  by (rule bit_word_eqI)
     (auto simp: EXTRACT_AVG_RT_def EXTRACT_DEFICIT_def PACK_DEFICIT_AVG_def and_low_mask bit_simps)

lemma PACK_DEFICIT_AVG_inject [simp]:
  "PACK_DEFICIT_AVG d a = PACK_DEFICIT_AVG d' a' \<longleftrightarrow> d = d' \<and> a = a'"
  by (metis EXTRACT_AVG_RT_PACK EXTRACT_DEFICIT_PACK)

section \<open>The mailbox flags byte\<close>

definition mbox_encode :: "u8 \<Rightarrow> u8" where
  \<comment> \<open>\<open>(u8)(MBOX_VALID_FLAG | (tier & MBOX_TIER_MASK))\<close>\<close>
  "mbox_encode tier = MBOX_VALID_FLAG OR (tier AND MBOX_TIER_MASK)"

lemma bit_mbox_encode: "bit (mbox_encode t) n \<longleftrightarrow> n = 7 \<or> n < 2 \<and> bit t n"
proof -
  have "(0x80 :: u8) = push_bit 7 1" by simp
  then show ?thesis unfolding mbox_encode_def and_low_mask
    by (simp only: bit_simps) (auto simp: bit_simps)
qed

section \<open>The fused tier configuration\<close>

lemma UNPACK_MULTIPLIER_PACK [simp]:
  "UNPACK_MULTIPLIER (PACK_CONFIG q m s) = m AND CFG_MASK_MULTIPLIER"
  by (rule bit_word_eqI) (auto simp: UNPACK_MULTIPLIER_def PACK_CONFIG_def and_low_mask bit_simps)

lemma UNPACK_QUANTUM_NS_PACK [simp]:
  "UNPACK_QUANTUM_NS (PACK_CONFIG q m s) = push_bit 10 (q AND CFG_MASK_QUANTUM)"
  by (rule bit_word_eqI) (auto simp: UNPACK_QUANTUM_NS_def PACK_CONFIG_def and_low_mask bit_simps)

lemma UNPACK_STARVATION_NS_PACK [simp]:
  "UNPACK_STARVATION_NS (PACK_CONFIG q m s) = push_bit 10 (s AND CFG_MASK_STARVATION)"
  by (rule bit_word_eqI) (auto simp: UNPACK_STARVATION_NS_def PACK_CONFIG_def and_low_mask bit_simps)

section \<open>Properties\<close>

text \<open>
  The fused tier configuration round-trips: unpacking what \<open>PACK_CONFIG\<close> packed returns the
  12-bit multiplier, and the 16-bit quantum and 20-bit starvation budget back in nanoseconds
  (units of 1024 ns), none of them leaking into another.
\<close>

theorem PACK_CONFIG_roundtrip:
  "UNPACK_MULTIPLIER (PACK_CONFIG q m s) = m AND CFG_MASK_MULTIPLIER
   \<and> UNPACK_QUANTUM_NS (PACK_CONFIG q m s) = push_bit 10 (q AND CFG_MASK_QUANTUM)
   \<and> UNPACK_STARVATION_NS (PACK_CONFIG q m s) = push_bit 10 (s AND CFG_MASK_STARVATION)"
  by (intro conjI UNPACK_MULTIPLIER_PACK UNPACK_QUANTUM_NS_PACK UNPACK_STARVATION_NS_PACK)

text \<open>
  C33. The packed per-task words round-trip: the deficit and the average read back what was
  packed, repacking what was read is the identity, and setting or clearing the lock-holder,
  IRQ-wake and new-flow flags changes exactly that flag and neither the tier nor the stability
  counter.
\<close>

theorem packed_words_roundtrip:
  "EXTRACT_DEFICIT (PACK_DEFICIT_AVG d a) = d \<and> EXTRACT_AVG_RT (PACK_DEFICIT_AVG d a) = a
   \<and> PACK_DEFICIT_AVG (EXTRACT_DEFICIT w) (EXTRACT_AVG_RT w) = w
   \<and> (\<forall>f \<in> {CAKE_FLOW_NEW, CAKE_FLAG_LOCK_HOLDER, CAKE_FLOW_IRQ_WAKE}.
        has_flag f (set_flag f p) \<and> \<not> has_flag f (clear_flag f p)
        \<and> packed_tier (set_flag f p) = packed_tier p
        \<and> packed_tier (clear_flag f p) = packed_tier p
        \<and> packed_stable (set_flag f p) = packed_stable p
        \<and> packed_stable (clear_flag f p) = packed_stable p
        \<and> (\<forall>g \<in> {CAKE_FLOW_NEW, CAKE_FLAG_LOCK_HOLDER, CAKE_FLOW_IRQ_WAKE} - {f}.
             has_flag g (set_flag f p) = has_flag g p \<and> has_flag g (clear_flag f p) = has_flag g p))"
  by (auto simp: flag_simps)

theorem packed_words_roundtrip_witness:
  "packed_tier (set_flag CAKE_FLOW_IRQ_WAKE 0x20000000) = 2
   \<and> has_flag CAKE_FLOW_IRQ_WAKE (set_flag CAKE_FLOW_IRQ_WAKE 0x20000000)"
  using packed_words_roundtrip [of 0 0 0 "0x20000000"]
  by (simp add: packed_tier_def)

end
