(* ===== verification/Sched_State.thy ===== *)
theory Sched_State
  imports Intf
begin

text \<open>
  The state of \<open>src/src/bpf/imperator.bpf.c\<close>: the read-only configuration written by the loader, the
  global (BSS) arrays, the per-task storage map, and the kernel calls a handler makes. Values
  that come from the kernel (clock, current CPU, queue depths, the flag constants of the
  sched\_ext headers) are arguments of the handlers; calls with an effect are recorded in
  order in \<open>kcalls\<close>.
\<close>

section \<open>Kernel side: constants, tasks, calls\<close>

text \<open>Constants of the kernel headers, which are not part of the repository.\<close>

record kabi =
  SCX_ENQ_WAKEUP :: u64
  SCX_ENQ_PREEMPT :: u64
  SCX_WAKE_SYNC :: u64
  SCX_DSQ_LOCAL :: u64
  SCX_DSQ_LOCAL_ON :: u64
  SCX_KICK_PREEMPT :: u64
  SCX_CPUPERF_ONE :: u32
  PF_KTHREAD :: u32

type_synonym tid = nat

text \<open>The fields of \<open>struct task_struct\<close> the scheduler reads.\<close>

record task_struct =
  ts_id :: tid
  ts_flags :: u32
  ts_static_prio :: u32
  ts_comm :: string
  ts_cpus_ptr :: "u32 \<Rightarrow> bool"
  ts_real_parent :: "tid option"

datatype kcall =
    Dsq_insert tid (dsq: u64) u64 u64
  | Dsq_insert_vtime tid (dsq: u64) u64 u64 u64
  | Dsq_move_to_local (dsq: u64)
  | Create_dsq (dsq: u64) s32
  | Kick_cpu u32 u64
  | Cpuperf_set u32 u32

section \<open>Configuration and global state\<close>

record rodata =
  quantum_ns :: u64
  new_flow_bonus_ns :: u64
  enable_stats :: bool
  has_hybrid :: bool
  big_cpu_mask :: u64
  sim_mode :: bool
  nr_llcs :: u32
  nr_cpus :: u32
  cpu_llc_id :: "u32 list"
  cpu_core_id :: "u32 list"
  cpu_thread_bit :: "u32 list"
  core_cpu_mask :: "u64 list"
  core_thread_mask :: "u32 list"
  threads_per_ccd :: u32
  tier_configs :: "fused_config_t list"

record sched =
  task_ctx :: "tid \<rightharpoonup> imperator_task_ctx"
  llc_cpu_mask :: "u64 list"
  mega_mailbox :: "mega_mailbox_entry list"
  llc_nonempty :: "u8 list"
  tier_cpu_mask :: "u64 list"
  dummy_idle :: "bool list"
  global_stats :: "imperator_stats list"
  llc_etd_cost :: "u8 list list"
  kcalls :: "kcall list"

definition stats_zero :: imperator_stats where
  "stats_zero = \<lparr>nr_new_flow_dispatches = 0, nr_old_flow_dispatches = 0,
     nr_tier_dispatches = replicate CAKE_TIER_MAX 0,
     nr_starvation_preempts_tier = replicate CAKE_TIER_MAX 0,
     nr_lock_holder_skips = 0, nr_irq_wake_boosts = 0, nr_waker_tier_boosts = 0,
     nr_preempt_with_credit = 0, nr_burst_credit_consumed = 0,
     nr_jitter_ewma_sum = 0, nr_jitter_ewma_count = 0\<rparr>"

definition bss_zero :: sched where
  \<comment> \<open>the zero-initialised \<open>.bss\<close> at load time\<close>
  "bss_zero = \<lparr>task_ctx = Map.empty,
     llc_cpu_mask = replicate CAKE_MAX_LLCS 0,
     mega_mailbox = replicate CAKE_MAX_CPUS \<lparr>mbox_flags = 0, dsq_hint = 0, tick_counter = 0\<rparr>,
     llc_nonempty = replicate CAKE_MAX_LLCS 0,
     tier_cpu_mask = replicate CAKE_TIER_MAX 0,
     dummy_idle = replicate CAKE_MAX_CPUS False,
     global_stats = replicate CAKE_MAX_CPUS stats_zero,
     llc_etd_cost = replicate CAKE_MAX_LLCS (replicate CAKE_MAX_LLCS 0),
     kcalls = []\<rparr>"

definition sched_wf :: "sched \<Rightarrow> bool" where
  \<comment> \<open>every array has the length the C declaration gives it\<close>
  "sched_wf s \<longleftrightarrow>
     length (llc_cpu_mask s) = CAKE_MAX_LLCS \<and> length (mega_mailbox s) = CAKE_MAX_CPUS
     \<and> length (llc_nonempty s) = CAKE_MAX_LLCS \<and> length (tier_cpu_mask s) = CAKE_TIER_MAX
     \<and> length (dummy_idle s) = CAKE_MAX_CPUS \<and> length (global_stats s) = CAKE_MAX_CPUS
     \<and> length (llc_etd_cost s) = CAKE_MAX_LLCS
     \<and> (\<forall>row \<in> set (llc_etd_cost s). length row = CAKE_MAX_LLCS)
     \<and> (\<forall>st \<in> set (global_stats s). length (nr_tier_dispatches st) = CAKE_TIER_MAX
          \<and> length (nr_starvation_preempts_tier st) = CAKE_TIER_MAX)"

section \<open>Elementary state operations\<close>

definition emit :: "kcall \<Rightarrow> sched \<Rightarrow> sched" where
  "emit c s = s\<lparr>kcalls := kcalls s @ [c]\<rparr>"

definition upd_ctx :: "tid \<Rightarrow> (imperator_task_ctx \<Rightarrow> imperator_task_ctx) \<Rightarrow> sched \<Rightarrow> sched" where
  \<comment> \<open>a store through the task-storage pointer\<close>
  "upd_ctx p f s = s\<lparr>task_ctx := (task_ctx s)(p := map_option f (task_ctx s p))\<rparr>"

definition upd_mbox :: "u32 \<Rightarrow> (mega_mailbox_entry \<Rightarrow> mega_mailbox_entry) \<Rightarrow> sched \<Rightarrow> sched" where
  "upd_mbox cpu f s =
     s\<lparr>mega_mailbox := (mega_mailbox s)[unat cpu := f (mega_mailbox s ! unat cpu)]\<rparr>"

definition get_mbox :: "u32 \<Rightarrow> sched \<Rightarrow> mega_mailbox_entry" where
  "get_mbox cpu s = mega_mailbox s ! unat cpu"

definition get_local_stats :: "u32 \<Rightarrow> nat" where
  \<comment> \<open>index of the running CPU's statistics block; the pointer is never NULL\<close>
  "get_local_stats smp_id = unat (smp_id AND 63)"

definition count_stat :: "rodata \<Rightarrow> u32 \<Rightarrow> (imperator_stats \<Rightarrow> imperator_stats) \<Rightarrow> sched \<Rightarrow> sched" where
  \<comment> \<open>\<open>if (enable_stats) { s = get_local_stats(); ... }\<close>\<close>
  "count_stat R smp_id f s =
     (if enable_stats R
      then s\<lparr>global_stats := (global_stats s)[get_local_stats smp_id :=
                               f (global_stats s ! get_local_stats smp_id)]\<rparr>
      else s)"

definition llc_mark_nonempty :: "u32 \<Rightarrow> sched \<Rightarrow> sched" where
  "llc_mark_nonempty llc_id s =
     (let idx = unat (llc_id AND 7)
      in if llc_nonempty s ! idx = 0
         then s\<lparr>llc_nonempty := (llc_nonempty s)[idx := 1]\<rparr> else s)"

end
