(* ===== verification/Deadline.thy ===== *)
theory Deadline
  imports Sched_State
begin

text \<open>
  The ordering key of the per-LLC queues: \<open>tier_configs[]\<close> and \<open>tier_deadline()\<close> of
  \<open>src/src/bpf/imperator.bpf.c\<close>. The locale \<open>edf_key\<close> is the contract the enqueue path relies on:
  tasks that arrive together run in strict tier order whatever advance they got, and a waiting
  task is passed only by arrivals inside a bounded window.
\<close>

section \<open>Compile-time configuration\<close>

definition tier_configs_default :: "fused_config_t list" where
  "tier_configs_default =
     [PACK_CONFIG (drop_bit 10 2000000) 512 (drop_bit 10 3000000),
      PACK_CONFIG (drop_bit 10 2000000) 1024 (drop_bit 10 8000000),
      PACK_CONFIG (drop_bit 10 2000000) 2048 (drop_bit 10 40000000),
      PACK_CONFIG (drop_bit 10 2000000) 4095 (drop_bit 10 50000000),
      PACK_CONFIG (drop_bit 10 2000000) 4095 (drop_bit 10 50000000),
      PACK_CONFIG (drop_bit 10 2000000) 4095 (drop_bit 10 50000000),
      PACK_CONFIG (drop_bit 10 2000000) 4095 (drop_bit 10 50000000),
      PACK_CONFIG (drop_bit 10 2000000) 4095 (drop_bit 10 50000000)]"

definition rodata_default :: rodata where
  \<comment> \<open>the initialisers of the \<open>const volatile\<close> globals\<close>
  "rodata_default = \<lparr>quantum_ns = 2 * 1000 * 1000, new_flow_bonus_ns = 8 * 1000 * 1000,
     enable_stats = False, has_hybrid = False, big_cpu_mask = 0, sim_mode = False,
     nr_llcs = 1, nr_cpus = 8, cpu_llc_id = replicate CAKE_MAX_CPUS 0,
     cpu_core_id = replicate CAKE_MAX_CPUS 0, cpu_thread_bit = replicate CAKE_MAX_CPUS 0,
     core_cpu_mask = replicate CAKE_MAX_CPUS 0, core_thread_mask = replicate CAKE_MAX_CPUS 0,
     threads_per_ccd = 0, tier_configs = tier_configs_default\<rparr>"

definition tier_cfg :: "rodata \<Rightarrow> 'a::len word \<Rightarrow> fused_config_t" where
  \<comment> \<open>\<open>tier_configs[CAKE_TIER_IDX(t)]\<close>\<close>
  "tier_cfg R t = tier_configs R ! unat (CAKE_TIER_IDX t)"

section \<open>The deadline\<close>

definition tier_deadline :: "rodata \<Rightarrow> u64 \<Rightarrow> u8 \<Rightarrow> u64 \<Rightarrow> u64" where
  "tier_deadline R now tier advance =
     (let t = CAKE_TIER_IDX (ucast tier :: u32);
          budget = UNPACK_STARVATION_NS (tier_configs R ! unat t);
          advance' =
            (if advance \<noteq> 0 \<and> t > ucast CAKE_TIER_CRITICAL
             then (let up = CAKE_TIER_IDX (t - 1);
                       budget_above = UNPACK_STARVATION_NS (tier_configs R ! unat up);
                       gap = (if budget > budget_above then budget - budget_above - 1 else 0)
                   in if advance > gap then gap else advance)
             else advance);
          dl = now + budget
      in if dl > advance' then dl - advance' else 0)"

definition budget_ns :: "rodata \<Rightarrow> nat \<Rightarrow> nat" where
  \<comment> \<open>the starvation budget of a tier, in nanoseconds\<close>
  "budget_ns R t = unat (UNPACK_STARVATION_NS (tier_configs R ! t))"

lemma unat_UNPACK_STARVATION_NS: "unat (UNPACK_STARVATION_NS c) = unat c div 2 ^ 28 * 2 ^ 10"
proof -
  have "unat c < 2 ^ 64" using unsigned_less [of c, where 'a = nat] by simp
  then have "unat c div 2 ^ 28 * 2 ^ 10 < 2 ^ 64" by simp
  then have "take_bit 64 (push_bit 10 (unat (drop_bit 28 c))) = unat c div 2 ^ 28 * 2 ^ 10"
    by (simp only: unat_drop_bit push_bit_eq_mult take_bit_nat_eq_self)
  then show ?thesis
    by (simp add: UNPACK_STARVATION_NS_def unsigned_push_bit_eq del: push_bit_numeral)
qed

lemma budget_ns_bound: "budget_ns R t < 2 ^ 46"
proof -
  have "unat c div 2 ^ 28 < 2 ^ 36" for c :: u64
    using unsigned_less [of c, where 'a = nat] by simp
  then show ?thesis unfolding budget_ns_def unat_UNPACK_STARVATION_NS by simp
qed

definition capped_advance :: "rodata \<Rightarrow> nat \<Rightarrow> nat \<Rightarrow> nat" where
  "capped_advance R t adv =
     (if t = 0 then adv else min adv (budget_ns R t - budget_ns R (t - 1) - 1))"

lemma capped_advance_le: "capped_advance R t a \<le> a"
  by (simp add: capped_advance_def)

lemma unat_gap:
  "unat (if b < a then a - b - 1 else (0 :: u64))
   = unat a - unat b - 1"
  by (auto simp: word_less_nat_alt unat_sub_if' split: if_splits)

lemma unat_min: "unat (if g < a then g else (a :: u64)) = min (unat a) (unat g)"
  by (auto simp: word_less_nat_alt)

lemma unat_sat_sub: "unat (if a < d then d - a else (0 :: u64)) = unat d - unat a"
  by (auto simp: word_less_nat_alt unat_sub_if')

lemma tier_deadline_unat:
  assumes now: "unat now + budget_ns R (unat tier) < 2 ^ 64" and t: "unat tier < 8"
  shows "unat (tier_deadline R now tier adv)
         = unat now + budget_ns R (unat tier) - capped_advance R (unat tier) (unat adv)"
proof -
  have idx: "unat (CAKE_TIER_IDX (ucast tier :: u32)) = unat tier"
    using t by (simp add: CAKE_TIER_IDX_def unat_and_low unat_ucast_id)
  define t32 where "t32 = CAKE_TIER_IDX (ucast tier :: u32)"
  have t0: "0 < t32 \<longleftrightarrow> unat tier \<noteq> 0"
    using idx by (simp add: t32_def word_less_nat_alt)
  have up: "unat (CAKE_TIER_IDX (t32 - 1)) = unat tier - 1" if "unat tier \<noteq> 0"
    using that idx t by (simp add: t32_def CAKE_TIER_IDX_def unat_and_low unat_sub_if')
  have sum: "unat (now + UNPACK_STARVATION_NS (tier_configs R ! unat tier))
             = unat now + budget_ns R (unat tier)"
    using now by (simp add: budget_ns_def unat_word_ariths)
  define bud where "bud = UNPACK_STARVATION_NS (tier_configs R ! unat tier)"
  define low where "low = UNPACK_STARVATION_NS (tier_configs R ! unat (CAKE_TIER_IDX (t32 - 1)))"
  define gap where "gap = (if bud > low then bud - low - 1 else 0)"
  define adv' where "adv' = (if adv \<noteq> 0 \<and> t32 > 0 then (if adv > gap then gap else adv) else adv)"
  have "unat adv' = capped_advance R (unat tier) (unat adv)"
  proof (cases "adv = 0 \<or> unat tier = 0")
    case True
    then show ?thesis by (auto simp: adv'_def capped_advance_def t0)
  next
    case False
    have "unat gap = budget_ns R (unat tier) - budget_ns R (unat tier - 1) - 1"
      unfolding gap_def using False by (simp only: unat_gap) (simp add: bud_def low_def up budget_ns_def)
    with False show ?thesis by (simp add: adv'_def capped_advance_def t0 unat_min)
  qed
  moreover have "tier_deadline R now tier adv = (if now + bud > adv' then now + bud - adv' else 0)"
    unfolding tier_deadline_def Let_def adv'_def gap_def low_def bud_def t32_def [symmetric]
    using idx by (simp add: t32_def)
  ultimately show ?thesis
    by (simp only: unat_sat_sub) (simp add: bud_def sum)
qed

section \<open>The ordering contract\<close>

text \<open>
  \<open>key now tier advance\<close> orders a queue; \<open>budget\<close> is the wait a tier tolerates. \<open>ok\<close>
  delimits the clock values for which the key does not wrap. A key meets the contract when it is
  the arrival time plus the budget at most, and an advance takes a task of tier \<open>t > 0\<close> no
  further than just behind the budget of tier \<open>t - 1\<close>.
\<close>

locale edf_key =
  fixes key :: "u64 \<Rightarrow> u8 \<Rightarrow> u64 \<Rightarrow> u64"
    and budget :: "nat \<Rightarrow> nat"
    and ok :: "u64 \<Rightarrow> bool"
  assumes budget_mono: "i < j \<Longrightarrow> j < 4 \<Longrightarrow> budget i < budget j"
    and key_le: "ok now \<Longrightarrow> unat t < 4 \<Longrightarrow> unat (key now t adv) \<le> unat now + budget (unat t)"
    and key_gt: "ok now \<Longrightarrow> unat t < 4 \<Longrightarrow> 0 < unat t \<Longrightarrow>
      unat now + budget (unat t - 1) < unat (key now t adv)"
    and key_ge: "ok now \<Longrightarrow> unat t < 4 \<Longrightarrow>
      unat now + budget (unat t) \<le> unat (key now t adv) + unat adv"
begin

lemma budget_le: "i \<le> j \<Longrightarrow> j < 4 \<Longrightarrow> budget i \<le> budget j"
  using budget_mono [of i j] by (cases "i = j") auto

lemma same_time_order:
  assumes "ok now" "unat t < unat t'" "unat t' < 4"
  shows "key now t adv < key now t' adv'"
proof -
  have "unat (key now t adv) \<le> unat now + budget (unat t)"
    using assms by (intro key_le) auto
  also have "\<dots> \<le> unat now + budget (unat t' - 1)"
    using assms by (simp add: budget_le)
  also have "\<dots> < unat (key now t' adv')"
    using assms by (intro key_gt) auto
  finally show ?thesis by (simp add: word_less_nat_alt)
qed

lemma no_overtaking:
  assumes "ok now" "ok later" "unat t < 4" "unat t' < 4"
    and "unat now + budget (unat t) + unat adv' < unat later + budget (unat t')"
  shows "key now t adv < key later t' adv'"
  using key_le [OF assms(1,3), of adv] key_ge [OF assms(2,4), of adv'] assms(5)
  by (simp add: word_less_nat_alt)

lemma no_overtaking_gap:
  assumes "ok now" "ok later" "unat t < 4" "unat t' < 4" "0 < unat t'"
    and "unat now + budget (unat t) \<le> unat later + budget (unat t' - 1)"
  shows "key now t adv < key later t' adv'"
  using key_le [OF assms(1,3), of adv] key_gt [OF assms(2,4,5), of adv'] assms(6)
  by (simp add: word_less_nat_alt)

end

definition budgets_increase :: "rodata \<Rightarrow> bool" where
  "budgets_increase R \<longleftrightarrow> budget_ns R 0 < budget_ns R 1 \<and> budget_ns R 1 < budget_ns R 2
     \<and> budget_ns R 2 < budget_ns R 3"

definition clock_ok :: "u64 \<Rightarrow> bool" where
  \<comment> \<open>the nanosecond clock is below \<open>2 ^ 63\<close> (292 years of uptime)\<close>
  "clock_ok now \<longleftrightarrow> unat now < 2 ^ 63"

lemma clock_ok_budget: "clock_ok now \<Longrightarrow> unat now + budget_ns R t < 2 ^ 64"
  using budget_ns_bound [of R t] by (simp add: clock_ok_def)

lemma edf_key_tier_deadline:
  assumes R: "budgets_increase R"
  shows "edf_key (tier_deadline R) (budget_ns R) clock_ok"
proof
  fix i j :: nat assume "i < j" "j < 4"
  then have "i = 0 \<or> i = 1 \<or> i = 2" "j = 1 \<or> j = 2 \<or> j = 3" by linarith+
  with \<open>i < j\<close> R show "budget_ns R i < budget_ns R j"
    by (auto simp: budgets_increase_def)
next
  fix now adv and t :: u8 assume ok: "clock_ok now" and t: "unat t < 4"
  note eq = tier_deadline_unat [of now R t adv, OF clock_ok_budget [OF ok]]
  show "unat (tier_deadline R now t adv) \<le> unat now + budget_ns R (unat t)"
    using eq t by simp
  show "unat now + budget_ns R (unat t) \<le> unat (tier_deadline R now t adv) + unat adv"
    using eq t capped_advance_le [of R "unat t" "unat adv"] by simp
next
  fix now adv and t :: u8 assume ok: "clock_ok now" and t: "unat t < 4" "0 < unat t"
  have "unat t = 1 \<or> unat t = 2 \<or> unat t = 3" using t by linarith
  then have "budget_ns R (unat t - 1) < budget_ns R (unat t)"
    using R by (auto simp: budgets_increase_def)
  then show "unat now + budget_ns R (unat t - 1) < unat (tier_deadline R now t adv)"
    using t tier_deadline_unat [of now R t adv, OF clock_ok_budget [OF ok]]
    by (simp add: capped_advance_def) arith
qed

lemma budget_ns_default:
  "budget_ns rodata_default 0 = 2999296" "budget_ns rodata_default (Suc 0) = 7999488"
  "budget_ns rodata_default 2 = 39999488" "budget_ns rodata_default 3 = 49999872"
  by (simp_all add: budget_ns_def rodata_default_def tier_configs_default_def)

lemma budgets_increase_default: "budgets_increase rodata_default"
  by (simp add: budgets_increase_def budget_ns_default)

interpretation default_key: edf_key "tier_deadline rodata_default" "budget_ns rodata_default" clock_ok
  by (rule edf_key_tier_deadline [OF budgets_increase_default])

section \<open>Properties\<close>

text \<open>
  C4. Tasks queued at the same time run in strict tier order, whatever new-flow or lock-holder
  advance each of them was given, for every configuration whose budgets rise with the tier.
\<close>

theorem same_time_strict_tier_order:
  assumes "budgets_increase R" "clock_ok now" "unat t < unat t'" "unat t' < 4"
  shows "tier_deadline R now t adv < tier_deadline R now t' adv'"
  using assms by (intro edf_key.same_time_order [OF edf_key_tier_deadline])

theorem same_time_strict_tier_order_witness:
  "tier_deadline rodata_default 1000 1 0 < tier_deadline rodata_default 1000 2 16000000
   \<and> unat (tier_deadline rodata_default 1000 2 16000000) = 24000488"
  using same_time_strict_tier_order
      [OF budgets_increase_default, of 1000 1 2 0 16000000]
  by (simp add: clock_ok_def tier_deadline_def CAKE_TIER_IDX_def rodata_default_def
      tier_configs_default_def)

text \<open>
  C5. Aging, exactly. A newcomer passes a waiting task as long as the wait is shorter than the waiting
  task's budget minus the newcomer's budget plus the newcomer's advance (less the advance the waiting
  task got itself), and never later. The advance counts after the cap: at most the advance given, and for
  a newcomer of T1 to T3 less than the gap to the tier above. The gap of the two budgets
  alone does not end the passing: only newcomers without an advance stop there.
\<close>

theorem waiting_task_not_passed:
  assumes "budgets_increase R" "clock_ok now" "clock_ok later" "unat t < 4" "unat t' < 4"
    and "unat adv \<le> unat now" "unat adv' \<le> unat later"
    and own: "own = capped_advance R (unat t) (unat adv)" and gain: "gain = capped_advance R (unat t') (unat adv')"
  shows "(tier_deadline R later t' adv' < tier_deadline R now t adv
      \<longleftrightarrow> unat later + budget_ns R (unat t') + own < unat now + budget_ns R (unat t) + gain)
    \<and> gain \<le> unat adv' \<and> (0 < unat t' \<longrightarrow> gain < budget_ns R (unat t') - budget_ns R (unat t' - 1))"
proof (intro conjI impI)
  have le: "own \<le> unat now" "gain \<le> unat later"
    using assms(6,7) capped_advance_le by (auto simp: own gain intro: order_trans)
  show "tier_deadline R later t' adv' < tier_deadline R now t adv
      \<longleftrightarrow> unat later + budget_ns R (unat t') + own < unat now + budget_ns R (unat t) + gain"
    using le tier_deadline_unat [OF clock_ok_budget [OF assms(2)], of t R adv] assms(4,5)
      tier_deadline_unat [OF clock_ok_budget [OF assms(3)], of t' R adv']
    by (simp add: word_less_nat_alt own gain) linarith
  show "gain \<le> unat adv'" unfolding gain by (rule capped_advance_le)
  assume t': "0 < unat t'"
  then have "unat t' = 1 \<or> unat t' = 2 \<or> unat t' = 3" using assms(5) by linarith
  then have "budget_ns R (unat t' - 1) < budget_ns R (unat t')" using assms(1) by (auto simp: budgets_increase_def)
  then show "gain < budget_ns R (unat t') - budget_ns R (unat t' - 1)" using t' by (simp add: gain capped_advance_def)
qed

theorem waiting_task_not_passed_witness:
  "tier_deadline rodata_default 66000000 0 8000000 \<ge> tier_deadline rodata_default 10000000 3 0
   \<and> tier_deadline rodata_default 60000000 0 8000000 < tier_deadline rodata_default 10000000 3 0"
  using waiting_task_not_passed [OF budgets_increase_default, of 10000000 66000000 3 0 0 8000000, OF _ _ _ _ _ _ refl refl]
    waiting_task_not_passed [OF budgets_increase_default, of 10000000 60000000 3 0 0 8000000, OF _ _ _ _ _ _ refl refl]
  by (simp add: clock_ok_def budget_ns_default capped_advance_def)

text \<open>
  Two sufficient conditions that need no exact clock values: the contract of the locale gives them for
  every key.
\<close>

theorem not_passed_after:
  assumes "budgets_increase R" "clock_ok now" "clock_ok later" "unat t < 4" "unat t' < 4"
    and "(0 < unat t' \<and> unat now + budget_ns R (unat t) \<le> unat later + budget_ns R (unat t' - 1))
         \<or> unat now + budget_ns R (unat t) + unat adv' < unat later + budget_ns R (unat t')"
  shows "tier_deadline R now t adv < tier_deadline R later t' adv'"
  using assms edf_key.no_overtaking_gap [OF edf_key_tier_deadline]
    edf_key.no_overtaking [OF edf_key_tier_deadline] by blast

text \<open>
  The deadline is exactly arrival time plus budget when no advance applies, is never later
  than that, never wraps, and lies behind the arrival time plus the next higher tier's budget for
  every tier but T0.
\<close>

theorem tier_deadline_exact:
  assumes "clock_ok now" "unat t < 4"
  shows "unat (tier_deadline R now t adv)
         = unat now + budget_ns R (unat t) - capped_advance R (unat t) (unat adv)
         \<and> unat (tier_deadline R now t 0) = unat now + budget_ns R (unat t)
         \<and> unat now + budget_ns R (unat t) < 2 ^ 64"
  using assms tier_deadline_unat [OF clock_ok_budget] clock_ok_budget [of now R "unat t"]
  by (simp add: capped_advance_def)

theorem tier_deadline_exact_witness:
  "unat (tier_deadline rodata_default 1000 2 9000000) = 1000 + 39999488 - 9000000"
  using tier_deadline_exact [of 1000 2 rodata_default 9000000]
  by (simp add: clock_ok_def budget_ns_default capped_advance_def)

end
