(* ===== verification/Task_Ctx.thy ===== *)
theory Task_Ctx
  imports Deadline
begin

text \<open>
  Creation and reset of the per-task context: \<open>alloc_task_ctx_cold\<close>, \<open>get_task_ctx\<close>,
  \<open>imperator_enable\<close> and \<open>imperator_init_task\<close> of \<open>src/src/bpf/imperator.bpf.c\<close>. The kernel's
  task storage is the map \<open>task_ctx\<close>; whether an allocation succeeds is an argument.
\<close>

section \<open>Allocation\<close>

definition init_tier_of_prio :: "u32 \<Rightarrow> u8" where
  "init_tier_of_prio prio =
     (if prio < 120 then CAKE_TIER_CRITICAL
      else if prio > 130 then CAKE_TIER_BULK
      else CAKE_TIER_INTERACT)"

definition init_avg_of_tier :: "u8 \<Rightarrow> u16" where
  "init_avg_of_tier init_tier =
     (if init_tier = CAKE_TIER_CRITICAL then TIER_GATE_T0 div 2
      else if init_tier = CAKE_TIER_INTERACT then (TIER_GATE_T0 + TIER_GATE_T1) div 2
      else if init_tier = CAKE_TIER_FRAME then (TIER_GATE_T1 + TIER_GATE_T2) div 2
      else TIER_GATE_T2 + 1)"

definition init_deficit :: "rodata \<Rightarrow> u16" where
  "init_deficit R = ucast (drop_bit 10 (quantum_ns R + new_flow_bonus_ns R))"

definition alloc_task_ctx_cold ::
    "rodata \<Rightarrow> bool \<Rightarrow> task_struct \<Rightarrow> sched \<Rightarrow> imperator_task_ctx option \<times> sched" where
  "alloc_task_ctx_cold R alloc_ok p s =
     (if \<not> alloc_ok then (None, s)
      else let init_tier = init_tier_of_prio (ts_static_prio p);
               init_avg_rt = init_avg_of_tier init_tier;
               packed = push_bit SHIFT_FLAGS
                 (push_bit 4 (ucast (init_tier AND MASK_TIER)) OR (CAKE_FLOW_NEW AND MASK_FLAGS));
               ctx = \<lparr>next_slice = quantum_ns R,
                      deficit_avg_fused = PACK_DEFICIT_AVG (init_deficit R) init_avg_rt,
                      packed_info = packed,
                      last_run_at = 0,
                      reclass_counter = 0,
                      overrun_count = 0,
                      lock_skip_count = 0,
                      pending_futex_op = CAKE_FUTEX_OP_UNSET,
                      align_pad = [0, 0, 0],
                      enqueue_time = 0,
                      jitter_ewma_us = 0,
                      burst_credit = 0,
                      sleep_entry_time = 0,
                      burst_acc_us = 0\<rparr>
           in (Some ctx, s\<lparr>task_ctx := (task_ctx s)(ts_id p \<mapsto> ctx)\<rparr>))"

definition get_task_ctx ::
    "rodata \<Rightarrow> bool \<Rightarrow> task_struct \<Rightarrow> bool \<Rightarrow> sched \<Rightarrow> imperator_task_ctx option \<times> sched" where
  "get_task_ctx R alloc_ok p create s =
     (case task_ctx s (ts_id p) of
        Some ctx \<Rightarrow> (Some ctx, s)
      | None \<Rightarrow> if \<not> create then (None, s) else alloc_task_ctx_cold R alloc_ok p s)"

definition imperator_enable :: "rodata \<Rightarrow> bool \<Rightarrow> task_struct \<Rightarrow> sched \<Rightarrow> s32 \<times> sched" where
  "imperator_enable R alloc_ok p s = (0, snd (get_task_ctx R alloc_ok p True s))"

section \<open>Exec reset and fork inheritance\<close>

definition tier_slice :: "rodata \<Rightarrow> u8 \<Rightarrow> u64" where
  \<comment> \<open>\<open>(quantum_ns * UNPACK_MULTIPLIER(tier_configs[CAKE_TIER_IDX(tier)])) >> 10\<close>\<close>
  "tier_slice R tier = drop_bit 10 (quantum_ns R * UNPACK_MULTIPLIER (tier_cfg R tier))"

definition exec_reset :: "rodata \<Rightarrow> u32 \<Rightarrow> imperator_task_ctx \<Rightarrow> imperator_task_ctx" where
  "exec_reset R prio tctx =
     (let (init_tier, init_avg_rt) =
            (if prio < 120 then (CAKE_TIER_CRITICAL, TIER_GATE_T0 div 2)
             else if prio > 130 then (CAKE_TIER_BULK, TIER_GATE_T2 + 1)
             else (CAKE_TIER_INTERACT, (TIER_GATE_T0 + TIER_GATE_T1) div 2));
          packed = packed_info tctx AND NOT (push_bit 28 0xF);
          packed = packed OR push_bit SHIFT_TIER (ucast init_tier);
          old_fused = deficit_avg_fused tctx
      in tctx\<lparr>packed_info := packed,
              deficit_avg_fused := PACK_DEFICIT_AVG (EXTRACT_DEFICIT old_fused) init_avg_rt,
              overrun_count := 0, reclass_counter := 0, lock_skip_count := 0,
              enqueue_time := 0, jitter_ewma_us := 0, burst_credit := 0,
              sleep_entry_time := 0,
              next_slice := tier_slice R init_tier\<rparr>)"

definition fork_inherit ::
    "rodata \<Rightarrow> imperator_task_ctx \<Rightarrow> imperator_task_ctx \<Rightarrow> imperator_task_ctx" where
  "fork_inherit R ptctx ctctx =
     (let pavg = EXTRACT_AVG_RT (deficit_avg_fused ptctx);
          ptier = packed_tier (packed_info ptctx);
          child_avg = drop_bit 1 pavg;
          cpacked = packed_info ctctx AND NOT (push_bit SHIFT_TIER MASK_TIER);
          cpacked = cpacked OR push_bit SHIFT_TIER (ucast ptier)
      in ctctx\<lparr>deficit_avg_fused := PACK_DEFICIT_AVG (init_deficit R) child_avg,
               packed_info := cpacked,
               next_slice := tier_slice R ptier,
               enqueue_time := 0, jitter_ewma_us := 0, burst_credit := 0,
               sleep_entry_time := 0\<rparr>)"

definition imperator_init_task ::
    "rodata \<Rightarrow> task_struct \<Rightarrow> bool \<Rightarrow> sched \<Rightarrow> s32 \<times> sched" where
  "imperator_init_task R p fork s =
     (if \<not> fork then
        (case task_ctx s (ts_id p) of
           None \<Rightarrow> (0, s)
         | Some tctx \<Rightarrow> (0, upd_ctx (ts_id p) (exec_reset R (ts_static_prio p)) s))
      else
        (case (Option.bind (ts_real_parent p) (task_ctx s), task_ctx s (ts_id p)) of
           (Some ptctx, Some ctctx) \<Rightarrow> (0, upd_ctx (ts_id p) (fork_inherit R ptctx) s)
         | _ \<Rightarrow> (0, s)))"

end
