(* ===== verification/Reclassify.thy ===== *)
theory Reclassify
  imports Task_Ctx
begin

text \<open>
  The classifier: \<open>reclassify_task_cold\<close> of \<open>src/src/bpf/imperator.bpf.c\<close>, split into the blocks of
  the source (runtime measurement, burst accumulation, graduated backoff, EWMA, deficit,
  hysteresis, hard-demote cap, overrun history, write-back). Each block is one definition and
  the handler composes them in the order of the code.
\<close>

section \<open>Gate tables\<close>

definition tier_recheck_mask :: "u16 list" where
  "tier_recheck_mask = [1023, 127, 31, 15, 15, 15, 15, 15]"

definition tier_gate_demote :: "u16 list" where
  "tier_gate_demote = [TIER_GATE_T0, TIER_GATE_T1, TIER_GATE_T2]"

definition tier_gate_promote :: "u16 list" where
  "tier_gate_promote = [TIER_GATE_T0 - TIER_GATE_T0 div 10, TIER_GATE_T1 - TIER_GATE_T1 div 10,
                        TIER_GATE_T2 - TIER_GATE_T2 div 10]"

definition tier_overrun_gate :: "u16 list" where
  "tier_overrun_gate = [TIER_GATE_T0 + TIER_GATE_T0 div 2, TIER_GATE_T1 + TIER_GATE_T1 div 2,
                        TIER_GATE_T2 + TIER_GATE_T2 div 2, 0]"

section \<open>Blocks of the classifier\<close>

definition clamp_u16 :: "u32 \<Rightarrow> u16" where
  \<comment> \<open>\<open>x > 0xFFFF ? 0xFFFF : (u16)x\<close>\<close>
  "clamp_u16 x = (if x > 0xFFFF then 0xFFFF else ucast x)"

definition bout_us_of :: "u32 \<Rightarrow> u32 \<Rightarrow> u16" where
  "bout_us_of now last_run =
     (let runtime_raw = now - last_run;
          runtime_us = drop_bit 10 runtime_raw
      in clamp_u16 runtime_us)"

definition burst_clamped :: "u16 \<Rightarrow> u16 \<Rightarrow> u16" where
  "burst_clamped burst_acc bout_us =
     (let burst_us = (ucast burst_acc :: u32) + ucast bout_us in clamp_u16 burst_us)"

definition ewma_avg :: "bool \<Rightarrow> u16 \<Rightarrow> u16 \<Rightarrow> u16" where
  "ewma_avg runnable avg_rt rt_clamped =
     (if rt_clamped < avg_rt
      then (if runnable then avg_rt else avg_rt - drop_bit 2 avg_rt + drop_bit 2 rt_clamped)
      else avg_rt - drop_bit 4 avg_rt + drop_bit 4 rt_clamped)"

definition consume_deficit :: "u16 \<Rightarrow> u16 \<Rightarrow> u16" where
  "consume_deficit deficit bout_us = (if bout_us \<ge> deficit then 0 else deficit - bout_us)"

definition hysteresis_tier :: "u8 \<Rightarrow> u16 \<Rightarrow> u8" where
  "hysteresis_tier old_tier new_avg =
     (let g0 = (if old_tier > 0 then tier_gate_promote ! 0 else tier_gate_demote ! 0);
          g1 = (if old_tier > 1 then tier_gate_promote ! 1 else tier_gate_demote ! 1);
          g2 = (if old_tier > 2 then tier_gate_promote ! 2 else tier_gate_demote ! 2)
      in if new_avg < g0 then 0 else if new_avg < g1 then 1 else if new_avg < g2 then 2 else 3)"

definition hard_demote_cap :: "u16 \<Rightarrow> u8 \<Rightarrow> u8 \<Rightarrow> u8" where
  "hard_demote_cap new_avg stab new_tier =
     (if new_avg > TIER_GATE_T2 * 3 \<and> stab \<ge> 3 \<and> new_tier < CAKE_TIER_BULK
      then CAKE_TIER_BULK else new_tier)"

definition overrun_demotion ::
    "u8 \<Rightarrow> u16 \<Rightarrow> u8 \<Rightarrow> u8 \<Rightarrow> u8 \<Rightarrow> u8 \<times> u8 \<times> u8" where
  \<comment> \<open>(new tier, new history, stability) from the old tier, the sample, the history, the
      candidate tier and the stability counter\<close>
  "overrun_demotion old_tier rt_clamped hist0 new_tier stab =
     (if old_tier < CAKE_TIER_BULK then
        (let og = tier_overrun_gate ! unat (CAKE_TIER_IDX old_tier);
             outcome = (if rt_clamped > og then 1 else 0);
             hist = push_bit 1 hist0 OR outcome
         in if popcount hist \<ge> 4 then
              (let forced = old_tier + 1
               in (if new_tier < forced then forced else new_tier, 0, 0))
            else (new_tier, hist, stab))
      else (new_tier, hist0, stab))"

definition put_tier_stable :: "u8 \<Rightarrow> u8 \<Rightarrow> u32 \<Rightarrow> u32" where
  "put_tier_stable new_stable new_tier packed =
     (packed AND NOT (push_bit 28 0xF))
     OR push_bit 28 (push_bit 2 (ucast new_stable) OR ucast new_tier)"

definition clear_stable :: "u32 \<Rightarrow> u32" where
  "clear_stable packed = packed AND NOT (push_bit SHIFT_STABLE 3)"

definition reclassify_backoff ::
    "bool \<Rightarrow> u16 \<Rightarrow> u16 \<Rightarrow> u32 \<Rightarrow> imperator_task_ctx \<Rightarrow> imperator_task_ctx" where
  \<comment> \<open>the early-return branch: \<open>stable == 3\<close> and \<open>counter & mask\<close>\<close>
  "reclassify_backoff runnable bout_us rt_clamped packed tctx =
     (let tier = packed_tier packed;
          old_fused = deficit_avg_fused tctx;
          avg_rt = EXTRACT_AVG_RT old_fused;
          new_avg = ewma_avg runnable avg_rt rt_clamped;
          deficit = consume_deficit (EXTRACT_DEFICIT old_fused) bout_us;
          new_fused = PACK_DEFICIT_AVG deficit new_avg;
          tctx = (if new_fused \<noteq> old_fused then tctx\<lparr>deficit_avg_fused := new_fused\<rparr> else tctx);
          spot_tier = hysteresis_tier tier new_avg
      in if spot_tier \<noteq> tier
         then tctx\<lparr>packed_info := clear_stable packed, reclass_counter := 0\<rparr>
         else tctx)"

definition reclassify_full ::
    "rodata \<Rightarrow> bool \<Rightarrow> u16 \<Rightarrow> u16 \<Rightarrow> u32 \<Rightarrow> imperator_task_ctx \<Rightarrow> imperator_task_ctx" where
  "reclassify_full R runnable bout_us rt_clamped packed tctx =
     (let stab = packed_stable packed;
          old_fused = deficit_avg_fused tctx;
          avg_rt = EXTRACT_AVG_RT old_fused;
          new_avg = ewma_avg runnable avg_rt rt_clamped;
          deficit = consume_deficit (EXTRACT_DEFICIT old_fused) bout_us;
          deficit_exhausted = (deficit = 0 \<and> has_flag CAKE_FLOW_NEW packed);
          new_fused = PACK_DEFICIT_AVG deficit new_avg;
          tctx = (if new_fused \<noteq> old_fused then tctx\<lparr>deficit_avg_fused := new_fused\<rparr> else tctx);
          old_tier = packed_tier packed;
          new_tier = hysteresis_tier old_tier new_avg;
          new_tier = hard_demote_cap new_avg stab new_tier;
          (new_tier, hist, stab) =
            overrun_demotion old_tier rt_clamped (overrun_count tctx) new_tier stab;
          tctx = tctx\<lparr>overrun_count := hist\<rparr>;
          tier_changed = (new_tier \<noteq> old_tier);
          new_stable = (if tier_changed then 0 else if stab < 3 then stab + 1 else 3);
          tctx = (if tier_changed \<or> deficit_exhausted \<or> new_stable \<noteq> stab
                  then (let new_packed = put_tier_stable new_stable new_tier packed;
                            new_packed = (if deficit_exhausted
                                          then clear_flag CAKE_FLOW_NEW new_packed else new_packed)
                        in tctx\<lparr>packed_info := new_packed\<rparr>)
                  else tctx);
          tctx = tctx\<lparr>next_slice := tier_slice R new_tier\<rparr>
      in if tier_changed then tctx\<lparr>reclass_counter := 0, burst_credit := 0\<rparr> else tctx)"

definition reclassify_task_cold ::
    "rodata \<Rightarrow> u64 \<Rightarrow> bool \<Rightarrow> imperator_task_ctx \<Rightarrow> imperator_task_ctx" where
  "reclassify_task_cold R scx_now runnable tctx =
     (let packed = packed_info tctx;
          now = (ucast scx_now :: u32);
          last_run = last_run_at tctx
      in if last_run = 0 then tctx
         else
           (let bout_us = bout_us_of now last_run;
                rt_clamped = burst_clamped (burst_acc_us tctx) bout_us;
                tctx = tctx\<lparr>burst_acc_us := (if runnable then rt_clamped else 0)\<rparr>;
                stab = packed_stable packed
            in if stab = 3 then
                 (let tier = packed_tier packed;
                      recheck = tier_recheck_mask ! unat (CAKE_TIER_IDX tier);
                      counter = reclass_counter tctx + 1;
                      tctx = tctx\<lparr>reclass_counter := counter\<rparr>
                  in if counter AND recheck \<noteq> 0
                     then reclassify_backoff runnable bout_us rt_clamped packed tctx
                     else reclassify_full R runnable bout_us rt_clamped packed tctx)
               else reclassify_full R runnable bout_us rt_clamped packed tctx))"

section \<open>Arithmetic of the blocks\<close>

lemma unat_clamp_u16: "unat (clamp_u16 x) = min 65535 (unat x)"
proof (cases "x > 0xFFFF")
  case True
  then show ?thesis by (simp add: clamp_u16_def word_less_nat_alt)
next
  case False
  then show ?thesis
    by (simp add: clamp_u16_def word_less_nat_alt unat_ucast_id)
qed

lemma unat_burst_clamped: "unat (burst_clamped a b) = min 65535 (unat a + unat b)"
proof -
  have "unat a < 65536" "unat b < 65536"
    using unsigned_less [of a, where 'a = nat] unsigned_less [of b, where 'a = nat] by simp_all
  then show ?thesis
    by (simp add: burst_clamped_def unat_clamp_u16 unat_word_ariths unat_ucast_id)
qed

lemma unat_consume_deficit: "unat (consume_deficit d b) = unat d - unat b"
  by (simp add: consume_deficit_def word_le_nat_alt unat_sub_if')

fun ewma_nat :: "bool \<Rightarrow> nat \<Rightarrow> nat \<Rightarrow> nat" where
  \<comment> \<open>the average over natural numbers\<close>
  "ewma_nat runnable a r =
     (if r < a then (if runnable then a else a - a div 4 + r div 4) else a - a div 16 + r div 16)"

lemma ewma_nat_bounds: "min a r \<le> ewma_nat run a r" "ewma_nat run a r \<le> max a r"
proof -
  have "a div 4 - r div 4 \<le> a - r" "r div 4 \<le> a div 4" if "r < a"
    using that by (simp_all add: div_le_mono)
  moreover have "r div 16 - a div 16 \<le> r - a" "a div 16 \<le> r div 16" if "a \<le> r"
    using that by (simp_all add: div_le_mono)
  ultimately show "min a r \<le> ewma_nat run a r" "ewma_nat run a r \<le> max a r"
    by (auto simp: min_def max_def)
qed

declare ewma_nat.simps [simp del]

lemma unat_ewma_avg: "unat (ewma_avg run a r) = ewma_nat run (unat a) (unat r)"
proof -
  have bnd: "unat a < 65536" "unat r < 65536"
    using unsigned_less [of a, where 'a = nat] unsigned_less [of r, where 'a = nat] by simp_all
  have sub: "unat (a - drop_bit n a) = unat a - unat a div 2 ^ n" for n
    by (subst unat_sub) (simp_all only: word_le_nat_alt unat_drop_bit, simp)
  have "unat (a - drop_bit n a + drop_bit n r) = unat a - unat a div 2 ^ n + unat r div 2 ^ n"
    if "unat a - unat a div 2 ^ n + unat r div 2 ^ n < 65536" for n
    using that by (simp only: unat_word_ariths(1) sub unat_drop_bit) simp
  from this [of 2] this [of 4] ewma_nat_bounds(2) [of False "unat a" "unat r"] bnd
  show ?thesis
    by (auto simp: ewma_avg_def ewma_nat.simps word_less_nat_alt split: if_splits)
qed

lemma ewma_runnable_ge: "unat a \<le> unat (ewma_avg True a r)"
  using ewma_nat_bounds(1) [of "unat a" "unat r" True]
  by (cases "unat r < unat a") (simp_all add: unat_ewma_avg ewma_nat.simps)

section \<open>Tier classification\<close>

fun gate_tier :: "nat \<Rightarrow> nat \<Rightarrow> nat \<Rightarrow> nat \<Rightarrow> imperator_tier" where
  \<comment> \<open>the tier three gates select\<close>
  "gate_tier g0 g1 g2 a =
     (if a < g0 then TIER_CRITICAL else if a < g1 then TIER_INTERACT
      else if a < g2 then TIER_FRAME else TIER_BULK)"

definition demote_tier :: "nat \<Rightarrow> imperator_tier" where
  "demote_tier = gate_tier 100 2000 8000"

definition promote_tier :: "nat \<Rightarrow> imperator_tier" where
  \<comment> \<open>gates lowered by 10\%: what an average must reach to earn a promotion\<close>
  "promote_tier = gate_tier 90 1800 7200"

definition classify :: "imperator_tier \<Rightarrow> nat \<Rightarrow> imperator_tier" where
  "classify old a = max (demote_tier a) (min old (promote_tier a))"

lemmas tier_order_defs =
  less_eq_imperator_tier_def less_imperator_tier_def word_le_nat_alt word_less_nat_alt

lemma hysteresis_tier_unfold:
  "hysteresis_tier t a =
     (if unat a < (if t > 0 then 90 else 100) then 0
      else if unat a < (if t > 1 then 1800 else 2000) then 1
      else if unat a < (if t > 2 then 7200 else 8000) then 2 else 3)"
  by (simp add: hysteresis_tier_def tier_gate_promote_def tier_gate_demote_def word_less_nat_alt)

lemma hysteresis_tier_less: "unat (hysteresis_tier t a) < 4"
  by (simp add: hysteresis_tier_unfold)

lemma hysteresis_tier_classify: "hysteresis_tier (tier_code t) a = tier_code (classify t (unat a))"
  by (cases t)
     (auto simp: hysteresis_tier_unfold classify_def demote_tier_def promote_tier_def
        max_def min_def tier_order_defs)

lemma classify_mono: "a \<le> b \<Longrightarrow> classify t a \<le> classify t b"
  by (cases t) (auto simp: classify_def demote_tier_def promote_tier_def max_def min_def
      tier_order_defs)

lemma classify_stable: "classify (classify t a) a = classify t a"
  by (cases t) (auto simp: classify_def demote_tier_def promote_tier_def max_def min_def
      tier_order_defs)

lemma tier_code_of: "unat t < 4 \<Longrightarrow> tier_code (tier_of t) = t"
  by (erule u8_less_4_cases) (simp_all add: tier_of_def)

lemma tier_code_less: "unat (tier_code t) < 4"
  by (cases t) simp_all

lemma hysteresis_tier_of:
  "unat t < 4 \<Longrightarrow> hysteresis_tier t a = tier_code (classify (tier_of t) (unat a))"
  by (metis hysteresis_tier_classify tier_code_of)

lemma hysteresis_tier_mono:
  assumes "unat t < 4" "unat a \<le> unat b"
  shows "hysteresis_tier t a \<le> hysteresis_tier t b"
  using classify_mono [OF assms(2)] assms(1)
  by (simp add: hysteresis_tier_of tier_order_defs)

text \<open>An average above the cap's threshold already classifies as bulk.\<close>

lemma hard_demote_cap_id: "hard_demote_cap a st (hysteresis_tier t a) = hysteresis_tier t a"
  by (simp add: hard_demote_cap_def hysteresis_tier_unfold word_less_nat_alt)

section \<open>Overrun history\<close>

definition hist_list :: "u8 \<Rightarrow> bool list" where
  \<comment> \<open>the recorded outcomes, newest first\<close>
  "hist_list h = map (bit h) [0..<8]"

definition shift_hist :: "u8 \<Rightarrow> bool \<Rightarrow> u8" where
  "shift_hist h b = push_bit 1 h OR (if b then 1 else 0)"

lemma popcount_hist: "popcount h = length (filter id (hist_list h))"
  by (simp add: popcount_def hist_list_def filter_map comp_def)

lemma bit_shift_hist: "bit (shift_hist h b) n \<longleftrightarrow> (if n = 0 then b else n < 8 \<and> bit h (n - 1))"
  unfolding shift_hist_def bit_or_iff bit_push_bit_iff by (cases n) (auto simp: bit_1_iff)

lemma hist_list_shift: "hist_list (shift_hist h b) = b # butlast (hist_list h)"
proof -
  have "[0..<8] = [0, 1, 2, 3, 4, 5, 6, 7::nat]" by (simp add: upt_rec)
  then show ?thesis by (simp add: hist_list_def bit_shift_hist)
qed

definition overrun :: "u8 \<Rightarrow> u16 \<Rightarrow> bool" where
  "overrun old_tier rt \<longleftrightarrow> rt > tier_overrun_gate ! unat (CAKE_TIER_IDX old_tier)"

definition overrun_fires :: "u8 \<Rightarrow> u16 \<Rightarrow> u8 \<Rightarrow> bool" where
  \<comment> \<open>abstract trigger: at least four of this sample and the last seven recorded ones\<close>
  "overrun_fires old_tier rt h \<longleftrightarrow>
     old_tier < CAKE_TIER_BULK
     \<and> length (filter id (overrun old_tier rt # butlast (hist_list h))) \<ge> 4"

lemma overrun_demotion_eq:
  "overrun_demotion t rt h nt st =
     (if overrun_fires t rt h then (max nt (t + 1), 0, 0)
      else if t < CAKE_TIER_BULK then (nt, shift_hist h (overrun t rt), st)
      else (nt, h, st))"
proof -
  have "push_bit 1 h OR (if rt > tier_overrun_gate ! unat (CAKE_TIER_IDX t) then 1 else 0)
        = shift_hist h (overrun t rt)"
    by (simp only: shift_hist_def overrun_def)
  then show ?thesis
    unfolding overrun_demotion_def Let_def
    by (simp only: popcount_hist hist_list_shift overrun_fires_def max_def)
       (cases "t < 3"; cases "nt < t + 1"; auto dest: leD)
qed

section \<open>Writing tier and stability\<close>

lemma u8_bit_less_4: "bit (x :: u8) k \<Longrightarrow> unat x < 4 \<Longrightarrow> k < 2"
proof (rule ccontr)
  assume "bit x k" "unat x < 4" "\<not> k < 2"
  then have "take_bit 2 x = x"
    by (simp add: word_unat_eq_iff unsigned_take_bit_eq take_bit_nat_eq_self)
  with \<open>bit x k\<close> \<open>\<not> k < 2\<close> show False by (metis bit_take_bit_iff)
qed

lemma bit_put_tier_stable:
  assumes "unat st < 4" "unat t < 4"
  shows "bit (put_tier_stable st t p) n \<longleftrightarrow>
    (if n < 28 then bit p n else if n < 30 then bit t (n - 28) else n < 32 \<and> bit st (n - 30))"
proof -
  have m: "bit (push_bit 28 0xF :: u32) n \<longleftrightarrow> 28 \<le> n \<and> n < 32"
  proof -
    have "(0xF :: u32) = mask 4" by (simp add: mask_eq_exp_minus_1)
    then show ?thesis by (auto simp only: bit_simps) auto
  qed
  show ?thesis
    using u8_bit_less_4 [of t "n - 28"] u8_bit_less_4 [of st "n - 30"] assms bit_imp_le_length [of p n] m
    unfolding put_tier_stable_def
    by (auto simp: bit_or_iff bit_and_iff bit_not_iff bit_push_bit_iff bit_unsigned_iff
        simp del: push_bit_numeral)
qed

lemma bit_clear_stable: "bit (clear_stable p) n \<longleftrightarrow> n < 30 \<and> bit p n"
proof -
  have "(3 :: u32) = mask 2" by (simp add: mask_eq_exp_minus_1)
  then have "bit (push_bit 30 3 :: u32) n \<longleftrightarrow> 30 \<le> n \<and> n < 32"
    by (simp only: bit_simps) auto
  then show ?thesis
    using bit_imp_le_length [of p n]
    unfolding clear_stable_def by (auto simp only: bit_and_iff bit_not_iff) auto
qed

lemma packed_tier_put: "unat st < 4 \<Longrightarrow> unat t < 4 \<Longrightarrow> packed_tier (put_tier_stable st t p) = t"
  using u8_bit_less_4 [of t] by (intro bit_word_eqI) (auto simp: bit_packed_tier bit_put_tier_stable)

lemma packed_stable_put: "unat st < 4 \<Longrightarrow> unat t < 4 \<Longrightarrow> packed_stable (put_tier_stable st t p) = st"
  using u8_bit_less_4 [of st] by (intro bit_word_eqI) (auto simp: bit_packed_stable bit_put_tier_stable)

lemma put_tier_stable_id: "put_tier_stable (packed_stable p) (packed_tier p) p = p"
  by (rule bit_word_eqI)
     (auto simp: bit_put_tier_stable unat_packed_tier unat_packed_stable bit_packed_tier bit_packed_stable)

lemma put_low_bits:
  "unat st < 4 \<Longrightarrow> unat t < 4 \<Longrightarrow> n < 28 \<Longrightarrow> bit (put_tier_stable st t p) n = bit p n"
  by (simp add: bit_put_tier_stable)

lemma rsvd_zero_put [wf_intros]:
  "unat st < 4 \<Longrightarrow> unat t < 4 \<Longrightarrow> rsvd_zero p \<Longrightarrow> rsvd_zero (put_tier_stable st t p)"
  by (simp add: rsvd_zero_bits put_low_bits)

section \<open>The full pass and the handler as equations\<close>

definition chosen :: "bool \<Rightarrow> u16 \<Rightarrow> imperator_task_ctx \<Rightarrow> u8 \<times> u8 \<times> u8" where
  \<comment> \<open>tier, history and stability base a full pass selects\<close>
  "chosen runnable rt c =
     overrun_demotion (ctx_tier c) rt (overrun_count c)
       (hysteresis_tier (ctx_tier c) (ewma_avg runnable (avg_runtime_us c) rt))
       (packed_stable (packed_info c))"

definition next_stable :: "u8 \<Rightarrow> u8 \<Rightarrow> u8 \<Rightarrow> u8" where
  "next_stable old_tier new_tier st = (if new_tier \<noteq> old_tier then 0 else if st < 3 then st + 1 else 3)"

lemma unat_ctx_tier: "unat (ctx_tier c) < 4"
  by (simp add: ctx_tier_def unat_packed_tier)

lemma chosen_bounds:
  assumes "chosen run rt c = (nt, hist, st)"
  shows "unat nt < 4" "unat st < 4"
proof -
  have "unat (max nt0 (ctx_tier c + 1)) < 4" if "unat nt0 < 4" "ctx_tier c < 3" for nt0
  proof -
    have "unat (ctx_tier c + 1) < 4"
      using that(2) by (simp add: word_less_nat_alt unat_word_ariths)
    then show ?thesis using that(1) by (simp add: max_def)
  qed
  with assms show "unat nt < 4" "unat st < 4"
    by (auto simp: chosen_def overrun_demotion_eq overrun_fires_def hysteresis_tier_less
        unat_packed_stable split: if_splits)
qed

lemma unat_next_stable: "unat st < 4 \<Longrightarrow> unat (next_stable ot nt st) < 4"
  by (erule u8_less_4_cases) (simp_all add: next_stable_def)

text \<open>The ``store only if changed'' idiom is a plain store.\<close>

lemma store_if_changed [simp]:
  "(if v \<noteq> deficit_avg_fused c then c\<lparr>deficit_avg_fused := v\<rparr> else c) = c\<lparr>deficit_avg_fused := v\<rparr>"
  by (cases c) simp

lemma chosen_unchanged:
  assumes "chosen run rt c = (nt, hist, st)" "nt = ctx_tier c"
  shows "st = packed_stable (packed_info c)"
proof -
  have "\<not> ctx_tier c + 1 \<le> ctx_tier c" if "ctx_tier c < 3"
    using that by (simp add: word_less_nat_alt word_le_nat_alt unat_word_ariths)
  with assms show ?thesis
    by (auto simp: chosen_def overrun_demotion_eq overrun_fires_def max_def split: if_splits)
qed

lemma reclassify_full_eq:
  assumes c: "chosen run rt c = (nt, hist, st)"
  shows "reclassify_full R run bout rt (packed_info c) c =
    (let ns = next_stable (ctx_tier c) nt st;
         d = consume_deficit (deficit_us c) bout;
         q = put_tier_stable ns nt (packed_info c)
     in c\<lparr>next_slice := tier_slice R nt,
          deficit_avg_fused := PACK_DEFICIT_AVG d (ewma_avg run (avg_runtime_us c) rt),
          packed_info := (if d = 0 \<and> has_flag CAKE_FLOW_NEW (packed_info c)
                          then clear_flag CAKE_FLOW_NEW q else q),
          reclass_counter := (if nt \<noteq> ctx_tier c then 0 else reclass_counter c),
          overrun_count := hist,
          burst_credit := (if nt \<noteq> ctx_tier c then 0 else burst_credit c)\<rparr>)"
proof -
  note c' = c [unfolded chosen_def ctx_tier_def avg_runtime_us_def]
  have "put_tier_stable st nt (packed_info c) = packed_info c" if "nt = ctx_tier c"
    using chosen_unchanged [OF c that] that by (simp add: ctx_tier_def put_tier_stable_id)
  then show ?thesis
    unfolding reclassify_full_def Let_def store_if_changed
    by (simp add: c' hard_demote_cap_id ctx_tier_def avg_runtime_us_def deficit_us_def next_stable_def)
       (auto intro!: imperator_task_ctx.equality)
qed

text \<open>What every path of the classifier does to the fused word and to the burst accumulator.\<close>

definition bout_of :: "u64 \<Rightarrow> imperator_task_ctx \<Rightarrow> u16" where
  "bout_of now c = bout_us_of (ucast now) (last_run_at c)"

definition sample_of :: "u64 \<Rightarrow> imperator_task_ctx \<Rightarrow> u16" where
  \<comment> \<open>the burst since the task last slept, this bout included\<close>
  "sample_of now c = burst_clamped (burst_acc_us c) (bout_of now c)"

definition takes_backoff :: "imperator_task_ctx \<Rightarrow> bool" where
  "takes_backoff c \<longleftrightarrow> packed_stable (packed_info c) = 3
     \<and> (reclass_counter c + 1) AND (tier_recheck_mask ! unat (CAKE_TIER_IDX (ctx_tier c))) \<noteq> 0"

definition pre_ctx :: "u64 \<Rightarrow> bool \<Rightarrow> imperator_task_ctx \<Rightarrow> imperator_task_ctx" where
  \<comment> \<open>the context as the classification paths see it\<close>
  "pre_ctx now run c =
     (let c1 = c\<lparr>burst_acc_us := (if run then sample_of now c else 0)\<rparr>
      in if packed_stable (packed_info c) = 3 then c1\<lparr>reclass_counter := reclass_counter c + 1\<rparr> else c1)"

lemma reclassify_cases:
  assumes "last_run_at c \<noteq> 0"
  shows "reclassify_task_cold R now run c =
    (if takes_backoff c
     then reclassify_backoff run (bout_of now c) (sample_of now c) (packed_info c) (pre_ctx now run c)
     else reclassify_full R run (bout_of now c) (sample_of now c) (packed_info c) (pre_ctx now run c))"
  using assms
  by (simp add: reclassify_task_cold_def Let_def takes_backoff_def pre_ctx_def bout_of_def
      sample_of_def ctx_tier_def)

lemma pre_ctx_sel [simp]:
  "deficit_avg_fused (pre_ctx now run c) = deficit_avg_fused c"
  "packed_info (pre_ctx now run c) = packed_info c"
  "overrun_count (pre_ctx now run c) = overrun_count c"
  "next_slice (pre_ctx now run c) = next_slice c"
  "last_run_at (pre_ctx now run c) = last_run_at c"
  "burst_credit (pre_ctx now run c) = burst_credit c"
  "lock_skip_count (pre_ctx now run c) = lock_skip_count c"
  "pending_futex_op (pre_ctx now run c) = pending_futex_op c"
  "align_pad (pre_ctx now run c) = align_pad c"
  "enqueue_time (pre_ctx now run c) = enqueue_time c"
  "jitter_ewma_us (pre_ctx now run c) = jitter_ewma_us c"
  "sleep_entry_time (pre_ctx now run c) = sleep_entry_time c"
  "burst_acc_us (pre_ctx now run c) = (if run then sample_of now c else 0)"
  by (simp_all add: pre_ctx_def Let_def)

lemma pre_ctx_derived [simp]:
  "avg_runtime_us (pre_ctx now run c) = avg_runtime_us c"
  "deficit_us (pre_ctx now run c) = deficit_us c"
  "ctx_tier (pre_ctx now run c) = ctx_tier c"
  "chosen run rt (pre_ctx now run c) = chosen run rt c"
  by (simp_all add: avg_runtime_us_def deficit_us_def ctx_tier_def chosen_def)

lemma reclassify_backoff_sel [simp]:
  "deficit_avg_fused (reclassify_backoff run bout rt (packed_info c) c) =
     PACK_DEFICIT_AVG (consume_deficit (deficit_us c) bout) (ewma_avg run (avg_runtime_us c) rt)"
  "ctx_tier (reclassify_backoff run bout rt (packed_info c) c) = ctx_tier c"
  "next_slice (reclassify_backoff run bout rt (packed_info c) c) = next_slice c"
  "burst_acc_us (reclassify_backoff run bout rt (packed_info c) c) = burst_acc_us c"
  "overrun_count (reclassify_backoff run bout rt (packed_info c) c) = overrun_count c"
  "burst_credit (reclassify_backoff run bout rt (packed_info c) c) = burst_credit c"
proof -
  have "packed_tier (clear_stable (packed_info c)) = packed_tier (packed_info c)"
    by (rule bit_word_eqI) (auto simp: bit_packed_tier bit_clear_stable)
  then show "ctx_tier (reclassify_backoff run bout rt (packed_info c) c) = ctx_tier c"
    by (simp add: reclassify_backoff_def Let_def ctx_tier_def)
qed (simp_all add: reclassify_backoff_def Let_def deficit_us_def avg_runtime_us_def)

lemma reclassify_fused:
  assumes "last_run_at c \<noteq> 0"
  shows "deficit_avg_fused (reclassify_task_cold R now run c) =
    PACK_DEFICIT_AVG (consume_deficit (deficit_us c) (bout_of now c))
      (ewma_avg run (avg_runtime_us c) (sample_of now c))"
proof -
  obtain nt hist st where "chosen run (sample_of now c) (pre_ctx now run c) = (nt, hist, st)"
    by (metis prod.exhaust)
  note full = reclassify_full_eq [OF this, of R "bout_of now c"]
  show ?thesis
    using reclassify_backoff_sel(1) [of run "bout_of now c" "sample_of now c" "pre_ctx now run c"] full
    by (simp add: reclassify_cases [OF assms] Let_def)
qed

section \<open>Recheck schedule\<close>

fun recheck_period :: "imperator_tier \<Rightarrow> nat" where
  \<comment> \<open>how many stable stops make up one period with exactly one full pass\<close>
  "recheck_period TIER_CRITICAL = 1024"
| "recheck_period TIER_INTERACT = 128"
| "recheck_period TIER_FRAME = 32"
| "recheck_period TIER_BULK = 16"

lemma and_mask_dvd:
  fixes x :: u16
  assumes "k \<le> 16"
  shows "(x + 1) AND mask k = 0 \<longleftrightarrow> 2 ^ k dvd unat x + 1"
proof -
  have "(2::nat) ^ k dvd 2 ^ 16" using assms by (rule le_imp_power_dvd)
  then have "(unat x + 1) mod 2 ^ 16 mod 2 ^ k = (unat x + 1) mod 2 ^ k"
    by (rule mod_mod_cancel)
  moreover have "unat ((x + 1) AND mask k) = (unat x + 1) mod 2 ^ 16 mod 2 ^ k"
    by (simp only: unat_and_mask) (simp add: unat_word_ariths)
  ultimately show ?thesis
    by (simp only: word_unat_eq_iff unat_0 dvd_eq_mod_eq_0)
qed

lemma recheck_and:
  "(x + 1) AND (tier_recheck_mask ! unat (CAKE_TIER_IDX (tier_code t))) = 0
   \<longleftrightarrow> recheck_period t dvd unat (x :: u16) + 1"
  using and_mask_dvd [of 10 x] and_mask_dvd [of 7 x] and_mask_dvd [of 5 x] and_mask_dvd [of 4 x]
  by (cases t) (simp_all add: tier_recheck_mask_def CAKE_TIER_IDX_def mask_eq_exp_minus_1)

lemma takes_backoff_iff:
  "takes_backoff c \<longleftrightarrow> packed_stable (packed_info c) = 3
     \<and> \<not> recheck_period (tier_of (ctx_tier c)) dvd unat (reclass_counter c) + 1"
  using recheck_and [of "reclass_counter c" "tier_of (ctx_tier c)"]
  by (simp add: takes_backoff_def tier_code_of unat_ctx_tier)

section \<open>Iterated averages\<close>

lemma ewma_step_down:
  "r \<le> a \<Longrightarrow> r \<le> ewma_nat False a r \<and> 4 * (int (ewma_nat False a r) - int r - 3) \<le> 3 * (int a - int r - 3)"
proof -
  assume "r \<le> a"
  have "a = 4 * (a div 4) + a mod 4" "r = 4 * (r div 4) + r mod 4" "a mod 4 < 4" "r mod 4 < 4"
    by simp_all
  moreover have "a = 16 * (a div 16) + a mod 16" by simp
  ultimately show ?thesis using \<open>r \<le> a\<close> by (auto simp: ewma_nat.simps not_less)
qed

lemma ewma_step_up:
  "a \<le> r \<Longrightarrow> ewma_nat False a r \<le> r \<and> 16 * (int r - int (ewma_nat False a r) - 15) \<le> 15 * (int r - int a - 15)"
proof -
  assume "a \<le> r"
  have "a = 16 * (a div 16) + a mod 16" "r = 16 * (r div 16) + r mod 16" "a mod 16 < 16" "r mod 16 < 16"
    by simp_all
  moreover have "a div 16 \<le> r div 16" using \<open>a \<le> r\<close> by (rule div_le_mono)
  ultimately show ?thesis using \<open>a \<le> r\<close> by (auto simp: ewma_nat.simps not_less)
qed

lemma ewma_iter_down:
  assumes "r \<le> a"
  shows "r \<le> ((\<lambda>a. ewma_nat False a r) ^^ n) a
    \<and> 4 ^ n * (int (((\<lambda>a. ewma_nat False a r) ^^ n) a) - int r - 3) \<le> 3 ^ n * (int a - int r - 3)"
proof (induction n)
  case 0
  then show ?case using assms by simp
next
  case (Suc n)
  let ?x = "((\<lambda>a. ewma_nat False a r) ^^ n) a"
  from Suc have "r \<le> ?x" and ih: "4 ^ n * (int ?x - int r - 3) \<le> 3 ^ n * (int a - int r - 3)"
    by simp_all
  from ewma_step_down [OF \<open>r \<le> ?x\<close>]
  have 1: "r \<le> ewma_nat False ?x r" and 2: "4 * (int (ewma_nat False ?x r) - int r - 3) \<le> 3 * (int ?x - int r - 3)"
    by simp_all
  have "4 ^ n * (4 * (int (ewma_nat False ?x r) - int r - 3)) \<le> 4 ^ n * (3 * (int ?x - int r - 3))"
    using 2 by (intro mult_left_mono) simp_all
  also have "\<dots> = 3 * (4 ^ n * (int ?x - int r - 3))" by (rule mult.left_commute)
  also have "\<dots> \<le> 3 * (3 ^ n * (int a - int r - 3))" by (rule mult_left_mono [OF ih]) simp
  finally have 3: "4 ^ Suc n * (int (ewma_nat False ?x r) - int r - 3) \<le> 3 ^ Suc n * (int a - int r - 3)"
    by (simp only: power_Suc2 [of "4 :: int"] power_Suc [of "3 :: int"] mult.assoc)
  show ?case using 1 3 unfolding funpow.simps comp_apply by blast
qed

lemma ewma_iter_up:
  assumes "a \<le> r"
  shows "((\<lambda>a. ewma_nat False a r) ^^ n) a \<le> r
    \<and> 16 ^ n * (int r - int (((\<lambda>a. ewma_nat False a r) ^^ n) a) - 15) \<le> 15 ^ n * (int r - int a - 15)"
proof (induction n)
  case 0
  then show ?case using assms by simp
next
  case (Suc n)
  let ?x = "((\<lambda>a. ewma_nat False a r) ^^ n) a"
  from Suc have "?x \<le> r" and ih: "16 ^ n * (int r - int ?x - 15) \<le> 15 ^ n * (int r - int a - 15)"
    by simp_all
  from ewma_step_up [OF \<open>?x \<le> r\<close>]
  have 1: "ewma_nat False ?x r \<le> r" and 2: "16 * (int r - int (ewma_nat False ?x r) - 15) \<le> 15 * (int r - int ?x - 15)"
    by simp_all
  have "16 ^ n * (16 * (int r - int (ewma_nat False ?x r) - 15)) \<le> 16 ^ n * (15 * (int r - int ?x - 15))"
    using 2 by (intro mult_left_mono) simp_all
  also have "\<dots> = 15 * (16 ^ n * (int r - int ?x - 15))" by (rule mult.left_commute)
  also have "\<dots> \<le> 15 * (15 ^ n * (int r - int a - 15))" by (rule mult_left_mono [OF ih]) simp
  finally have 3: "16 ^ Suc n * (int r - int (ewma_nat False ?x r) - 15) \<le> 15 ^ Suc n * (int r - int a - 15)"
    by (simp only: power_Suc2 [of "16 :: int"] power_Suc [of "15 :: int"] mult.assoc)
  show ?case using 1 3 unfolding funpow.simps comp_apply by blast
qed

lemma ratio_power:
  fixes p q m x :: int
  assumes pq: "0 < q" "q \<le> p" and k: "q ^ k * m < p ^ k" "k \<le> n" and m: "0 \<le> m"
    and x: "p ^ n * x \<le> q ^ n * m"
  shows "x \<le> 0"
proof -
  have n: "n = (n - k) + k" using k by simp
  have "q ^ n * m = q ^ (n - k) * (q ^ k * m)" by (subst n) (simp add: power_add mult.assoc)
  also have "\<dots> \<le> p ^ (n - k) * (q ^ k * m)"
    using pq m by (intro mult_right_mono power_mono) simp_all
  also have "\<dots> < p ^ (n - k) * p ^ k"
    using pq k by (intro mult_strict_left_mono) simp_all
  also have "\<dots> = p ^ n * 1" by (metis mult.right_neutral n power_add)
  finally have "p ^ n * x < p ^ n * 1" using x by linarith
  then have "x < 1" using pq by (simp add: mult_less_cancel_left)
  then show ?thesis by simp
qed

lemma ewma_converges:
  assumes "a \<le> 65535" "r \<le> 65535" and n: "172 \<le> n"
  shows "\<bar>int (((\<lambda>a. ewma_nat False a r) ^^ n) a) - int r\<bar> \<le> 15"
proof (cases "r \<le> a")
  case True
  let ?x = "((\<lambda>a. ewma_nat False a r) ^^ n) a"
  have lo: "r \<le> ?x" using ewma_iter_down [OF True, of n] by blast
  have "4 ^ n * (int ?x - int r - 3) \<le> 3 ^ n * (int a - int r - 3)"
    using ewma_iter_down [OF True, of n] by blast
  also have "3 ^ n * (int a - int r - 3) \<le> 3 ^ n * (65535 :: int)"
    using assms by (intro mult_left_mono) simp_all
  finally have "int ?x - int r - 3 \<le> 0"
    using n by (intro ratio_power [of 3 4 40 65535 n]) simp_all
  with lo show ?thesis by simp
next
  case False
  let ?x = "((\<lambda>a. ewma_nat False a r) ^^ n) a"
  have hi: "?x \<le> r" using ewma_iter_up [of a r n] False by simp
  have "16 ^ n * (int r - int ?x - 15) \<le> 15 ^ n * (int r - int a - 15)"
    using ewma_iter_up [of a r n] False by simp
  also have "15 ^ n * (int r - int a - 15) \<le> 15 ^ n * (65520 :: int)"
    using assms by (intro mult_left_mono) simp_all
  finally have "int r - int ?x - 15 \<le> 0"
    using n by (intro ratio_power [of 15 16 172 65520 n]) simp_all
  with hi show ?thesis by simp
qed

end
