(* ===== verification/Classification.thy ===== *)
theory Classification
  imports Reclassify
begin

text \<open>
  What \<open>reclassify_task_cold\<close> guarantees on every stop: the average is a bounded EWMA of bursts
  on both of its paths, the tier of a full pass is the hysteresis classification of that average
  raised by at most one tier by the overrun history, the backoff path only decides when the next
  full pass happens, and steady bursts converge.
\<close>

section \<open>The two paths, field by field\<close>

fun next_tier :: "imperator_tier \<Rightarrow> imperator_tier" where
  "next_tier TIER_CRITICAL = TIER_INTERACT"
| "next_tier TIER_INTERACT = TIER_FRAME"
| "next_tier _ = TIER_BULK"

lemma tier_of_succ: "unat t < 4 \<Longrightarrow> t < 3 \<Longrightarrow> tier_of (t + 1) = next_tier (tier_of t)"
  by (erule u8_less_4_cases) (simp_all add: tier_of_def)

lemma tier_of_max: "unat a < 4 \<Longrightarrow> unat b < 4 \<Longrightarrow> tier_of (max a b) = max (tier_of a) (tier_of b)"
  by (auto simp: max_def tier_order_defs tier_code_of)

lemma reclassify_full_pass:
  fixes R :: rodata and now :: u64 and runnable :: bool and c :: imperator_task_ctx and n :: nat
  assumes run: "last_run_at c \<noteq> 0" and full: "\<not> takes_backoff c"
    and ch: "chosen runnable (sample_of now c) c = (nt, hist, st)"
    and c'_def: "c' = reclassify_task_cold R now runnable c"
  shows "ctx_tier c' = nt" "packed_stable (packed_info c') = next_stable (ctx_tier c) nt st"
    "next_slice c' = tier_slice R nt" "overrun_count c' = hist"
    "burst_credit c' = (if nt \<noteq> ctx_tier c then 0 else burst_credit c)"
    "n < 28 \<Longrightarrow> bit (packed_info c') n \<longleftrightarrow> bit (packed_info c) n \<and>
       \<not> (n = 24 \<and> deficit_us c' = 0)"
proof -
  note b = chosen_bounds [OF ch]
  note ns = unat_next_stable [OF b(2), of "ctx_tier c" nt]
  have ch': "chosen runnable (sample_of now c) (pre_ctx now runnable c) = (nt, hist, st)"
    by (simp add: ch)
  note eq = reclassify_full_eq [OF ch', of R "bout_of now c"]
  have c': "c' = reclassify_full R runnable (bout_of now c) (sample_of now c) (packed_info c)
                   (pre_ctx now runnable c)"
    using run full by (simp add: c'_def reclassify_cases)
  show "ctx_tier c' = nt" "packed_stable (packed_info c') = next_stable (ctx_tier c) nt st"
    "next_slice c' = tier_slice R nt" "overrun_count c' = hist"
    "burst_credit c' = (if nt \<noteq> ctx_tier c then 0 else burst_credit c)"
    using eq b ns by (simp_all add: c' Let_def ctx_tier_def packed_tier_put packed_stable_put)
  show "n < 28 \<Longrightarrow> bit (packed_info c') n \<longleftrightarrow> bit (packed_info c) n \<and>
       \<not> (n = 24 \<and> deficit_us c' = 0)"
    using eq b ns by (auto simp: c' Let_def deficit_us_def flag_simps put_low_bits)
qed

lemma reclassify_backoff_pass:
  fixes R :: rodata and now :: u64 and runnable :: bool and c :: imperator_task_ctx
  assumes run: "last_run_at c \<noteq> 0" and bo: "takes_backoff c"
    and c'_def: "c' = reclassify_task_cold R now runnable c"
  shows "ctx_tier c' = ctx_tier c" "next_slice c' = next_slice c" "burst_credit c' = burst_credit c"
    "overrun_count c' = overrun_count c"
    "packed_info c' = (if hysteresis_tier (ctx_tier c) (avg_runtime_us c') = ctx_tier c
                       then packed_info c else clear_stable (packed_info c))"
    "reclass_counter c' = (if hysteresis_tier (ctx_tier c) (avg_runtime_us c') = ctx_tier c
                           then reclass_counter c + 1 else 0)"
proof -
  have c': "c' = reclassify_backoff runnable (bout_of now c) (sample_of now c) (packed_info c)
                   (pre_ctx now runnable c)"
    using run bo by (simp add: c'_def reclassify_cases)
  have cnt: "reclass_counter (pre_ctx now runnable c) = reclass_counter c + 1"
    using bo by (simp add: pre_ctx_def takes_backoff_def Let_def)
  note sel = reclassify_backoff_sel [of runnable "bout_of now c" "sample_of now c" "pre_ctx now runnable c"]
  show "ctx_tier c' = ctx_tier c" "next_slice c' = next_slice c" "burst_credit c' = burst_credit c"
    "overrun_count c' = overrun_count c"
    using sel by (simp_all add: c')
  show "packed_info c' = (if hysteresis_tier (ctx_tier c) (avg_runtime_us c') = ctx_tier c
                       then packed_info c else clear_stable (packed_info c))"
    "reclass_counter c' = (if hysteresis_tier (ctx_tier c) (avg_runtime_us c') = ctx_tier c
                           then reclass_counter c + 1 else 0)"
    unfolding c' reclassify_backoff_def Let_def store_if_changed
    by (simp_all add: avg_runtime_us_def ctx_tier_def cnt)
qed

lemma reclassify_never_ran: "last_run_at c = 0 \<Longrightarrow> reclassify_task_cold R now run c = c"
  by (simp add: reclassify_task_cold_def Let_def)

lemma reclassify_tier_code:
  assumes "last_run_at c \<noteq> 0" "\<not> takes_backoff c" "c' = reclassify_task_cold R now run c"
  shows "tier_of (ctx_tier c') =
    (let k = classify (tier_of (ctx_tier c)) (unat (avg_runtime_us c'))
     in if overrun_fires (ctx_tier c) (sample_of now c) (overrun_count c)
        then max k (next_tier (tier_of (ctx_tier c))) else k)"
proof -
  obtain nt hist st where ch: "chosen run (sample_of now c) c = (nt, hist, st)"
    by (metis prod.exhaust)
  have avg: "avg_runtime_us c' = ewma_avg run (avg_runtime_us c) (sample_of now c)"
    using reclassify_fused [OF assms(1)] by (simp add: assms(3) avg_runtime_us_def)
  have t: "unat (ctx_tier c) < 4" by (rule unat_ctx_tier)
  define k where "k = classify (tier_of (ctx_tier c)) (unat (avg_runtime_us c'))"
  have hyst: "hysteresis_tier (ctx_tier c) (avg_runtime_us c') = tier_code k"
    using t by (simp add: k_def hysteresis_tier_of)
  have nt: "ctx_tier c' = (if overrun_fires (ctx_tier c) (sample_of now c) (overrun_count c)
                           then max (tier_code k) (ctx_tier c + 1) else tier_code k)"
    using reclassify_full_pass(1) [OF assms(1,2) ch assms(3)] ch hyst [unfolded avg]
    by (simp add: chosen_def overrun_demotion_eq split: if_splits)
  have "unat (ctx_tier c + 1) < 4" if "ctx_tier c < 3"
    using that by (simp add: word_less_nat_alt unat_word_ariths)
  then show ?thesis
    using t by (simp add: nt k_def [symmetric] Let_def overrun_fires_def tier_code_less tier_of_max
        tier_of_succ)
qed

lemma reclassify_low_bits:
  assumes "last_run_at c \<noteq> 0" "c' = reclassify_task_cold R now run c" "n < 28"
  shows "bit (packed_info c') n \<Longrightarrow> bit (packed_info c) n"
    "n \<noteq> 24 \<Longrightarrow> bit (packed_info c') n \<longleftrightarrow> bit (packed_info c) n"
    "deficit_us c' \<noteq> 0 \<Longrightarrow> bit (packed_info c') n \<longleftrightarrow> bit (packed_info c) n"
proof -
  obtain nt hist st where ch: "chosen run (sample_of now c) c = (nt, hist, st)"
    by (metis prod.exhaust)
  have "(bit (packed_info c') n \<longrightarrow> bit (packed_info c) n)
    \<and> (n \<noteq> 24 \<or> deficit_us c' \<noteq> 0 \<longrightarrow> bit (packed_info c') n = bit (packed_info c) n)"
    using reclassify_full_pass(6) [OF assms(1) _ ch assms(2,3)]
      reclassify_backoff_pass(5) [OF assms(1) _ assms(2)] assms(3)
    by (cases "takes_backoff c") (auto simp: bit_clear_stable split: if_splits)
  then show "bit (packed_info c') n \<Longrightarrow> bit (packed_info c) n"
    "n \<noteq> 24 \<Longrightarrow> bit (packed_info c') n \<longleftrightarrow> bit (packed_info c) n"
    "deficit_us c' \<noteq> 0 \<Longrightarrow> bit (packed_info c') n \<longleftrightarrow> bit (packed_info c) n"
    by blast+
qed

lemma reclassify_rsvd [wf_intros]:
  "rsvd_zero (packed_info c) \<Longrightarrow> rsvd_zero (packed_info (reclassify_task_cold R now run c))"
  using reclassify_low_bits(1) [OF _ refl, of c _ R now run] reclassify_never_ran [of c R now run]
  by (cases "last_run_at c = 0") (force simp: rsvd_zero_bits)+

section \<open>Sequences of bouts\<close>

text \<open>A bout is (start, stop, still runnable at the stop); starting stamps \<open>last_run_at\<close>.\<close>

type_synonym bout = "u32 \<times> u64 \<times> bool"

fun run_bouts :: "rodata \<Rightarrow> bout list \<Rightarrow> imperator_task_ctx \<Rightarrow> imperator_task_ctx" where
  "run_bouts R [] c = c"
| "run_bouts R ((start, stop, runnable) # bs) c =
     run_bouts R bs (reclassify_task_cold R stop runnable (c\<lparr>last_run_at := start\<rparr>))"

definition bout_length :: "bout \<Rightarrow> u16" where
  "bout_length b = (case b of (start, stop, runnable) \<Rightarrow> bout_us_of (ucast stop) start)"

lemma reclassify_burst:
  assumes "last_run_at c \<noteq> 0"
  shows "burst_acc_us (reclassify_task_cold R now run c) = (if run then sample_of now c else 0)"
proof -
  obtain nt hist st where ch: "chosen run (sample_of now c) (pre_ctx now run c) = (nt, hist, st)"
    by (metis prod.exhaust)
  have "burst_acc_us (reclassify_full R run (bout_of now c) (sample_of now c) (packed_info c)
      (pre_ctx now run c)) = (if run then sample_of now c else 0)"
    using reclassify_full_eq [OF ch, of R "bout_of now c"] by (simp add: Let_def split del: if_split)
  moreover have "burst_acc_us (reclassify_backoff run (bout_of now c) (sample_of now c) (packed_info c)
      (pre_ctx now run c)) = (if run then sample_of now c else 0)"
    using reclassify_backoff_sel(4) [of run "bout_of now c" "sample_of now c" "pre_ctx now run c"]
    by (simp split del: if_split)
  ultimately show ?thesis
    unfolding reclassify_cases [OF assms] by presburger
qed

lemma reclassify_step [simp]:
  assumes "start \<noteq> 0"
  shows "burst_acc_us (reclassify_task_cold R stop run (c\<lparr>last_run_at := start\<rparr>)) =
      (if run then burst_clamped (burst_acc_us c) (bout_us_of (ucast stop) start) else 0)"
    "avg_runtime_us (reclassify_task_cold R stop run (c\<lparr>last_run_at := start\<rparr>)) =
      ewma_avg run (avg_runtime_us c) (burst_clamped (burst_acc_us c) (bout_us_of (ucast stop) start))"
    "deficit_us (reclassify_task_cold R stop run (c\<lparr>last_run_at := start\<rparr>)) =
      consume_deficit (deficit_us c) (bout_us_of (ucast stop) start)"
proof -
  have nz: "last_run_at (c\<lparr>last_run_at := start\<rparr>) \<noteq> 0" using assms by simp
  show "burst_acc_us (reclassify_task_cold R stop run (c\<lparr>last_run_at := start\<rparr>)) =
      (if run then burst_clamped (burst_acc_us c) (bout_us_of (ucast stop) start) else 0)"
    using reclassify_burst [OF nz] by (simp add: sample_of_def bout_of_def)
  show "avg_runtime_us (reclassify_task_cold R stop run (c\<lparr>last_run_at := start\<rparr>)) =
      ewma_avg run (avg_runtime_us c) (burst_clamped (burst_acc_us c) (bout_us_of (ucast stop) start))"
    "deficit_us (reclassify_task_cold R stop run (c\<lparr>last_run_at := start\<rparr>)) =
      consume_deficit (deficit_us c) (bout_us_of (ucast stop) start)"
    using reclassify_fused [OF nz, of R stop run]
    by (simp_all add: avg_runtime_us_def deficit_us_def sample_of_def bout_of_def)
qed

lemma preempted_bouts:
  assumes "\<forall>(start, stop, run) \<in> set bs. start \<noteq> 0 \<and> run"
  shows "unat (burst_acc_us (run_bouts R bs c)) =
      (if bs = [] then unat (burst_acc_us c)
       else min 65535 (unat (burst_acc_us c) + (\<Sum>b\<leftarrow>bs. unat (bout_length b))))
    \<and> unat (avg_runtime_us c) \<le> unat (avg_runtime_us (run_bouts R bs c))"
  using assms
proof (induction bs arbitrary: c)
  case Nil
  then show ?case by simp
next
  case (Cons b bs)
  obtain start stop where b: "b = (start, stop, True)" "start \<noteq> 0"
    using Cons.prems by (cases b) auto
  let ?c = "reclassify_task_cold R stop True (c\<lparr>last_run_at := start\<rparr>)"
  have avg: "unat (avg_runtime_us c) \<le> unat (avg_runtime_us ?c)"
    using b by (simp add: ewma_runnable_ge)
  from Cons.prems have "\<forall>(start, stop, run) \<in> set bs. start \<noteq> 0 \<and> run" by simp
  from Cons.IH [OF this, of ?c] avg show ?case
    using b by (auto simp: unat_burst_clamped bout_length_def)
qed

lemma blocking_bouts:
  assumes "\<forall>b \<in> set bs. fst b \<noteq> 0 \<and> \<not> snd (snd b) \<and> bout_length b = r" "burst_acc_us c = 0"
  shows "unat (avg_runtime_us (run_bouts R bs c)) =
    ((\<lambda>a. ewma_nat False a (unat r)) ^^ length bs) (unat (avg_runtime_us c))"
  using assms
proof (induction bs arbitrary: c)
  case Nil
  then show ?case by simp
next
  case (Cons b bs)
  obtain start stop where b: "b = (start, stop, False)" "start \<noteq> 0" "bout_us_of (ucast stop) start = r"
    using Cons.prems by (cases b) (auto simp: bout_length_def)
  have "burst_clamped 0 r = r"
    using unsigned_less [of r, where 'a = nat] by (simp add: word_unat_eq_iff unat_burst_clamped)
  then show ?case
    using Cons.IH [of "reclassify_task_cold R stop False (c\<lparr>last_run_at := start\<rparr>)"] Cons.prems b
    by (simp add: unat_ewma_avg funpow_Suc_right del: funpow.simps)
qed

section \<open>Properties\<close>

definition example_ctx :: imperator_task_ctx where
  \<comment> \<open>a T1 task of average 1000 us that started at 1024 ns, used to evaluate the properties\<close>
  "example_ctx = \<lparr>next_slice = 2000000, deficit_avg_fused = PACK_DEFICIT_AVG 100 1000,
     packed_info = 0x11000000, last_run_at = 1024, reclass_counter = 0, overrun_count = 0,
     lock_skip_count = 0, pending_futex_op = CAKE_FUTEX_OP_UNSET, align_pad = [0, 0, 0],
     enqueue_time = 0, jitter_ewma_us = 0, burst_credit = 0, sleep_entry_time = 0,
     burst_acc_us = 0\<rparr>"

lemma example_ctx_sel [simp]:
  "last_run_at example_ctx = 1024" "ctx_tier example_ctx = 1"
  "packed_stable (packed_info example_ctx) = 0" "burst_acc_us example_ctx = 0"
  "avg_runtime_us example_ctx = 1000" "deficit_us example_ctx = 100"
  "overrun_count example_ctx = 0" "packed_info example_ctx = 0x11000000"
  "reclass_counter example_ctx = 0"
  by (simp_all add: example_ctx_def avg_runtime_us_def deficit_us_def ctx_tier_def packed_tier_def
      packed_stable_def)

lemma hist_list_0 [simp]: "hist_list 0 = replicate 8 False"
  by (rule nth_equalityI) (auto simp: hist_list_def)

lemma fires_0 [simp]: "\<not> overrun_fires t rt 0"
  by (simp add: overrun_fires_def) (simp add: eval_nat_numeral)

lemma unat_bout_of: "unat (bout_of now c) = min 65535 (unat ((ucast now :: u32) - last_run_at c) div 2 ^ 10)"
  by (simp only: bout_of_def bout_us_of_def Let_def unat_clamp_u16 unat_drop_bit)

lemma reclassify_numbers:
  assumes "last_run_at c \<noteq> 0" and c': "c' = reclassify_task_cold R now runnable c"
    and bout: "bout = min 65535 (unat ((ucast now :: u32) - last_run_at c) div 1024)"
    and sample: "sample = min 65535 (unat (burst_acc_us c) + bout)"
    and avg: "avg = unat (avg_runtime_us c)"
  shows "unat (burst_acc_us c') = (if runnable then sample else 0)
    \<and> unat (deficit_us c') = unat (deficit_us c) - bout
    \<and> unat (avg_runtime_us c') =
        (if sample < avg then (if runnable then avg else avg - avg div 4 + sample div 4)
         else avg - avg div 16 + sample div 16)
    \<and> min avg sample \<le> unat (avg_runtime_us c') \<and> unat (avg_runtime_us c') \<le> max avg sample"
proof -
  have b: "unat (bout_of now c) = bout" using unat_bout_of [of now c] bout by simp
  have s: "unat (sample_of now c) = sample" by (simp add: sample_of_def unat_burst_clamped b sample)
  have a': "unat (avg_runtime_us c') = ewma_nat runnable avg sample"
    and d': "unat (deficit_us c') = unat (deficit_us c) - bout"
    using reclassify_fused [OF assms(1), of R now runnable]
    by (simp_all add: c' avg_runtime_us_def deficit_us_def unat_ewma_avg unat_consume_deficit s b avg)
  show ?thesis
    using reclassify_burst [OF assms(1), of R now runnable] d' ewma_nat_bounds(1) [of avg sample runnable]
      ewma_nat_bounds(2) [of runnable avg sample]
    by (simp add: c' [symmetric] a' s ewma_nat.simps)
qed

text \<open>
  C12. Every stop of a task that ran measures the bout, saturating at 16 bits; classifies on the
  whole burst since the last sleep; consumes the deficit; and moves the average by a quarter
  towards a shorter blocking burst, by a sixteenth towards a longer one, and not at all towards a
  shorter burst that was cut off. The new average lies between the old one and the sample. The
  backoff path and the full pass agree on all of it.
\<close>

theorem reclassify_measures:
  assumes "last_run_at c \<noteq> 0" and c': "c' = reclassify_task_cold R now runnable c"
    and bout: "bout = min 65535 (unat ((ucast now :: u32) - last_run_at c) div 1024)"
    and sample: "sample = min 65535 (unat (burst_acc_us c) + bout)"
    and avg: "avg = unat (avg_runtime_us c)"
  shows "unat (burst_acc_us c') = (if runnable then sample else 0)
    \<and> unat (deficit_us c') = unat (deficit_us c) - bout
    \<and> unat (avg_runtime_us c') =
        (if sample < avg then (if runnable then avg else avg - avg div 4 + sample div 4)
         else avg - avg div 16 + sample div 16)
    \<and> min avg sample \<le> unat (avg_runtime_us c') \<and> unat (avg_runtime_us c') \<le> max avg sample"
  using assms by (rule reclassify_numbers)

theorem reclassify_measures_witness:
  "unat (avg_runtime_us (reclassify_task_cold rodata_default (1024 + 500 * 1024) False example_ctx)) = 875
   \<and> deficit_us (reclassify_task_cold rodata_default (1024 + 500 * 1024) False example_ctx) = 0"
  using reclassify_measures [OF _ refl refl refl refl, of example_ctx rodata_default "1024 + 500 * 1024" False]
  by (simp add: word_unat_eq_iff)

text \<open>
  C13. A burst cut into preempted pieces is measured as one burst: over any sequence of preempted
  bouts the accumulator is the saturating sum of their lengths, and the average never falls, so
  being preempted often cannot make a task look interactive.
\<close>

theorem preemption_does_not_hide_bursts:
  assumes "\<forall>(start, stop, runnable) \<in> set bs. start \<noteq> 0 \<and> runnable" "burst_acc_us c = 0"
  shows "unat (burst_acc_us (run_bouts R bs c)) = min 65535 (\<Sum>b\<leftarrow>bs. unat (bout_length b))
    \<and> unat (avg_runtime_us c) \<le> unat (avg_runtime_us (run_bouts R bs c))"
  using preempted_bouts [OF assms(1), of R c] assms(2) by auto

theorem preemption_does_not_hide_bursts_witness:
  "unat (burst_acc_us (run_bouts rodata_default
      [(1024, 1024 + 3000 * 1024, True), (4000000, 4000000 + 2000 * 1024, True)] example_ctx)) = 5000"
proof -
  let ?bs = "[(1024, 1024 + 3000 * 1024, True), (4000000, 4000000 + 2000 * 1024, True)]"
  have "(\<Sum>b\<leftarrow>?bs. unat (bout_length b)) = 5000"
    by (simp add: bout_length_def bout_us_of_def unat_clamp_u16)
  then show ?thesis
    using preemption_does_not_hide_bursts [of ?bs example_ctx rodata_default] by simp
qed

text \<open>
  C11. A full pass puts the task in the tier the hysteresis gates give its new average, raised to at
  least the next tier when four of the last eight bursts overran the tier's gate; it stores that
  tier's slice, keeps or advances the stability counter of an unchanged tier and resets counter,
  stability and burst credit on a change.
\<close>

theorem full_pass_reclassifies:
  assumes "last_run_at c \<noteq> 0" "\<not> takes_backoff c"
    and c': "c' = reclassify_task_cold R now runnable c" and old: "old = tier_of (ctx_tier c)"
  shows "tier_of (ctx_tier c') =
      (let k = classify old (unat (avg_runtime_us c'))
       in if overrun_fires (ctx_tier c) (sample_of now c) (overrun_count c) then max k (next_tier old) else k)
    \<and> next_slice c' = tier_slice R (ctx_tier c')
    \<and> (ctx_tier c' \<noteq> ctx_tier c \<longrightarrow> packed_stable (packed_info c') = 0 \<and> burst_credit c' = 0)
    \<and> (ctx_tier c' = ctx_tier c \<longrightarrow>
         unat (packed_stable (packed_info c')) = min 3 (unat (packed_stable (packed_info c)) + 1))"
proof -
  obtain nt hist st where ch: "chosen runnable (sample_of now c) c = (nt, hist, st)"
    by (metis prod.exhaust)
  note full = reclassify_full_pass(1-5) [OF assms(1,2) ch c']
  have "unat (next_stable (ctx_tier c) (ctx_tier c) st) = min 3 (unat st + 1)" if "unat st < 4"
    using that by (rule u8_less_4_cases) (simp_all add: next_stable_def)
  then show ?thesis
    unfolding old using full reclassify_tier_code [OF assms(1,2) c'] chosen_unchanged [OF ch]
      chosen_bounds(2) [OF ch]
    by (cases "nt = ctx_tier c") (simp_all add: next_stable_def)
qed

theorem full_pass_reclassifies_witness:
  "ctx_tier (reclassify_task_cold rodata_default (1024 + 60000 * 1024) False example_ctx) = 2"
proof -
  let ?c = "reclassify_task_cold rodata_default (1024 + 60000 * 1024) False example_ctx"
  have run: "last_run_at example_ctx \<noteq> 0" and full: "\<not> takes_backoff example_ctx"
    by (simp, simp add: takes_backoff_def packed_stable_def)
  have avg: "unat (avg_runtime_us ?c) = 4688"
    using reclassify_numbers [OF run refl refl refl refl, of rodata_default "1024 + 60000 * 1024" False]
    by simp
  have "\<not> overrun_fires (ctx_tier example_ctx) (sample_of (1024 + 60000 * 1024) example_ctx)
            (overrun_count example_ctx)"
    by simp
  then have "tier_of (ctx_tier ?c) = TIER_FRAME"
    using full_pass_reclassifies [OF run full refl refl, of rodata_default "1024 + 60000 * 1024" False] avg
    by (simp add: tier_of_def classify_def demote_tier_def promote_tier_def max_def min_def tier_order_defs)
  then show ?thesis
    using tier_code_of [OF unat_ctx_tier [of ?c]] by simp
qed

text \<open>
  The backoff path touches neither tier, slice, history nor burst credit. It either keeps
  \<open>packed_info\<close> and counts the stop, or, when the new average belongs to another tier, clears
  the stability counter alone, so that the very next stop is a full pass.
\<close>

theorem backoff_only_reschedules:
  assumes "last_run_at c \<noteq> 0" "takes_backoff c" and c': "c' = reclassify_task_cold R now runnable c"
  shows "ctx_tier c' = ctx_tier c \<and> next_slice c' = next_slice c \<and> burst_credit c' = burst_credit c
    \<and> overrun_count c' = overrun_count c
    \<and> (classify (tier_of (ctx_tier c)) (unat (avg_runtime_us c')) = tier_of (ctx_tier c) \<longrightarrow>
         packed_info c' = packed_info c \<and> reclass_counter c' = reclass_counter c + 1)
    \<and> (classify (tier_of (ctx_tier c)) (unat (avg_runtime_us c')) \<noteq> tier_of (ctx_tier c) \<longrightarrow>
         packed_stable (packed_info c') = 0 \<and> \<not> takes_backoff c'
         \<and> (\<forall>n < 30. bit (packed_info c') n = bit (packed_info c) n))"
proof -
  note bp = reclassify_backoff_pass [OF assms]
  have "hysteresis_tier (ctx_tier c) a = ctx_tier c
        \<longleftrightarrow> classify (tier_of (ctx_tier c)) (unat a) = tier_of (ctx_tier c)" for a
    using unat_ctx_tier [of c] by (metis hysteresis_tier_of tier_code_of tier_of_code)
  moreover have "packed_stable (clear_stable p) = 0" for p
    by (rule bit_word_eqI) (simp add: bit_packed_stable bit_clear_stable)
  ultimately show ?thesis
    using bp by (simp add: bit_clear_stable takes_backoff_def)
qed

theorem backoff_only_reschedules_witness:
  "packed_info (reclassify_task_cold rodata_default (1024 + 900 * 1024) False
      (example_ctx\<lparr>packed_info := 0xD1000000\<rparr>)) = 0xD1000000"
proof -
  let ?c = "example_ctx\<lparr>packed_info := 0xD1000000\<rparr>"
  let ?c' = "reclassify_task_cold rodata_default (1024 + 900 * 1024) False ?c"
  have run: "last_run_at ?c \<noteq> 0" by simp
  have t: "ctx_tier ?c = 1" by (simp add: ctx_tier_def packed_tier_def)
  have b: "takes_backoff ?c"
    by (simp add: takes_backoff_def t packed_stable_def tier_recheck_mask_def CAKE_TIER_IDX_def)
  have "avg_runtime_us ?c = 1000"
    by (simp add: avg_runtime_us_def example_ctx_def)
  then have "unat (avg_runtime_us ?c') = 975"
    using reclassify_numbers [OF run refl refl refl refl, of rodata_default "1024 + 900 * 1024" False]
    by simp
  with backoff_only_reschedules [OF run b refl, of rodata_default "1024 + 900 * 1024" False]
  show ?thesis
    by (simp add: t tier_of_def classify_def demote_tier_def promote_tier_def max_def min_def tier_order_defs)
qed

lemma full_pass_within:
  "\<exists>k < recheck_period t. recheck_period t dvd unat (x + of_nat k :: u16) + 1"
proof -
  let ?P = "recheck_period t"
  have P: "0 < ?P" and d: "?P dvd 2 ^ 16" by (cases t; simp)+
  define k where "k = (?P - 1) - unat x mod ?P"
  have "unat x mod ?P < ?P" using P by (rule mod_less_divisor)
  then have "(unat x mod ?P + (k + 1)) = ?P" unfolding k_def by linarith
  then have "(unat x + k + 1) mod ?P = 0"
    by (metis (no_types, opaque_lifting) add.assoc mod_add_left_eq mod_self)
  moreover have "(unat (x + of_nat k) + 1) mod ?P = (unat x + k + 1) mod ?P"
    using d by (simp add: unat_word_ariths unat_of_nat mod_simps)
       (metis (no_types, opaque_lifting) mod_Suc_eq mod_mod_cancel)
  ultimately have "?P dvd unat (x + of_nat k) + 1" by (simp only: dvd_eq_mod_eq_0)
  moreover have "k < ?P" using P by (simp add: k_def)
  ultimately show ?thesis by blast
qed

text \<open>
  Recheck schedule: a stop of a settled task is a full pass exactly when its tier's period
  (1024, 128, 32, 16 stops for T0 to T3) divides the stop count, so among any period of
  consecutive counts, wrapping included, one is a full pass; an unsettled task takes a full pass
  at every stop.
\<close>

theorem recheck_schedule:
  "(takes_backoff c \<longleftrightarrow> packed_stable (packed_info c) = 3
     \<and> \<not> recheck_period (tier_of (ctx_tier c)) dvd unat (reclass_counter c) + 1)
   \<and> (\<exists>k < recheck_period (tier_of (ctx_tier c)).
        \<not> takes_backoff (c\<lparr>reclass_counter := reclass_counter c + of_nat k\<rparr>))"
  using full_pass_within [of "tier_of (ctx_tier c)" "reclass_counter c"]
  by (auto simp: takes_backoff_iff ctx_tier_def)

text \<open>
  C15. The gates: classification is monotone in the average, settles in one step for a fixed
  average, and an average-driven demotion is undone only when the average falls by more than
  10\%, so noise around a gate does not make the tier flap.
\<close>

theorem hysteresis_prevents_flapping:
  assumes "unat t < 4"
  shows "hysteresis_tier (hysteresis_tier t a) a = hysteresis_tier t a
    \<and> (unat a \<le> unat b \<longrightarrow> hysteresis_tier t a \<le> hysteresis_tier t b)
    \<and> (t < hysteresis_tier t a \<and> hysteresis_tier (hysteresis_tier t a) b < hysteresis_tier t a
        \<longrightarrow> 10 * unat b < 9 * unat a)"
proof -
  have "hysteresis_tier (hysteresis_tier t a) a = hysteresis_tier t a"
    using assms by (simp add: hysteresis_tier_of tier_code_less classify_stable)
  moreover have "t < hysteresis_tier t a \<and> hysteresis_tier (hysteresis_tier t a) b < hysteresis_tier t a
        \<longrightarrow> 10 * unat b < 9 * unat a"
    using assms by (rule u8_less_4_cases) (auto simp: hysteresis_tier_unfold word_less_nat_alt)
  ultimately show ?thesis
    using hysteresis_tier_mono [OF assms] by blast
qed

theorem hysteresis_prevents_flapping_witness:
  "hysteresis_tier 1 2000 = 2 \<and> hysteresis_tier 2 1850 = 2 \<and> hysteresis_tier (hysteresis_tier 1 2000) 2000 = 2"
  using hysteresis_prevents_flapping [of 1 2000 1850] by (simp add: hysteresis_tier_unfold)

text \<open>
  The hard-demote cap is redundant: it never changes the tier the gates selected, whatever
  the average, the stability counter and the old tier.
\<close>

theorem hard_demote_cap_redundant:
  "hard_demote_cap new_avg stab (hysteresis_tier old_tier new_avg) = hysteresis_tier old_tier new_avg"
  by (rule hard_demote_cap_id)

text \<open>
  C14. The overrun history is the list of the last eight outcomes, newest first. It forces the
  task at least one tier down exactly when four of them are overruns, and then starts empty; T3
  has no gate and no history.
\<close>

theorem overrun_history:
  assumes "unat t < 4" "overrun_demotion t rt h nt st = (nt', h', st')"
  shows "if t < CAKE_TIER_BULK
         then (let outs = overrun t rt # butlast (hist_list h)
               in if 4 \<le> length (filter id outs)
                  then unat nt' = max (unat nt) (unat t + 1) \<and> hist_list h' = replicate 8 False \<and> st' = 0
                  else nt' = nt \<and> hist_list h' = outs \<and> st' = st)
         else nt' = nt \<and> h' = h \<and> st' = st"
proof -
  have "unat (max nt (t + 1)) = max (unat nt) (unat t + 1)"
    using assms(1) by (auto simp: max_def word_le_nat_alt unat_word_ariths)
  then show ?thesis
    using assms(2) unfolding overrun_demotion_eq overrun_fires_def Let_def
    by (simp only: split: if_splits) (auto simp: hist_list_shift simp del: butlast.simps)
qed

theorem overrun_history_witness:
  "fst (overrun_demotion 1 5000 0xE 1 3) = 2"
proof -
  obtain nt h st where e: "overrun_demotion 1 5000 0xE 1 3 = (nt, h, st)" by (metis prod.exhaust)
  have "hist_list 0xE = [False, True, True, True, False, False, False, False]"
    by (simp add: hist_list_def upt_rec)
  then have "unat nt = 2"
    using overrun_history [OF _ e] by (simp add: overrun_def tier_overrun_gate_def CAKE_TIER_IDX_def)
  then show ?thesis by (simp add: e word_unat_eq_iff)
qed

text \<open>
  An overrun demotion lasts one bout: it leaves stability and history empty, so the next stop
  is a full pass that selects exactly the tier the gates give the average of that moment, which
  the demotion did not move. Being preempted is enough for the task to return.
\<close>

theorem forced_demotion_lasts_one_bout:
  assumes "last_run_at c \<noteq> 0" "\<not> takes_backoff c"
    and fires: "overrun_fires (ctx_tier c) (sample_of now c) (overrun_count c)"
    and c': "c' = reclassify_task_cold R now runnable c"
    and start: "start \<noteq> 0" and c'': "c'' = reclassify_task_cold R later run' (c'\<lparr>last_run_at := start\<rparr>)"
  shows "ctx_tier c < ctx_tier c' \<and> packed_stable (packed_info c') = 0 \<and> overrun_count c' = 0
    \<and> tier_of (ctx_tier c'') = classify (tier_of (ctx_tier c')) (unat (avg_runtime_us c''))"
proof -
  obtain nt hist st where ch: "chosen runnable (sample_of now c) c = (nt, hist, st)"
    by (metis prod.exhaust)
  from fires have "ctx_tier c < 3" by (simp add: overrun_fires_def)
  then have up: "ctx_tier c < ctx_tier c + 1"
    by (simp add: word_less_nat_alt unat_word_ariths)
  have nt: "nt = max (hysteresis_tier (ctx_tier c) (ewma_avg runnable (avg_runtime_us c) (sample_of now c)))
                 (ctx_tier c + 1)" and hist: "hist = 0" and st: "st = 0"
    using ch fires by (simp_all add: chosen_def overrun_demotion_eq)
  note full = reclassify_full_pass(1-5) [OF assms(1,2) ch c']
  have 1: "ctx_tier c < ctx_tier c'"
    using full(1) up by (simp add: nt less_max_iff_disj)
  then have 2: "packed_stable (packed_info c') = 0"
    using full(1,2) by (auto simp: next_stable_def)
  have "\<not> takes_backoff (c'\<lparr>last_run_at := start\<rparr>)"
    by (simp add: takes_backoff_def 2)
  from reclassify_tier_code [OF _ this c''] start
  have "tier_of (ctx_tier c'') = classify (tier_of (ctx_tier c')) (unat (avg_runtime_us c''))"
    using full(4) hist by (simp add: ctx_tier_def Let_def)
  with 1 2 full(4) hist show ?thesis by blast
qed

theorem forced_demotion_lasts_one_bout_witness:
  "let c = example_ctx\<lparr>overrun_count := 7\<rparr>;
       c' = reclassify_task_cold rodata_default (1024 + 5000 * 1024) False c;
       c'' = reclassify_task_cold rodata_default (6000000 + 100 * 1024) True (c'\<lparr>last_run_at := 6000000\<rparr>)
   in ctx_tier c' > 1 \<and> ctx_tier c'' = 1"
proof -
  let ?c = "example_ctx\<lparr>overrun_count := 7\<rparr>"
  let ?c' = "reclassify_task_cold rodata_default (1024 + 5000 * 1024) False ?c"
  let ?c'' = "reclassify_task_cold rodata_default (6000000 + 100 * 1024) True (?c'\<lparr>last_run_at := 6000000\<rparr>)"
  have run: "last_run_at ?c \<noteq> 0" and t: "ctx_tier ?c = 1" and full: "\<not> takes_backoff ?c"
    by (simp, simp add: ctx_tier_def packed_tier_def, simp add: takes_backoff_def packed_stable_def)
  have s: "unat (sample_of (1024 + 5000 * 1024) ?c) = 5000"
    by (simp add: sample_of_def unat_burst_clamped unat_bout_of)
  have "hist_list 7 = [True, True, True, False, False, False, False, False]"
    by (simp add: hist_list_def upt_rec)
  then have fires: "overrun_fires (ctx_tier ?c) (sample_of (1024 + 5000 * 1024) ?c) (overrun_count ?c)"
    using s by (simp add: overrun_fires_def t overrun_def tier_overrun_gate_def CAKE_TIER_IDX_def word_less_nat_alt)
  note f = forced_demotion_lasts_one_bout [OF run full fires refl _ refl, of 6000000 rodata_default False
      "6000000 + 100 * 1024" True]
  have avg0: "avg_runtime_us ?c = 1000"
    by (simp add: avg_runtime_us_def example_ctx_def)
  have avg: "unat (avg_runtime_us ?c') = 1250" and acc: "burst_acc_us ?c' = 0"
    using reclassify_numbers [OF run refl refl refl refl, of rodata_default "1024 + 5000 * 1024" False]
    by (simp_all add: avg0 word_unat_eq_iff)
  have "unat (avg_runtime_us ?c'') = 1250"
    using avg acc by (simp add: unat_ewma_avg unat_burst_clamped bout_us_of_def unat_clamp_u16 ewma_nat.simps)
  with f have "tier_of (ctx_tier ?c'') = TIER_INTERACT"
    by (cases "tier_of (ctx_tier ?c')")
       (auto simp: t classify_def demote_tier_def promote_tier_def max_def min_def tier_order_defs)
  then have "ctx_tier ?c'' = 1" using tier_code_of [OF unat_ctx_tier [of ?c'']] by simp
  with f show ?thesis by (simp add: Let_def t)
qed

text \<open>
  A preempted bout never promotes: when the average belongs to the task's tier or a lower
  one, a stop while still runnable leaves the tier where it is or moves it down, on both paths.
\<close>

theorem preemption_never_promotes:
  assumes "ctx_tier c \<le> hysteresis_tier (ctx_tier c) (avg_runtime_us c)"
  shows "ctx_tier c \<le> ctx_tier (reclassify_task_cold R now True c)"
proof (cases "last_run_at c = 0 \<or> takes_backoff c")
  case True
  then show ?thesis
    using reclassify_never_ran [of c R now True] reclassify_backoff_pass(1) [OF _ _ refl, of c R now True]
    by (cases "last_run_at c = 0") auto
next
  case False
  obtain nt hist st where ch: "chosen True (sample_of now c) c = (nt, hist, st)"
    by (metis prod.exhaust)
  have "ctx_tier c \<le> hysteresis_tier (ctx_tier c) (ewma_avg True (avg_runtime_us c) (sample_of now c))"
    using assms hysteresis_tier_mono [OF unat_ctx_tier ewma_runnable_ge] by (rule order_trans)
  then have "ctx_tier c \<le> nt"
    using ch by (auto simp: chosen_def overrun_demotion_eq le_max_iff_disj split: if_splits)
  then show ?thesis
    using reclassify_full_pass(1) [OF _ _ ch refl, of R] False by simp
qed

theorem preemption_never_promotes_witness:
  "1 \<le> ctx_tier (reclassify_task_cold rodata_default (1024 + 1024) True example_ctx)"
  using preemption_never_promotes [of example_ctx rodata_default "1024 + 1024"]
  by (simp add: hysteresis_tier_unfold)

text \<open>
  Reclassification never sets a bit of the flag nibble or of the reserved field, never touches
  the lock-holder and IRQ-wake flags, and clears the new-flow flag only once the deficit is spent.
\<close>

theorem reclassify_preserves_flags:
  assumes "last_run_at c \<noteq> 0" and c': "c' = reclassify_task_cold R now runnable c"
  shows "has_flag CAKE_FLAG_LOCK_HOLDER (packed_info c') = has_flag CAKE_FLAG_LOCK_HOLDER (packed_info c)
    \<and> has_flag CAKE_FLOW_IRQ_WAKE (packed_info c') = has_flag CAKE_FLOW_IRQ_WAKE (packed_info c)
    \<and> (has_flag CAKE_FLOW_NEW (packed_info c') \<longrightarrow> has_flag CAKE_FLOW_NEW (packed_info c))
    \<and> (has_flag CAKE_FLOW_NEW (packed_info c) \<and> \<not> takes_backoff c \<longrightarrow>
         has_flag CAKE_FLOW_NEW (packed_info c') \<longleftrightarrow> deficit_us c' \<noteq> 0)
    \<and> (rsvd_zero (packed_info c) \<longrightarrow> rsvd_zero (packed_info c'))"
proof -
  obtain nt hist st where ch: "chosen runnable (sample_of now c) c = (nt, hist, st)"
    by (metis prod.exhaust)
  show ?thesis
    using reclassify_low_bits [OF assms] reclassify_full_pass(6) [OF assms(1) _ ch c', of 24]
      reclassify_rsvd [of c R now runnable]
    by (auto simp: flag_simps c')
qed

theorem reclassify_preserves_flags_witness:
  "\<not> has_flag CAKE_FLOW_NEW (packed_info (reclassify_task_cold rodata_default (1024 + 500 * 1024) False example_ctx))"
proof -
  have "has_flag CAKE_FLOW_NEW (packed_info example_ctx)" "\<not> takes_backoff example_ctx"
    by (simp add: has_flag_def flag_mask_def, simp add: takes_backoff_def packed_stable_def)
  moreover have "unat (deficit_us (reclassify_task_cold rodata_default (1024 + 500 * 1024) False example_ctx)) = 0"
    using reclassify_numbers [OF _ refl refl refl refl, of example_ctx rodata_default "1024 + 500 * 1024" False]
    by simp
  ultimately show ?thesis
    using reclassify_preserves_flags [of example_ctx, OF _ refl] by (simp add: word_unat_eq_iff)
qed

text \<open>
  C16. Steady behaviour is learned: after 173 stops in which the task blocks after bouts of the
  same length, whatever context it started from (an unfinished burst included, which the first
  of the stops ends), its average is within 15 microsecond units of that length, so the gates judge
  what the task does now.
\<close>

theorem steady_bursts_converge:
  assumes "\<forall>b \<in> set bs. fst b \<noteq> 0 \<and> \<not> snd (snd b) \<and> bout_length b = r" "173 \<le> length bs"
  shows "\<bar>int (unat (avg_runtime_us (run_bouts R bs c))) - int (unat r)\<bar> \<le> 15"
proof -
  obtain b bs' where bs: "bs = b # bs'" using assms(2) by (cases bs) auto
  obtain start stop where b: "b = (start, stop, False)" "start \<noteq> 0" using assms(1) by (cases b) (auto simp: bs)
  define c' where "c' = reclassify_task_cold R stop False (c\<lparr>last_run_at := start\<rparr>)"
  have rest: "\<forall>b \<in> set bs'. fst b \<noteq> 0 \<and> \<not> snd (snd b) \<and> bout_length b = r" "burst_acc_us c' = 0" "172 \<le> length bs'"
    using assms b by (simp_all add: bs c'_def)
  have lim: "unat (avg_runtime_us c') \<le> 65535" "unat r \<le> 65535"
    using unsigned_less [of "avg_runtime_us c'", where 'a = nat] unsigned_less [of r, where 'a = nat]
    by simp_all
  have run: "run_bouts R bs c = run_bouts R bs' c'" by (simp add: bs b c'_def)
  show ?thesis
    unfolding run blocking_bouts [OF rest(1,2)] using lim rest(3) by (rule ewma_converges)
qed

theorem steady_bursts_converge_witness:
  "\<bar>int (unat (avg_runtime_us (run_bouts rodata_default
      (replicate 173 (1024, 1024 + 5000 * 1024, False)) (example_ctx\<lparr>burst_acc_us := 30000\<rparr>)))) - 5000\<bar> \<le> 15"
proof -
  have "bout_length (1024, 1024 + 5000 * 1024, False) = 5000"
    by (simp add: bout_length_def bout_us_of_def word_unat_eq_iff unat_clamp_u16)
  then have "\<forall>b \<in> set (replicate 173 (1024, 1024 + 5000 * 1024, False)).
      fst b \<noteq> 0 \<and> \<not> snd (snd b) \<and> bout_length b = 5000"
    by simp
  from steady_bursts_converge [OF this, of rodata_default "example_ctx\<lparr>burst_acc_us := 30000\<rparr>"] show ?thesis by simp
qed

end
