(* ===== verification/Lifecycle.thy ===== *)
theory Lifecycle
  imports Classification
begin

text \<open>
  Creation, exec and fork of a task context: the seeded tier and average agree with the
  classifier, and every operation that writes a context keeps the invariant \<open>ctx_inv\<close>.
\<close>

section \<open>The context invariant\<close>

definition slice_bound :: "rodata \<Rightarrow> u64" where
  \<comment> \<open>the longest slice the scheduler ever grants\<close>
  "slice_bound R = max (quantum_ns R) (max (max (tier_slice R 0) (tier_slice R 1))
                                          (max (tier_slice R 2) (tier_slice R 3)))"

definition ctx_inv :: "rodata \<Rightarrow> imperator_task_ctx \<Rightarrow> bool" where
  "ctx_inv R c \<longleftrightarrow> rsvd_zero (packed_info c) \<and> \<not> bit (packed_info c) 27
     \<and> burst_credit c = 0 \<and> popcount (overrun_count c) < 4
     \<and> unat (lock_skip_count c) \<le> 4 \<and> next_slice c \<le> slice_bound R"

lemma tier_slice_bound: "unat t < 4 \<Longrightarrow> tier_slice R t \<le> slice_bound R"
  by (erule u8_less_4_cases) (simp_all add: slice_bound_def le_max_iff_disj)

lemma quantum_bound: "quantum_ns R \<le> slice_bound R"
  by (simp add: slice_bound_def)

lemma popcount_0 [simp]: "popcount 0 = 0"
  by (simp add: popcount_def)

lemma chosen_popcount:
  assumes "chosen run rt c = (nt, hist, st)" "popcount (overrun_count c) < 4"
  shows "popcount hist < 4"
  using assms
  by (auto simp: chosen_def overrun_demotion_eq overrun_fires_def popcount_hist hist_list_shift
      split: if_splits)

lemma ctx_inv_reclassify [wf_intros]:
  assumes "ctx_inv R c"
  shows "ctx_inv R (reclassify_task_cold R now run c)"
proof (cases "last_run_at c = 0")
  case True
  then show ?thesis using assms by (simp add: reclassify_never_ran)
next
  case run: False
  let ?c = "reclassify_task_cold R now run c"
  obtain nt hist st where ch: "chosen run (sample_of now c) c = (nt, hist, st)"
    by (metis prod.exhaust)
  have bits: "rsvd_zero (packed_info ?c)" "\<not> bit (packed_info ?c) 27"
    using assms reclassify_rsvd reclassify_low_bits(1) [OF run refl, of 27] by (auto simp: ctx_inv_def)
  obtain nt' hist' st' where ch': "chosen run (sample_of now c) (pre_ctx now run c) = (nt', hist', st')"
    by (metis prod.exhaust)
  have skip: "lock_skip_count ?c = lock_skip_count c"
    using reclassify_full_eq [OF ch', of R "bout_of now c"]
    by (simp add: reclassify_cases [OF run] Let_def reclassify_backoff_def)
  show ?thesis
  proof (cases "takes_backoff c")
    case True
    with reclassify_backoff_pass(2-4) [OF run True refl, of R now run] assms bits skip show ?thesis
      by (simp add: ctx_inv_def)
  next
    case False
    with reclassify_full_pass(3-5) [OF run False ch refl, of R] assms bits skip show ?thesis
      using chosen_popcount [OF ch] tier_slice_bound chosen_bounds [OF ch] by (simp add: ctx_inv_def)
  qed
qed

section \<open>Seeding\<close>

definition alloc_packed :: "u8 \<Rightarrow> u32" where
  "alloc_packed t = push_bit 24 (push_bit 4 (ucast (t AND 3)) OR (1 AND 15))"

lemma alloc_packed_values:
  "unat t < 4 \<Longrightarrow> alloc_packed t = push_bit 28 (ucast t) OR 0x1000000"
  by (erule u8_less_4_cases) (simp_all add: alloc_packed_def)

lemma alloc_packed_fields:
  assumes "unat t < 4"
  shows "packed_tier (alloc_packed t) = t" "packed_stable (alloc_packed t) = 0"
    "has_flag CAKE_FLOW_NEW (alloc_packed t)" "\<not> has_flag CAKE_FLAG_LOCK_HOLDER (alloc_packed t)"
    "\<not> has_flag CAKE_FLOW_IRQ_WAKE (alloc_packed t)" "rsvd_zero (alloc_packed t)"
    "\<not> bit (alloc_packed t) 27"
  using assms
  by (rule u8_less_4_cases, simp_all add: alloc_packed_values packed_tier_def packed_stable_def
      has_flag_def flag_mask_def rsvd_zero_def bit_iff_odd_drop_bit)+

lemma unat_init_tier: "unat (init_tier_of_prio prio) < 4"
  by (simp add: init_tier_of_prio_def)

lemma init_avg_agrees:
  "hysteresis_tier (init_tier_of_prio prio) (init_avg_of_tier (init_tier_of_prio prio)) = init_tier_of_prio prio"
  by (simp add: init_tier_of_prio_def init_avg_of_tier_def hysteresis_tier_unfold)

definition seeded :: "rodata \<Rightarrow> u32 \<Rightarrow> imperator_task_ctx \<Rightarrow> bool" where
  \<comment> \<open>what a context created for a task of static priority \<open>prio\<close> must look like\<close>
  "seeded R prio c \<longleftrightarrow> ctx_tier c = init_tier_of_prio prio \<and> packed_stable (packed_info c) = 0
     \<and> hysteresis_tier (ctx_tier c) (avg_runtime_us c) = ctx_tier c
     \<and> has_flag CAKE_FLOW_NEW (packed_info c) \<and> \<not> has_flag CAKE_FLAG_LOCK_HOLDER (packed_info c)
     \<and> \<not> has_flag CAKE_FLOW_IRQ_WAKE (packed_info c) \<and> deficit_us c = init_deficit R
     \<and> pending_futex_op c = CAKE_FUTEX_OP_UNSET \<and> last_run_at c = 0 \<and> sleep_entry_time c = 0
     \<and> enqueue_time c = 0 \<and> burst_acc_us c = 0 \<and> ctx_inv R c"

lemma alloc_seeded:
  assumes "alloc_task_ctx_cold R True p s = (r, s')"
  shows "\<exists>c. r = Some c \<and> s' = s\<lparr>task_ctx := (task_ctx s)(ts_id p \<mapsto> c)\<rparr> \<and> seeded R (ts_static_prio p) c"
proof -
  note f = alloc_packed_fields [OF unat_init_tier [of "ts_static_prio p"]]
  show ?thesis
    using assms f init_avg_agrees [of "ts_static_prio p"] quantum_bound [of R]
    unfolding alloc_task_ctx_cold_def Let_def alloc_packed_def [symmetric]
    by (auto simp: seeded_def ctx_inv_def ctx_tier_def avg_runtime_us_def deficit_us_def)
qed

section \<open>Exec and fork\<close>

lemma exec_reset_eq:
  "exec_reset R prio c = c\<lparr>packed_info := put_tier_stable 0 (init_tier_of_prio prio) (packed_info c),
     deficit_avg_fused := PACK_DEFICIT_AVG (deficit_us c) (init_avg_of_tier (init_tier_of_prio prio)),
     overrun_count := 0, reclass_counter := 0, lock_skip_count := 0, enqueue_time := 0,
     jitter_ewma_us := 0, burst_credit := 0, sleep_entry_time := 0,
     next_slice := tier_slice R (init_tier_of_prio prio)\<rparr>"
  by (simp add: exec_reset_def init_tier_of_prio_def init_avg_of_tier_def deficit_us_def put_tier_stable_def)

definition fork_packed :: "u8 \<Rightarrow> u32 \<Rightarrow> u32" where
  "fork_packed t p = (p AND NOT (push_bit SHIFT_TIER MASK_TIER)) OR push_bit SHIFT_TIER (ucast t)"

lemma bit_fork_packed:
  assumes "unat t < 4"
  shows "bit (fork_packed t p) n \<longleftrightarrow> (if 28 \<le> n \<and> n < 30 then bit t (n - 28) else bit p n)"
proof -
  have "(3 :: u32) = mask 2" by (simp add: mask_eq_exp_minus_1)
  then have "bit (push_bit 28 3 :: u32) n \<longleftrightarrow> 28 \<le> n \<and> n < 30"
    by (simp only: bit_simps) auto
  then show ?thesis
    using u8_bit_less_4 [OF _ assms, of "n - 28"] bit_imp_le_length [of p n]
    unfolding fork_packed_def
    by (auto simp: bit_or_iff bit_and_iff bit_not_iff bit_push_bit_iff bit_unsigned_iff
        simp del: push_bit_numeral)
qed

lemma fork_packed_fields:
  assumes "unat t < 4"
  shows "packed_tier (fork_packed t p) = t" "packed_stable (fork_packed t p) = packed_stable p"
    "n < 28 \<Longrightarrow> bit (fork_packed t p) n = bit p n"
  using assms u8_bit_less_4 [of t]
  by (auto intro!: bit_word_eqI simp: bit_packed_tier bit_packed_stable bit_fork_packed)

lemma ctx_inv_exec [wf_intros]: "ctx_inv R c \<Longrightarrow> ctx_inv R (exec_reset R prio c)"
  using unat_init_tier [of prio]
  by (simp add: exec_reset_eq ctx_inv_def tier_slice_bound rsvd_zero_put put_low_bits)

lemma ctx_inv_fork [wf_intros]: "ctx_inv R c \<Longrightarrow> ctx_inv R (fork_inherit R pc c)"
  using unat_packed_tier [of "packed_info pc"]
  unfolding fork_inherit_def Let_def fork_packed_def [symmetric]
  by (simp add: ctx_inv_def tier_slice_bound rsvd_zero_bits fork_packed_fields)

section \<open>Properties\<close>

definition example_task :: task_struct where
  "example_task = \<lparr>ts_id = 7, ts_flags = 0, ts_static_prio = 120, ts_comm = ''game'',
     ts_cpus_ptr = (\<lambda>cpu. True), ts_real_parent = Some 3\<rparr>"

text \<open>
  Looking up a context returns an existing one untouched, never creates one unless asked, and
  reports a failed allocation as no context with nothing stored. A created context is seeded
  from the nice value: its average classifies to its own tier, it is a new flow with full deficit,
  holds no lock, has no pending futex operation, and satisfies the context invariant.
\<close>

theorem get_task_ctx_seeds:
  "case task_ctx s (ts_id p) of
     Some c \<Rightarrow> get_task_ctx R alloc_ok p create s = (Some c, s)
   | None \<Rightarrow> (if create \<and> alloc_ok
       then (\<exists>c. get_task_ctx R alloc_ok p create s = (Some c, s\<lparr>task_ctx := (task_ctx s)(ts_id p \<mapsto> c)\<rparr>)
              \<and> seeded R (ts_static_prio p) c)
       else get_task_ctx R alloc_ok p create s = (None, s))"
proof (cases "task_ctx s (ts_id p)")
  case None
  obtain r s' where "alloc_task_ctx_cold R True p s = (r, s')" by (metis prod.exhaust)
  from alloc_seeded [OF this] this show ?thesis
    using None by (auto simp: get_task_ctx_def alloc_task_ctx_cold_def)
qed (simp add: get_task_ctx_def)

text \<open>
  An exec restarts classification from the nice value: tier, matching average, natural slice,
  empty history and stability, no telemetry or credit, while the deficit and every bit of
  \<open>packed_info\<close> below the tier are kept. The burst accumulator is kept too.
\<close>

theorem exec_restarts_classification:
  assumes "task_ctx s (ts_id p) = Some c"
  shows "\<exists>c'. imperator_init_task R p False s = (0, s\<lparr>task_ctx := (task_ctx s)(ts_id p \<mapsto> c')\<rparr>)
    \<and> ctx_tier c' = init_tier_of_prio (ts_static_prio p)
    \<and> hysteresis_tier (ctx_tier c') (avg_runtime_us c') = ctx_tier c' \<and> deficit_us c' = deficit_us c
    \<and> packed_stable (packed_info c') = 0 \<and> next_slice c' = tier_slice R (ctx_tier c')
    \<and> overrun_count c' = 0 \<and> reclass_counter c' = 0 \<and> lock_skip_count c' = 0
    \<and> jitter_ewma_us c' = 0 \<and> burst_credit c' = 0 \<and> enqueue_time c' = 0 \<and> sleep_entry_time c' = 0
    \<and> (\<forall>n < 28. bit (packed_info c') n = bit (packed_info c) n)
    \<and> burst_acc_us c' = burst_acc_us c"
proof -
  let ?c = "exec_reset R (ts_static_prio p) c" and ?t = "init_tier_of_prio (ts_static_prio p)"
  have t: "ctx_tier ?c = ?t" and st: "packed_stable (packed_info ?c) = 0"
    using unat_init_tier [of "ts_static_prio p"]
    by (simp_all add: exec_reset_eq ctx_tier_def packed_tier_put packed_stable_put)
  have low: "bit (packed_info ?c) n = bit (packed_info c) n" if "n < 28" for n
    using that unat_init_tier by (simp add: exec_reset_eq put_low_bits)
  have "avg_runtime_us ?c = init_avg_of_tier ?t"
    by (simp add: exec_reset_eq avg_runtime_us_def)
  then have agree: "hysteresis_tier (ctx_tier ?c) (avg_runtime_us ?c) = ctx_tier ?c"
    using init_avg_agrees t by simp
  have "imperator_init_task R p False s = (0, s\<lparr>task_ctx := (task_ctx s)(ts_id p \<mapsto> ?c)\<rparr>)"
    using assms by (simp add: imperator_init_task_def upd_ctx_def)
  with t st low agree show ?thesis
    by (intro exI [of _ ?c]) (simp add: exec_reset_eq deficit_us_def)
qed

theorem exec_restarts_classification_witness:
  "\<exists>c'. imperator_init_task rodata_default example_task False (bss_zero\<lparr>task_ctx := [7 \<mapsto> example_ctx]\<rparr>) =
       (0, bss_zero\<lparr>task_ctx := [7 \<mapsto> c']\<rparr>) \<and> ctx_tier c' = 1 \<and> next_slice c' = 2000000"
proof -
  have "tier_slice rodata_default 1 = 2000000"
    by (simp add: tier_slice_def rodata_default_def tier_cfg_def tier_configs_default_def CAKE_TIER_IDX_def)
  then show ?thesis
    using exec_restarts_classification
        [of "bss_zero\<lparr>task_ctx := [7 \<mapsto> example_ctx]\<rparr>" example_task example_ctx rodata_default]
    by (auto simp: example_task_def init_tier_of_prio_def)
qed

text \<open>
  A forked task whose context exists starts in its parent's tier with that tier's slice, half
  the parent's average and a full deficit, and inherits no stability, flag, telemetry or credit.
\<close>

theorem fork_inherits_class:
  assumes "task_ctx s (ts_id p) = Some c" "ts_real_parent p = Some q" "task_ctx s q = Some pc"
  shows "\<exists>c'. imperator_init_task R p True s = (0, s\<lparr>task_ctx := (task_ctx s)(ts_id p \<mapsto> c')\<rparr>)
    \<and> ctx_tier c' = ctx_tier pc \<and> unat (avg_runtime_us c') = unat (avg_runtime_us pc) div 2
    \<and> deficit_us c' = init_deficit R \<and> next_slice c' = tier_slice R (ctx_tier pc)
    \<and> packed_stable (packed_info c') = packed_stable (packed_info c)
    \<and> (\<forall>n < 28. bit (packed_info c') n = bit (packed_info c) n)
    \<and> jitter_ewma_us c' = 0 \<and> burst_credit c' = 0 \<and> enqueue_time c' = 0 \<and> sleep_entry_time c' = 0"
proof -
  let ?c = "fork_inherit R pc c"
  have eq: "?c = c\<lparr>deficit_avg_fused := PACK_DEFICIT_AVG (init_deficit R) (drop_bit 1 (avg_runtime_us pc)),
      packed_info := fork_packed (ctx_tier pc) (packed_info c), next_slice := tier_slice R (ctx_tier pc),
      enqueue_time := 0, jitter_ewma_us := 0, burst_credit := 0, sleep_entry_time := 0\<rparr>"
    by (simp add: fork_inherit_def Let_def fork_packed_def ctx_tier_def avg_runtime_us_def)
  have "imperator_init_task R p True s = (0, s\<lparr>task_ctx := (task_ctx s)(ts_id p \<mapsto> ?c)\<rparr>)"
    using assms by (simp add: imperator_init_task_def upd_ctx_def)
  moreover have "unat (drop_bit 1 (avg_runtime_us pc)) = unat (avg_runtime_us pc) div 2"
    using unat_drop_bit [of 1 "avg_runtime_us pc"] by simp
  moreover note fork_packed_fields [OF unat_ctx_tier [of pc]]
  ultimately show ?thesis
    by (intro exI [of _ ?c])
       (simp add: eq ctx_tier_def avg_runtime_us_def deficit_us_def)
qed

theorem fork_inherits_class_witness:
  "\<exists>c'. imperator_init_task rodata_default example_task True
         (bss_zero\<lparr>task_ctx := [7 \<mapsto> example_ctx\<lparr>packed_info := 0x01000000\<rparr>, 3 \<mapsto> example_ctx]\<rparr>)
       = (0, bss_zero\<lparr>task_ctx := [7 \<mapsto> c', 3 \<mapsto> example_ctx]\<rparr>)
     \<and> ctx_tier c' = 1 \<and> unat (avg_runtime_us c') = 500"
  using fork_inherits_class
      [of "bss_zero\<lparr>task_ctx := [7 \<mapsto> example_ctx\<lparr>packed_info := 0x01000000\<rparr>, 3 \<mapsto> example_ctx]\<rparr>"
          example_task "example_ctx\<lparr>packed_info := 0x01000000\<rparr>" 3 example_ctx rodata_default]
  by (fastforce simp: example_task_def fun_upd_twist)

text \<open>
  \<open>imperator_init_task\<close> never creates a context: run before \<open>imperator_enable\<close> has allocated
  one it changes nothing, on exec and on fork, and the context that enable then creates is the
  one its own nice value seeds, whatever class the parent has.
\<close>

theorem init_task_before_enable_noop:
  assumes "task_ctx s (ts_id p) = None"
  shows "imperator_init_task R p fork s = (0, s)
    \<and> (\<exists>c. imperator_enable R True p s = (0, s\<lparr>task_ctx := (task_ctx s)(ts_id p \<mapsto> c)\<rparr>)
          \<and> seeded R (ts_static_prio p) c)"
proof -
  obtain r s' where a: "alloc_task_ctx_cold R True p s = (r, s')" by (metis prod.exhaust)
  then have "imperator_enable R True p s = (0, s')"
    using assms by (simp add: imperator_enable_def get_task_ctx_def)
  moreover have "imperator_init_task R p fork s = (0, s)"
    using assms by (simp add: imperator_init_task_def split: option.split)
  ultimately show ?thesis using alloc_seeded [OF a] by auto
qed

theorem init_task_before_enable_noop_witness:
  "imperator_init_task rodata_default example_task True (bss_zero\<lparr>task_ctx := [3 \<mapsto> example_ctx]\<rparr>)
   = (0, bss_zero\<lparr>task_ctx := [3 \<mapsto> example_ctx]\<rparr>)"
  using init_task_before_enable_noop [of "bss_zero\<lparr>task_ctx := [3 \<mapsto> example_ctx]\<rparr>" example_task]
  by (simp add: example_task_def)

end
