(* ===== verification/Lock_Holder.thy ===== *)
theory Lock_Holder
  imports Lifecycle
begin

text \<open>
  \<open>src/src/bpf/lock.bpf.c\<close>: the futex probes that mark a task as lock holder. The fexit probes act on
  the return value of one kernel function each; the tracepoint fallback records the futex
  operation of a task in \<open>pending_futex_op\<close> at syscall entry and acts on it at exit. Every
  handler takes the current task (\<open>None\<close> when the kernel has none).
\<close>

section \<open>Setting and clearing the flag\<close>

definition set_lock_holder :: "tid option \<Rightarrow> sched \<Rightarrow> sched" where
  "set_lock_holder cur s =
     (case cur of
        None \<Rightarrow> s
      | Some p \<Rightarrow> (case task_ctx s p of
          None \<Rightarrow> s
        | Some tctx \<Rightarrow>
            upd_ctx p (\<lambda>c. c\<lparr>packed_info := set_flag CAKE_FLAG_LOCK_HOLDER (packed_info c)\<rparr>) s))"

definition clear_lock_holder :: "tid option \<Rightarrow> sched \<Rightarrow> sched" where
  "clear_lock_holder cur s =
     (case cur of
        None \<Rightarrow> s
      | Some p \<Rightarrow> (case task_ctx s p of
          None \<Rightarrow> s
        | Some tctx \<Rightarrow>
            (let s = upd_ctx p (\<lambda>c. c\<lparr>packed_info := clear_flag CAKE_FLAG_LOCK_HOLDER (packed_info c)\<rparr>) s
             in upd_ctx p (\<lambda>c. c\<lparr>lock_skip_count := 0\<rparr>) s)))"

section \<open>fexit probes\<close>

definition imperator_fexit_futex_wait :: "tid option \<Rightarrow> s32 \<Rightarrow> sched \<Rightarrow> sched" where
  "imperator_fexit_futex_wait cur ret s = (if ret = 0 then set_lock_holder cur s else s)"

definition imperator_fexit_futex_wait_requeue_pi :: "tid option \<Rightarrow> s32 \<Rightarrow> sched \<Rightarrow> sched" where
  "imperator_fexit_futex_wait_requeue_pi cur ret s = (if ret = 0 then set_lock_holder cur s else s)"

definition imperator_fexit_futex_lock_pi :: "tid option \<Rightarrow> s32 \<Rightarrow> sched \<Rightarrow> sched" where
  "imperator_fexit_futex_lock_pi cur ret s = (if ret = 0 then set_lock_holder cur s else s)"

definition imperator_fexit_futex_trylock_pi :: "tid option \<Rightarrow> s32 \<Rightarrow> sched \<Rightarrow> sched" where
  "imperator_fexit_futex_trylock_pi cur ret s = (if ret = 0 then set_lock_holder cur s else s)"

definition imperator_fexit_futex_wake :: "tid option \<Rightarrow> s32 \<Rightarrow> sched \<Rightarrow> sched" where
  "imperator_fexit_futex_wake cur ret s = (if sint ret \<ge> 0 then clear_lock_holder cur s else s)"

definition imperator_fexit_futex_wake_op :: "tid option \<Rightarrow> s32 \<Rightarrow> sched \<Rightarrow> sched" where
  "imperator_fexit_futex_wake_op cur ret s = (if sint ret \<ge> 0 then clear_lock_holder cur s else s)"

definition imperator_fexit_futex_unlock_pi :: "tid option \<Rightarrow> s32 \<Rightarrow> sched \<Rightarrow> sched" where
  "imperator_fexit_futex_unlock_pi cur ret s = (if ret = 0 then clear_lock_holder cur s else s)"

section \<open>Tracepoint fallback\<close>

abbreviation (input) CAKE_FUTEX_WAIT :: s32 where "CAKE_FUTEX_WAIT \<equiv> 0"
abbreviation (input) CAKE_FUTEX_WAKE :: s32 where "CAKE_FUTEX_WAKE \<equiv> 1"
abbreviation (input) CAKE_FUTEX_WAKE_OP :: s32 where "CAKE_FUTEX_WAKE_OP \<equiv> 5"
abbreviation (input) CAKE_FUTEX_LOCK_PI :: s32 where "CAKE_FUTEX_LOCK_PI \<equiv> 6"
abbreviation (input) CAKE_FUTEX_UNLOCK_PI :: s32 where "CAKE_FUTEX_UNLOCK_PI \<equiv> 7"
abbreviation (input) CAKE_FUTEX_TRYLOCK_PI :: s32 where "CAKE_FUTEX_TRYLOCK_PI \<equiv> 8"
abbreviation (input) CAKE_FUTEX_WAIT_BITSET :: s32 where "CAKE_FUTEX_WAIT_BITSET \<equiv> 9"
abbreviation (input) CAKE_FUTEX_WAKE_BITSET :: s32 where "CAKE_FUTEX_WAKE_BITSET \<equiv> 10"
abbreviation (input) CAKE_FUTEX_WAIT_REQUEUE_PI :: s32 where "CAKE_FUTEX_WAIT_REQUEUE_PI \<equiv> 11"
abbreviation (input) CAKE_FUTEX_LOCK_PI2 :: s32 where "CAKE_FUTEX_LOCK_PI2 \<equiv> 13"
abbreviation (input) CAKE_FUTEX_PRIVATE_FLAG :: s32 where "CAKE_FUTEX_PRIVATE_FLAG \<equiv> 128"
abbreviation (input) CAKE_FUTEX_CLOCK_RT :: s32 where "CAKE_FUTEX_CLOCK_RT \<equiv> 256"

definition CAKE_FUTEX_CMD_MASK :: s32 where
  "CAKE_FUTEX_CMD_MASK = NOT (CAKE_FUTEX_PRIVATE_FLAG OR CAKE_FUTEX_CLOCK_RT)"

definition imperator_tp_enter_futex :: "tid option \<Rightarrow> s32 \<Rightarrow> sched \<Rightarrow> sched" where
  "imperator_tp_enter_futex cur fop s =
     (case cur of
        None \<Rightarrow> s
      | Some p \<Rightarrow> (case task_ctx s p of
          None \<Rightarrow> s
        | Some tctx \<Rightarrow> upd_ctx p (\<lambda>c. c\<lparr>pending_futex_op := ucast fop\<rparr>) s))"

definition exit_futex_switch :: "tid option \<Rightarrow> s32 \<Rightarrow> 64 word \<Rightarrow> sched \<Rightarrow> sched" where
  \<comment> \<open>the \<open>switch (cmd)\<close> of the exit handler\<close>
  "exit_futex_switch cur cmd ret s =
     (if cmd \<in> {CAKE_FUTEX_WAIT, CAKE_FUTEX_WAIT_BITSET, CAKE_FUTEX_WAIT_REQUEUE_PI}
      then (if ret = 0 then set_lock_holder cur s else s)
      else if cmd \<in> {CAKE_FUTEX_WAKE, CAKE_FUTEX_WAKE_BITSET, CAKE_FUTEX_WAKE_OP}
      then (if sint ret \<ge> 0 then clear_lock_holder cur s else s)
      else if cmd \<in> {CAKE_FUTEX_LOCK_PI, CAKE_FUTEX_LOCK_PI2, CAKE_FUTEX_TRYLOCK_PI}
      then (if ret = 0 then set_lock_holder cur s else s)
      else if cmd = CAKE_FUTEX_UNLOCK_PI
      then (if ret = 0 then clear_lock_holder cur s else s)
      else s)"

definition imperator_tp_exit_futex :: "tid option \<Rightarrow> 64 word \<Rightarrow> sched \<Rightarrow> sched" where
  "imperator_tp_exit_futex cur ret s =
     (case cur of
        None \<Rightarrow> s
      | Some p \<Rightarrow> (case task_ctx s p of
          None \<Rightarrow> s
        | Some tctx \<Rightarrow>
            if pending_futex_op tctx = CAKE_FUTEX_OP_UNSET then s
            else (let cmd = (ucast (pending_futex_op tctx) :: s32) AND CAKE_FUTEX_CMD_MASK;
                      s = exit_futex_switch cur cmd ret s
                  in upd_ctx p (\<lambda>c. c\<lparr>pending_futex_op := CAKE_FUTEX_OP_UNSET\<rparr>) s)))"

definition imperator_tp_exit_futex_wait :: "tid option \<Rightarrow> 64 word \<Rightarrow> sched \<Rightarrow> sched" where
  "imperator_tp_exit_futex_wait cur ret s = (if ret = 0 then set_lock_holder cur s else s)"

definition imperator_tp_exit_futex_wake :: "tid option \<Rightarrow> 64 word \<Rightarrow> sched \<Rightarrow> sched" where
  "imperator_tp_exit_futex_wake cur ret s = (if sint ret \<ge> 0 then clear_lock_holder cur s else s)"

section \<open>Storage algebra\<close>

lemma task_ctx_upd_ctx [simp]:
  "task_ctx (upd_ctx p f s) q = (if q = p then map_option f (task_ctx s p) else task_ctx s q)"
  by (simp add: upd_ctx_def)

lemma upd_ctx_None: "task_ctx s p = None \<Longrightarrow> upd_ctx p f s = s"
  by (cases s) (auto simp: upd_ctx_def fun_upd_idem)

lemma upd_ctx_twice [simp]: "upd_ctx p g (upd_ctx p f s) = upd_ctx p (\<lambda>c. g (f c)) s"
  by (simp add: upd_ctx_def option.map_comp comp_def)

lemma upd_ctx_id: "(\<And>c. task_ctx s p = Some c \<Longrightarrow> f c = c) \<Longrightarrow> upd_ctx p f s = s"
  by (cases s; cases "task_ctx s p") (auto simp: upd_ctx_def fun_upd_idem)

lemma upd_ctx_cong:
  "(\<And>c. task_ctx s p = Some c \<Longrightarrow> f c = g c) \<Longrightarrow> upd_ctx p f s = upd_ctx p g s"
  by (cases "task_ctx s p") (simp_all add: upd_ctx_def)

lemma upd_ctx_frame [frame_simps]:
  "llc_cpu_mask (upd_ctx p f s) = llc_cpu_mask s" "mega_mailbox (upd_ctx p f s) = mega_mailbox s"
  "llc_nonempty (upd_ctx p f s) = llc_nonempty s" "tier_cpu_mask (upd_ctx p f s) = tier_cpu_mask s"
  "dummy_idle (upd_ctx p f s) = dummy_idle s" "global_stats (upd_ctx p f s) = global_stats s"
  "llc_etd_cost (upd_ctx p f s) = llc_etd_cost s" "kcalls (upd_ctx p f s) = kcalls s"
  by (simp_all add: upd_ctx_def)

section \<open>The flag as an abstract automaton\<close>

text \<open>
  A task is described by whether it is marked as holder and by the futex operation it is inside
  of. The handlers implement this automaton.
\<close>

datatype futex_effect = Acquires | Releases_nonneg | Releases_zero | No_effect

fun futex_effect_of :: "nat \<Rightarrow> futex_effect" where
  \<comment> \<open>what a futex command does to lock ownership, by command number\<close>
  "futex_effect_of cmd =
     (if cmd \<in> {0, 6, 8, 9, 11, 13} then Acquires
      else if cmd \<in> {1, 5, 10} then Releases_nonneg
      else if cmd = 7 then Releases_zero else No_effect)"

fun effect_step :: "futex_effect \<Rightarrow> int \<Rightarrow> bool \<Rightarrow> bool" where
  "effect_step Acquires ret h = (ret = 0 \<or> h)"
| "effect_step Releases_nonneg ret h = (if 0 \<le> ret then False else h)"
| "effect_step Releases_zero ret h = (if ret = 0 then False else h)"
| "effect_step No_effect ret h = h"

definition lock_view :: "imperator_task_ctx \<Rightarrow> bool \<times> nat option" where
  "lock_view c = (has_flag CAKE_FLAG_LOCK_HOLDER (packed_info c),
     if pending_futex_op c = CAKE_FUTEX_OP_UNSET then None else Some (unat (pending_futex_op c) mod 128))"

datatype futex_event = Sys_enter s32 | Sys_exit "64 word"

fun futex_spec :: "futex_event \<Rightarrow> bool \<times> nat option \<Rightarrow> bool \<times> nat option" where
  "futex_spec (Sys_enter fop) (h, pend) =
     (h, if unat fop mod 256 = 255 then None else Some (unat fop mod 128))"
| "futex_spec (Sys_exit ret) (h, None) = (h, None)"
| "futex_spec (Sys_exit ret) (h, Some cmd) = (effect_step (futex_effect_of cmd) (sint ret) h, None)"

fun futex_handler :: "tid option \<Rightarrow> futex_event \<Rightarrow> sched \<Rightarrow> sched" where
  "futex_handler cur (Sys_enter fop) s = imperator_tp_enter_futex cur fop s"
| "futex_handler cur (Sys_exit ret) s = imperator_tp_exit_futex cur ret s"

declare futex_effect_of.simps [simp del]

section \<open>The handlers on one context\<close>

definition hold :: "imperator_task_ctx \<Rightarrow> imperator_task_ctx" where
  "hold c = c\<lparr>packed_info := set_flag CAKE_FLAG_LOCK_HOLDER (packed_info c)\<rparr>"

definition release :: "imperator_task_ctx \<Rightarrow> imperator_task_ctx" where
  "release c = c\<lparr>packed_info := clear_flag CAKE_FLAG_LOCK_HOLDER (packed_info c), lock_skip_count := 0\<rparr>"

fun apply_effect :: "futex_effect \<Rightarrow> int \<Rightarrow> imperator_task_ctx \<Rightarrow> imperator_task_ctx" where
  "apply_effect Acquires ret c = (if ret = 0 then hold c else c)"
| "apply_effect Releases_nonneg ret c = (if 0 \<le> ret then release c else c)"
| "apply_effect Releases_zero ret c = (if ret = 0 then release c else c)"
| "apply_effect No_effect ret c = c"

lemma set_lock_holder_eq: "set_lock_holder (Some p) s = upd_ctx p hold s"
  by (auto simp: set_lock_holder_def hold_def [abs_def] upd_ctx_None split: option.split)

lemma clear_lock_holder_eq: "clear_lock_holder (Some p) s = upd_ctx p release s"
  by (auto simp: clear_lock_holder_def release_def [abs_def] upd_ctx_None Let_def split: option.split)

lemma no_current_task [simp]:
  "set_lock_holder None s = s" "clear_lock_holder None s = s"
  "imperator_tp_enter_futex None fop s = s" "imperator_tp_exit_futex None ret s = s"
  by (simp_all add: set_lock_holder_def clear_lock_holder_def imperator_tp_enter_futex_def
      imperator_tp_exit_futex_def)

lemma unat_futex_cmd: "unat ((ucast (x :: u8) :: s32) AND CAKE_FUTEX_CMD_MASK) = unat x mod 128"
proof -
  have m: "CAKE_FUTEX_CMD_MASK = NOT (push_bit 7 3)"
    by (simp add: CAKE_FUTEX_CMD_MASK_def)
  have 3: "(3 :: s32) = mask 2" by (simp add: mask_eq_exp_minus_1)
  have "(ucast x :: s32) AND CAKE_FUTEX_CMD_MASK = ucast (take_bit 7 x)"
    unfolding m 3
    by (rule bit_word_eqI) (auto simp: bit_and_iff bit_not_iff bit_push_bit_iff bit_unsigned_iff
        bit_mask_iff bit_take_bit_iff simp del: push_bit_mask_eq dest: bit_imp_le_length)
  moreover have "unat (ucast (take_bit 7 x) :: s32) = unat x mod 2 ^ 7"
  proof -
    have "unat (take_bit 7 x) = unat x mod 2 ^ 7"
      by (simp only: unsigned_take_bit_eq take_bit_eq_mod [of 7 "unat x"])
    moreover from this have "unat (take_bit 7 x) < 2 ^ LENGTH(32)" by simp
    ultimately show ?thesis by (metis unat_ucast_id)
  qed
  ultimately show ?thesis by simp
qed

lemma exit_futex_switch_eq:
  "exit_futex_switch (Some p) cmd ret s =
     upd_ctx p (apply_effect (futex_effect_of (unat cmd)) (sint ret)) s"
proof -
  have ret: "ret = 0 \<longleftrightarrow> sint ret = 0" by (metis signed_0 signed_word_eqI)
  have id: "upd_ctx p (\<lambda>c. c) s = s" by (rule upd_ctx_id) simp
  show ?thesis
    unfolding exit_futex_switch_def set_lock_holder_eq clear_lock_holder_eq ret
    by (simp add: word_unat_eq_iff id [unfolded upd_ctx_def] futex_effect_of.simps cong: upd_ctx_cong)
       (auto simp: id)
qed

definition enter_ctx :: "s32 \<Rightarrow> imperator_task_ctx \<Rightarrow> imperator_task_ctx" where
  "enter_ctx fop c = c\<lparr>pending_futex_op := ucast fop\<rparr>"

definition exit_ctx :: "64 word \<Rightarrow> imperator_task_ctx \<Rightarrow> imperator_task_ctx" where
  "exit_ctx ret c =
     (if pending_futex_op c = CAKE_FUTEX_OP_UNSET then c
      else (apply_effect (futex_effect_of (unat (pending_futex_op c) mod 128)) (sint ret) c)
             \<lparr>pending_futex_op := CAKE_FUTEX_OP_UNSET\<rparr>)"

lemma tp_enter_eq: "imperator_tp_enter_futex (Some p) fop s = upd_ctx p (enter_ctx fop) s"
  by (auto simp: imperator_tp_enter_futex_def enter_ctx_def [abs_def] upd_ctx_None split: option.split)

lemma tp_exit_eq: "imperator_tp_exit_futex (Some p) ret s = upd_ctx p (exit_ctx ret) s"
proof (cases "task_ctx s p")
  case None
  then show ?thesis by (simp add: imperator_tp_exit_futex_def upd_ctx_None)
next
  case (Some c)
  show ?thesis
  proof (cases "pending_futex_op c = CAKE_FUTEX_OP_UNSET")
    case True
    with Some have "upd_ctx p (exit_ctx ret) s = s"
      by (intro upd_ctx_id) (simp add: exit_ctx_def)
    with Some True show ?thesis by (simp add: imperator_tp_exit_futex_def)
  next
    case False
    then show ?thesis
      using Some unfolding imperator_tp_exit_futex_def
      by (simp add: Let_def exit_futex_switch_eq unat_futex_cmd) (rule upd_ctx_cong, simp add: exit_ctx_def)
  qed
qed

lemma pending_apply_effect [simp]: "pending_futex_op (apply_effect e r c) = pending_futex_op c"
  by (cases e) (simp_all add: hold_def release_def)

lemma flag_apply_effect [simp]:
  "has_flag CAKE_FLAG_LOCK_HOLDER (packed_info (apply_effect e r c)) =
     effect_step e r (has_flag CAKE_FLAG_LOCK_HOLDER (packed_info c))"
  by (cases e) (simp_all add: hold_def release_def flag_simps)

lemma unat_ucast_u8: "unat (ucast (x :: s32) :: u8) = unat x mod 256"
  by (simp add: unsigned_ucast_eq take_bit_eq_mod)

lemma lock_view_enter: "lock_view (enter_ctx fop c) = futex_spec (Sys_enter fop) (lock_view c)"
proof -
  have "(ucast fop :: u8) = 255 \<longleftrightarrow> unat fop mod 256 = 255"
    by (simp add: word_unat_eq_iff unat_ucast_u8)
  moreover have "unat fop mod 256 mod 128 = unat fop mod 128"
    by (rule mod_mod_cancel) simp
  ultimately show ?thesis by (simp add: lock_view_def enter_ctx_def unat_ucast_u8)
qed

lemma lock_view_exit: "lock_view (exit_ctx ret c) = futex_spec (Sys_exit ret) (lock_view c)"
  by (simp add: lock_view_def exit_ctx_def)

definition same_but_lock :: "imperator_task_ctx \<Rightarrow> imperator_task_ctx \<Rightarrow> bool" where
  \<comment> \<open>the contexts differ in the lock flag, the skip budget and the pending operation at most\<close>
  "same_but_lock c c' \<longleftrightarrow>
     c'\<lparr>packed_info := clear_flag CAKE_FLAG_LOCK_HOLDER (packed_info c'), lock_skip_count := 0,
        pending_futex_op := 0\<rparr>
     = c\<lparr>packed_info := clear_flag CAKE_FLAG_LOCK_HOLDER (packed_info c), lock_skip_count := 0,
        pending_futex_op := 0\<rparr>"

lemma same_but_lock_handlers:
  "same_but_lock c (hold c)" "same_but_lock c (release c)" "same_but_lock c (enter_ctx fop c)"
  "same_but_lock c (exit_ctx ret c)"
proof -
  show e: "same_but_lock c (hold c)" "same_but_lock c (release c)" "same_but_lock c (enter_ctx fop c)"
    by (simp_all add: same_but_lock_def hold_def release_def enter_ctx_def lock_flag.clear_set
        lock_flag.clear_twice)
  have "same_but_lock c (apply_effect e r c\<lparr>pending_futex_op := x\<rparr>)" for e r x
    using \<open>same_but_lock c (hold c)\<close> \<open>same_but_lock c (release c)\<close>
    by (cases e) (simp_all add: same_but_lock_def)
  then show "same_but_lock c (exit_ctx ret c)"
    by (simp add: exit_ctx_def same_but_lock_def)
qed

lemma ctx_inv_lock [wf_intros]:
  assumes "ctx_inv R c"
  shows "ctx_inv R (hold c)" "ctx_inv R (release c)" "ctx_inv R (enter_ctx fop c)"
    "ctx_inv R (exit_ctx ret c)"
proof -
  show h: "ctx_inv R (hold c)" and r: "ctx_inv R (release c)" and "ctx_inv R (enter_ctx fop c)"
    using assms by (simp_all add: ctx_inv_def hold_def release_def enter_ctx_def wf_intros flag_simps)
  have "ctx_inv R (apply_effect e v c\<lparr>pending_futex_op := x\<rparr>)" for e v x
    using h r assms by (cases e) (simp_all add: ctx_inv_def)
  then show "ctx_inv R (exit_ctx ret c)"
    using assms by (simp add: exit_ctx_def)
qed

section \<open>Runs of events\<close>

lemma futex_handler_eq:
  "futex_handler (Some p) e s =
     upd_ctx p (case e of Sys_enter fop \<Rightarrow> enter_ctx fop | Sys_exit ret \<Rightarrow> exit_ctx ret) s"
  by (cases e) (simp_all add: tp_enter_eq tp_exit_eq)

lemma same_but_lock_trans: "same_but_lock a b \<Longrightarrow> same_but_lock b c \<Longrightarrow> same_but_lock a c"
  by (simp add: same_but_lock_def)

lemma futex_run:
  assumes "task_ctx s p = Some c"
  shows "\<exists>c'. fold (futex_handler (Some p)) es s = s\<lparr>task_ctx := (task_ctx s)(p \<mapsto> c')\<rparr>
    \<and> lock_view c' = fold futex_spec es (lock_view c) \<and> same_but_lock c c'"
  using assms
proof (induction es arbitrary: s c)
  case Nil
  then show ?case by (intro exI [of _ c]) (cases s, simp add: same_but_lock_def fun_upd_idem)
next
  case (Cons e es)
  let ?f = "case e of Sys_enter fop \<Rightarrow> enter_ctx fop | Sys_exit ret \<Rightarrow> exit_ctx ret"
  have s1: "futex_handler (Some p) e s = s\<lparr>task_ctx := (task_ctx s)(p \<mapsto> ?f c)\<rparr>"
    using Cons.prems by (simp add: futex_handler_eq upd_ctx_def)
  have v: "lock_view (?f c) = futex_spec e (lock_view c)" and sb: "same_but_lock c (?f c)"
    by (cases e; simp only: futex_event.case lock_view_enter lock_view_exit same_but_lock_handlers)+
  define c1 where "c1 = ?f c"
  have "\<exists>c'. fold (futex_handler (Some p)) es (s\<lparr>task_ctx := (task_ctx s)(p \<mapsto> c1)\<rparr>)
      = s\<lparr>task_ctx := (task_ctx s)(p \<mapsto> c')\<rparr>
    \<and> lock_view c' = fold futex_spec es (lock_view c1) \<and> same_but_lock c1 c'"
    using Cons.IH [of "s\<lparr>task_ctx := (task_ctx s)(p \<mapsto> c1)\<rparr>" c1]
    by (simp add: fun_upd_def cong: if_cong)
  then obtain c' where "fold (futex_handler (Some p)) es (s\<lparr>task_ctx := (task_ctx s)(p \<mapsto> ?f c)\<rparr>)
      = s\<lparr>task_ctx := (task_ctx s)(p \<mapsto> c')\<rparr>"
    "lock_view c' = fold futex_spec es (lock_view (?f c))" "same_but_lock (?f c) c'"
    unfolding c1_def by blast
  with v sb show ?case
    by (intro exI [of _ c']) (auto simp: s1 fun_upd_def intro: same_but_lock_trans)
qed

section \<open>Properties\<close>

definition fexit_table :: "(s32 \<times> (tid option \<Rightarrow> s32 \<Rightarrow> sched \<Rightarrow> sched)) list" where
  \<comment> \<open>the kernel function each futex command ends in, as its fexit probe\<close>
  "fexit_table =
     [(CAKE_FUTEX_WAIT, imperator_fexit_futex_wait), (CAKE_FUTEX_WAIT_BITSET, imperator_fexit_futex_wait),
      (CAKE_FUTEX_WAIT_REQUEUE_PI, imperator_fexit_futex_wait_requeue_pi),
      (CAKE_FUTEX_LOCK_PI, imperator_fexit_futex_lock_pi), (CAKE_FUTEX_LOCK_PI2, imperator_fexit_futex_lock_pi),
      (CAKE_FUTEX_TRYLOCK_PI, imperator_fexit_futex_trylock_pi),
      (CAKE_FUTEX_WAKE, imperator_fexit_futex_wake), (CAKE_FUTEX_WAKE_BITSET, imperator_fexit_futex_wake),
      (CAKE_FUTEX_WAKE_OP, imperator_fexit_futex_wake_op),
      (CAKE_FUTEX_UNLOCK_PI, imperator_fexit_futex_unlock_pi)]"

text \<open>
  C18. The tracepoint handlers implement the lock-holder automaton: over any sequence of futex
  syscall entries and exits of a task, its holder flag and pending operation are those of the
  automaton, and nothing else of its context (the skip budget apart) nor of the state changes.
\<close>

theorem futex_tracepoints_refine:
  assumes "task_ctx s p = Some c"
  shows "\<exists>c'. fold (futex_handler (Some p)) es s = s\<lparr>task_ctx := (task_ctx s)(p \<mapsto> c')\<rparr>
    \<and> lock_view c' = fold futex_spec es (lock_view c) \<and> same_but_lock c c'"
  using assms by (rule futex_run)

theorem futex_tracepoints_refine_witness:
  "\<exists>c'. fold (futex_handler (Some 7)) [Sys_enter 134, Sys_exit 0] (bss_zero\<lparr>task_ctx := [7 \<mapsto> example_ctx]\<rparr>)
      = bss_zero\<lparr>task_ctx := [7 \<mapsto> c']\<rparr> \<and> lock_view c' = (True, None)"
proof -
  have "fold futex_spec [Sys_enter 134, Sys_exit 0] (lock_view example_ctx) = (True, None)"
    by (simp add: lock_view_def futex_effect_of.simps)
  then show ?thesis
    using futex_tracepoints_refine [of "bss_zero\<lparr>task_ctx := [7 \<mapsto> example_ctx]\<rparr>" 7 example_ctx
        "[Sys_enter 134, Sys_exit 0]"] by auto
qed

text \<open>
  The tracepoint fallback covers what the fexit probes cover: for every futex command with a
  probe, with or without the private and clock flags, entry followed by exit has the effect of
  that command's probe and leaves no pending operation; and when both paths are attached the
  result is the same.
\<close>

theorem tracepoints_match_fexit:
  assumes "(cmd, probe) \<in> set fexit_table" "flags \<in> {0, CAKE_FUTEX_PRIVATE_FLAG, CAKE_FUTEX_CLOCK_RT,
      CAKE_FUTEX_PRIVATE_FLAG OR CAKE_FUTEX_CLOCK_RT}"
    and both: "s' = probe (Some p) ret s" and entered: "e = imperator_tp_enter_futex (Some p) (cmd OR flags) s"
  shows "imperator_tp_exit_futex (Some p) (scast ret) e
         = upd_ctx p (\<lambda>c. c\<lparr>pending_futex_op := CAKE_FUTEX_OP_UNSET\<rparr>) s'
    \<and> imperator_tp_exit_futex (Some p) (scast ret) (probe (Some p) ret e)
         = upd_ctx p (\<lambda>c. c\<lparr>pending_futex_op := CAKE_FUTEX_OP_UNSET\<rparr>) s'"
proof -
  let ?f = "apply_effect (futex_effect_of (unat cmd)) (sint ret)"
  have ret: "ret = 0 \<longleftrightarrow> sint ret = 0" by (metis signed_0 signed_word_eqI)
  have id: "upd_ctx p (\<lambda>c. c) s = s" for s by (rule upd_ctx_id) simp
  have probe: "probe (Some p) ret s = upd_ctx p ?f s" for s
    using assms(1)
    by (auto simp: fexit_table_def imperator_fexit_futex_wait_def imperator_fexit_futex_wake_def
        imperator_fexit_futex_wait_requeue_pi_def imperator_fexit_futex_lock_pi_def
        imperator_fexit_futex_trylock_pi_def imperator_fexit_futex_wake_op_def
        imperator_fexit_futex_unlock_pi_def ret set_lock_holder_eq clear_lock_holder_eq
        futex_effect_of.simps id cong: upd_ctx_cong)
  have op: "unat (ucast (cmd OR flags) :: u8) mod 128 = unat cmd" "(ucast (cmd OR flags) :: u8) \<noteq> 255"
    using assms(1,2) by (auto simp: fexit_table_def)
  have sx: "sint (scast ret :: 64 word) = sint ret"
    by (simp add: signed_scast_eq signed_take_bit_int_eq_self sint_greater_eq sint_lt
        order.strict_trans2 [OF sint_lt] order.trans [OF _ sint_greater_eq])
  have once: "exit_ctx (scast ret) (enter_ctx (cmd OR flags) c) = ?f c\<lparr>pending_futex_op := 255\<rparr>" for c
    using op by (cases "futex_effect_of (unat cmd)") (simp_all add: exit_ctx_def enter_ctx_def sx hold_def release_def)
  have twice: "exit_ctx (scast ret) (?f (enter_ctx (cmd OR flags) c)) = ?f c\<lparr>pending_futex_op := 255\<rparr>" for c
    using op by (cases "futex_effect_of (unat cmd)")
      (simp_all add: exit_ctx_def enter_ctx_def sx hold_def release_def lock_flag.set_twice lock_flag.clear_twice)
  show ?thesis
    by (simp add: both entered probe tp_enter_eq tp_exit_eq once twice)
qed

theorem tracepoints_match_fexit_witness:
  "imperator_tp_exit_futex (Some 7) 0
     (imperator_tp_enter_futex (Some 7) 134 (bss_zero\<lparr>task_ctx := [7 \<mapsto> example_ctx]\<rparr>))
   = upd_ctx 7 (\<lambda>c. c\<lparr>pending_futex_op := CAKE_FUTEX_OP_UNSET\<rparr>)
       (imperator_fexit_futex_lock_pi (Some 7) 0 (bss_zero\<lparr>task_ctx := [7 \<mapsto> example_ctx]\<rparr>))"
  using tracepoints_match_fexit [of 6 imperator_fexit_futex_lock_pi 128 _ 7 0, OF _ _ refl refl]
  by (simp add: fexit_table_def)

text \<open>
  A recorded operation is consumed once: after an exit the task has no pending operation, a
  second exit without an entry in between changes nothing, and an exit of a task that never
  entered (a freshly created context) changes nothing.
\<close>

theorem exit_consumes_pending_once:
  assumes "task_ctx s p = Some c"
  shows "(\<exists>c'. task_ctx (imperator_tp_exit_futex (Some p) ret s) p = Some c'
        \<and> pending_futex_op c' = CAKE_FUTEX_OP_UNSET)
    \<and> imperator_tp_exit_futex (Some p) ret2 (imperator_tp_exit_futex (Some p) ret s)
        = imperator_tp_exit_futex (Some p) ret s
    \<and> (pending_futex_op c = CAKE_FUTEX_OP_UNSET \<longrightarrow> imperator_tp_exit_futex (Some p) ret s = s)"
proof -
  have unset: "pending_futex_op (exit_ctx ret c) = CAKE_FUTEX_OP_UNSET" for c
    by (simp add: exit_ctx_def)
  then have "exit_ctx ret2 (exit_ctx ret c) = exit_ctx ret c" for c
    unfolding exit_ctx_def [of ret2] by simp
  moreover have "upd_ctx p (exit_ctx ret) s = s" if "pending_futex_op c = CAKE_FUTEX_OP_UNSET"
    using that assms by (intro upd_ctx_id) (simp add: exit_ctx_def)
  ultimately show ?thesis
    using assms unset by (simp add: tp_exit_eq)
qed

theorem exit_consumes_pending_once_witness:
  "imperator_tp_exit_futex (Some 7) 0 (bss_zero\<lparr>task_ctx := [7 \<mapsto> example_ctx]\<rparr>)
   = bss_zero\<lparr>task_ctx := [7 \<mapsto> example_ctx]\<rparr>"
  using exit_consumes_pending_once [of "bss_zero\<lparr>task_ctx := [7 \<mapsto> example_ctx]\<rparr>" 7 example_ctx]
  by (simp add: example_ctx_def)

end
