(* ===== verification/Run_Stop.thy ===== *)
theory Run_Stop
  imports Lock_Holder
begin

text \<open>
  \<open>imperator_running\<close> and \<open>imperator_stopping\<close> of \<open>src/src/bpf/imperator.bpf.c\<close>: the context-switch
  handlers. Running stamps the start, folds the dispatch latency into the jitter average,
  publishes the tier in the CPU's mailbox and sets the CPU's bit in \<open>tier_cpu_mask\<close>; stopping
  clears that bit for the tier the task ran at and then reclassifies.
\<close>

section \<open>Running\<close>

definition put_ctx :: "tid \<Rightarrow> imperator_task_ctx \<Rightarrow> sched \<Rightarrow> sched" where
  "put_ctx p c s = s\<lparr>task_ctx := (task_ctx s)(p \<mapsto> c)\<rparr>"

definition jitter_ewma :: "u16 \<Rightarrow> u32 \<Rightarrow> u16" where
  "jitter_ewma old_ewma lat_ns =
     (let lat_us = drop_bit 10 lat_ns;
          new_ewma = drop_bit 3 (ucast old_ewma * 7 + lat_us)
      in clamp_u16 new_ewma)"

definition dispatch_latency :: "imperator_task_ctx \<Rightarrow> imperator_task_ctx" where
  "dispatch_latency tctx =
     (if enqueue_time tctx \<noteq> 0
      then tctx\<lparr>jitter_ewma_us := jitter_ewma (jitter_ewma_us tctx) (last_run_at tctx - enqueue_time tctx),
                enqueue_time := 0\<rparr>
      else tctx)"

definition publish_running_tier :: "u32 \<Rightarrow> u8 \<Rightarrow> sched \<Rightarrow> sched" where
  "publish_running_tier run_cpu tier s =
     (let cur_flags = mbox_flags (get_mbox run_cpu s);
          new_flags = MBOX_VALID_FLAG OR (cur_flags AND NOT MBOX_TIER_MASK) OR tier
      in if cur_flags \<noteq> new_flags then upd_mbox run_cpu (\<lambda>m. m\<lparr>mbox_flags := new_flags\<rparr>) s else s)"

definition cpu_bit :: "u32 \<Rightarrow> u64" where
  \<comment> \<open>\<open>1ULL << cpu\<close>\<close>
  "cpu_bit cpu = push_bit (unat cpu) 1"

definition set_tier_cpu :: "u8 \<Rightarrow> u32 \<Rightarrow> sched \<Rightarrow> sched" where
  "set_tier_cpu tier cpu s =
     (let i = unat (tier AND 3)
      in s\<lparr>tier_cpu_mask := (tier_cpu_mask s)[i := tier_cpu_mask s ! i OR cpu_bit cpu]\<rparr>)"

definition clear_tier_cpu :: "u8 \<Rightarrow> u32 \<Rightarrow> sched \<Rightarrow> sched" where
  "clear_tier_cpu tier cpu s =
     (let i = unat (tier AND 3)
      in s\<lparr>tier_cpu_mask := (tier_cpu_mask s)[i := tier_cpu_mask s ! i AND NOT (cpu_bit cpu)]\<rparr>)"

definition imperator_running :: "rodata \<Rightarrow> u32 \<Rightarrow> u64 \<Rightarrow> tid \<Rightarrow> sched \<Rightarrow> sched" where
  "imperator_running R smp_id scx_now p s =
     (case task_ctx s p of
        None \<Rightarrow> s
      | Some tctx \<Rightarrow>
          (let tctx1 = tctx\<lparr>last_run_at := ucast scx_now\<rparr>;
               tctx2 = dispatch_latency tctx1;
               s = put_ctx p tctx2 s;
               s = (if enqueue_time tctx1 \<noteq> 0
                    then count_stat R smp_id
                           (\<lambda>st. st\<lparr>nr_jitter_ewma_sum := nr_jitter_ewma_sum st + ucast (jitter_ewma_us tctx2),
                                    nr_jitter_ewma_count := nr_jitter_ewma_count st + 1\<rparr>) s
                    else s);
               run_cpu = smp_id AND 63;
               tier = ucast (CAKE_TIER_IDX (GET_TIER tctx2));
               s = publish_running_tier run_cpu tier s
           in set_tier_cpu tier run_cpu s))"

section \<open>Stopping\<close>

definition imperator_stopping :: "rodata \<Rightarrow> u32 \<Rightarrow> u64 \<Rightarrow> u64 \<Rightarrow> tid \<Rightarrow> bool \<Rightarrow> sched \<Rightarrow> sched" where
  \<comment> \<open>the two reads of the clock, for the sleep stamp and in the classifier, are two arguments\<close>
  "imperator_stopping R smp_id scx_now scx_now2 p runnable s =
     (case task_ctx s p of
        None \<Rightarrow> s
      | Some tctx \<Rightarrow>
          if last_run_at tctx = 0 then s
          else
            (let stop_cpu = smp_id AND 63;
                 stop_tier = ucast (CAKE_TIER_IDX (GET_TIER tctx));
                 s = clear_tier_cpu stop_tier stop_cpu s;
                 tctx = tctx\<lparr>sleep_entry_time := (if \<not> runnable then ucast scx_now else 0)\<rparr>
             in put_ctx p (reclassify_task_cold R scx_now2 runnable tctx) s))"

section \<open>Bits of the CPU masks\<close>

lemma unat_and_63: "unat (x AND 63 :: u32) < 64"
  by (simp add: unat_and_low)

lemma bit_cpu_bit: "unat cpu < 64 \<Longrightarrow> bit (cpu_bit cpu) n \<longleftrightarrow> n = unat cpu"
  by (simp only: cpu_bit_def bit_push_bit_iff bit_1_iff) auto

lemma unat_and_3: "unat (t AND 3) < 4"
  by (simp add: unat_and_low)

lemma and_3_id: "unat t < 4 \<Longrightarrow> unat (t AND 3) = unat t"
  by (simp add: unat_and_low)

definition on_cpu :: "sched \<Rightarrow> nat \<Rightarrow> nat \<Rightarrow> bool" where
  \<comment> \<open>CPU \<open>cpu\<close> is marked as running a task of tier \<open>t\<close>\<close>
  "on_cpu s t cpu \<longleftrightarrow> t < 4 \<and> bit (tier_cpu_mask s ! t) cpu"

text \<open>
  What the other components rely on: marking and unmarking a CPU are exact, so the masks describe
  a partial function from CPUs to tiers as long as every start follows a stop.
\<close>

locale running_marks =
  fixes ok :: "'s \<Rightarrow> bool"
    and on :: "'s \<Rightarrow> nat \<Rightarrow> nat \<Rightarrow> bool"
    and mark :: "u8 \<Rightarrow> u32 \<Rightarrow> 's \<Rightarrow> 's"
    and unmark :: "u8 \<Rightarrow> u32 \<Rightarrow> 's \<Rightarrow> 's"
  assumes ok_mark: "ok s \<Longrightarrow> ok (mark t c s)"
    and ok_unmark: "ok s \<Longrightarrow> ok (unmark t c s)"
    and on_mark: "ok s \<Longrightarrow> unat t < 4 \<Longrightarrow> unat c < 64 \<Longrightarrow>
      on (mark t c s) t' c' \<longleftrightarrow> (t' = unat t \<and> c' = unat c) \<or> on s t' c'"
    and on_unmark: "ok s \<Longrightarrow> unat t < 4 \<Longrightarrow> unat c < 64 \<Longrightarrow>
      on (unmark t c s) t' c' \<longleftrightarrow> \<not> (t' = unat t \<and> c' = unat c) \<and> on s t' c'"
begin

definition agrees :: "'s \<Rightarrow> (nat \<rightharpoonup> nat) \<Rightarrow> bool" where
  "agrees s r \<longleftrightarrow> (\<forall>t c. on s t c \<longleftrightarrow> r c = Some t)"

lemma agrees_start:
  assumes "ok s" "unat t < 4" "unat c < 64" "agrees s r" "r (unat c) = None"
  shows "agrees (mark t c s) (r(unat c \<mapsto> unat t))"
  using assms by (auto simp: agrees_def on_mark)

lemma agrees_stop:
  assumes "ok s" "unat t < 4" "unat c < 64" "agrees s r" "r (unat c) = Some (unat t)"
  shows "agrees (unmark t c s) (r(unat c := None))"
  using assms by (auto simp: agrees_def on_unmark)

lemma agrees_idle_stop:
  assumes "ok s" "unat t < 4" "unat c < 64" "agrees s r" "r (unat c) = None"
  shows "agrees (unmark t c s) r"
  using assms by (auto simp: agrees_def on_unmark)

lemma agrees_tier: "agrees s r \<Longrightarrow> on s t c \<Longrightarrow> r c = Some t"
  by (simp add: agrees_def)

lemma agrees_unique: "agrees s r \<Longrightarrow> on s t c \<Longrightarrow> on s t' c \<Longrightarrow> t = t'"
  by (auto simp: agrees_def)

end

interpretation cpu_marks: running_marks "\<lambda>s. length (tier_cpu_mask s) = 4" on_cpu set_tier_cpu clear_tier_cpu
proof
  fix s :: sched and t :: u8 and c :: u32 and t' c' :: nat
  assume "length (tier_cpu_mask s) = 4" "unat t < 4" "unat c < 64"
  then show "on_cpu (set_tier_cpu t c s) t' c' \<longleftrightarrow> (t' = unat t \<and> c' = unat c) \<or> on_cpu s t' c'"
    "on_cpu (clear_tier_cpu t c s) t' c' \<longleftrightarrow> \<not> (t' = unat t \<and> c' = unat c) \<and> on_cpu s t' c'"
    using bit_imp_le_length [of "tier_cpu_mask s ! unat t" c']
    by (auto simp: on_cpu_def set_tier_cpu_def clear_tier_cpu_def Let_def and_3_id bit_or_iff
        bit_and_iff bit_not_iff bit_cpu_bit nth_list_update)
qed (simp_all add: set_tier_cpu_def clear_tier_cpu_def Let_def)

section \<open>Frames and well-formedness\<close>

lemma sched_wf_emit [wf_intros]: "sched_wf s \<Longrightarrow> sched_wf (emit k s)"
  by (simp add: sched_wf_def emit_def)

lemma sched_wf_put_ctx [wf_intros]: "sched_wf s \<Longrightarrow> sched_wf (put_ctx p c s)"
  by (simp add: sched_wf_def put_ctx_def)

lemma sched_wf_upd_ctx [wf_intros]: "sched_wf s \<Longrightarrow> sched_wf (upd_ctx p f s)"
  by (simp add: sched_wf_def upd_ctx_def)

lemma sched_wf_upd_mbox [wf_intros]: "sched_wf s \<Longrightarrow> sched_wf (upd_mbox cpu f s)"
  by (simp add: sched_wf_def upd_mbox_def)

lemma sched_wf_tier_cpu [wf_intros]:
  "sched_wf s \<Longrightarrow> sched_wf (set_tier_cpu t c s)" "sched_wf s \<Longrightarrow> sched_wf (clear_tier_cpu t c s)"
  by (simp_all add: sched_wf_def set_tier_cpu_def clear_tier_cpu_def Let_def)

lemma sched_wf_llc_mark [wf_intros]: "sched_wf s \<Longrightarrow> sched_wf (llc_mark_nonempty l s)"
  by (simp add: sched_wf_def llc_mark_nonempty_def Let_def)

definition keeps_stat_shape :: "(imperator_stats \<Rightarrow> imperator_stats) \<Rightarrow> bool" where
  "keeps_stat_shape f \<longleftrightarrow> (\<forall>st. length (nr_tier_dispatches (f st)) = length (nr_tier_dispatches st)
     \<and> length (nr_starvation_preempts_tier (f st)) = length (nr_starvation_preempts_tier st))"

lemma get_local_stats_less [simp]: "get_local_stats cpu < 64"
  by (simp add: get_local_stats_def unat_and_63)

lemma sched_wf_count_stat [wf_intros]:
  "sched_wf s \<Longrightarrow> keeps_stat_shape f \<Longrightarrow> sched_wf (count_stat R cpu f s)"
proof -
  assume wf: "sched_wf s" and f: "keeps_stat_shape f"
  let ?st = "global_stats s ! get_local_stats cpu"
  have "?st \<in> set (global_stats s)" using wf by (intro nth_mem) (simp add: sched_wf_def)
  with wf f have "length (nr_tier_dispatches (f ?st)) = 4 \<and> length (nr_starvation_preempts_tier (f ?st)) = 4"
    by (simp add: sched_wf_def keeps_stat_shape_def)
  then show "sched_wf (count_stat R cpu f s)"
    using wf set_update_subset_insert [of "global_stats s" "get_local_stats cpu" "f ?st"]
    by (auto simp: sched_wf_def count_stat_def)
qed

lemma count_stat_frame [frame_simps]:
  "task_ctx (count_stat R c f s) = task_ctx s" "llc_cpu_mask (count_stat R c f s) = llc_cpu_mask s"
  "mega_mailbox (count_stat R c f s) = mega_mailbox s" "llc_nonempty (count_stat R c f s) = llc_nonempty s"
  "tier_cpu_mask (count_stat R c f s) = tier_cpu_mask s" "dummy_idle (count_stat R c f s) = dummy_idle s"
  "llc_etd_cost (count_stat R c f s) = llc_etd_cost s" "kcalls (count_stat R c f s) = kcalls s"
  by (simp_all add: count_stat_def)

lemma put_ctx_frame [frame_simps]:
  "llc_cpu_mask (put_ctx p c s) = llc_cpu_mask s" "mega_mailbox (put_ctx p c s) = mega_mailbox s"
  "llc_nonempty (put_ctx p c s) = llc_nonempty s" "tier_cpu_mask (put_ctx p c s) = tier_cpu_mask s"
  "dummy_idle (put_ctx p c s) = dummy_idle s" "global_stats (put_ctx p c s) = global_stats s"
  "llc_etd_cost (put_ctx p c s) = llc_etd_cost s" "kcalls (put_ctx p c s) = kcalls s"
  "task_ctx (put_ctx p c s) = (task_ctx s)(p \<mapsto> c)"
  by (simp_all add: put_ctx_def)

lemma upd_mbox_frame [frame_simps]:
  "llc_cpu_mask (upd_mbox c f s) = llc_cpu_mask s" "task_ctx (upd_mbox c f s) = task_ctx s"
  "llc_nonempty (upd_mbox c f s) = llc_nonempty s" "tier_cpu_mask (upd_mbox c f s) = tier_cpu_mask s"
  "dummy_idle (upd_mbox c f s) = dummy_idle s" "global_stats (upd_mbox c f s) = global_stats s"
  "llc_etd_cost (upd_mbox c f s) = llc_etd_cost s" "kcalls (upd_mbox c f s) = kcalls s"
  "mega_mailbox (upd_mbox c f s) = (mega_mailbox s)[unat c := f (mega_mailbox s ! unat c)]"
  by (simp_all add: upd_mbox_def)

lemma emit_frame [frame_simps]:
  "llc_cpu_mask (emit k s) = llc_cpu_mask s" "task_ctx (emit k s) = task_ctx s"
  "llc_nonempty (emit k s) = llc_nonempty s" "tier_cpu_mask (emit k s) = tier_cpu_mask s"
  "dummy_idle (emit k s) = dummy_idle s" "global_stats (emit k s) = global_stats s"
  "llc_etd_cost (emit k s) = llc_etd_cost s" "mega_mailbox (emit k s) = mega_mailbox s"
  "kcalls (emit k s) = kcalls s @ [k]"
  by (simp_all add: emit_def)

lemma llc_mark_frame [frame_simps]:
  "llc_cpu_mask (llc_mark_nonempty l s) = llc_cpu_mask s" "task_ctx (llc_mark_nonempty l s) = task_ctx s"
  "mega_mailbox (llc_mark_nonempty l s) = mega_mailbox s" "tier_cpu_mask (llc_mark_nonempty l s) = tier_cpu_mask s"
  "dummy_idle (llc_mark_nonempty l s) = dummy_idle s" "global_stats (llc_mark_nonempty l s) = global_stats s"
  "llc_etd_cost (llc_mark_nonempty l s) = llc_etd_cost s" "kcalls (llc_mark_nonempty l s) = kcalls s"
  by (simp_all add: llc_mark_nonempty_def Let_def)

lemma tier_cpu_frame [frame_simps]:
  "llc_cpu_mask (set_tier_cpu t c s) = llc_cpu_mask s" "llc_cpu_mask (clear_tier_cpu t c s) = llc_cpu_mask s"
  "task_ctx (set_tier_cpu t c s) = task_ctx s" "task_ctx (clear_tier_cpu t c s) = task_ctx s"
  "mega_mailbox (set_tier_cpu t c s) = mega_mailbox s" "mega_mailbox (clear_tier_cpu t c s) = mega_mailbox s"
  "kcalls (set_tier_cpu t c s) = kcalls s" "kcalls (clear_tier_cpu t c s) = kcalls s"
  "llc_nonempty (set_tier_cpu t c s) = llc_nonempty s" "llc_nonempty (clear_tier_cpu t c s) = llc_nonempty s"
  "global_stats (set_tier_cpu t c s) = global_stats s" "global_stats (clear_tier_cpu t c s) = global_stats s"
  by (simp_all add: set_tier_cpu_def clear_tier_cpu_def Let_def)

lemma publish_frame [frame_simps]:
  "llc_cpu_mask (publish_running_tier c t s) = llc_cpu_mask s"
  "task_ctx (publish_running_tier c t s) = task_ctx s"
  "llc_nonempty (publish_running_tier c t s) = llc_nonempty s"
  "tier_cpu_mask (publish_running_tier c t s) = tier_cpu_mask s"
  "kcalls (publish_running_tier c t s) = kcalls s"
  "global_stats (publish_running_tier c t s) = global_stats s"
  by (simp_all add: publish_running_tier_def Let_def frame_simps)

section \<open>The two handlers as equations\<close>

definition mbox_flags_ok :: "u8 \<Rightarrow> bool" where
  \<comment> \<open>never written, or the valid bit and a tier\<close>
  "mbox_flags_ok f \<longleftrightarrow> f \<in> {0, 0x80, 0x81, 0x82, 0x83}"

lemma mbox_encode_values:
  "mbox_encode 0 = 0x80" "mbox_encode 1 = 0x81" "mbox_encode 2 = 0x82" "mbox_encode 3 = 0x83"
  by (simp_all add: mbox_encode_def)

lemma mbox_encode_ok: "mbox_flags_ok (mbox_encode t)"
proof -
  have "unat (t AND 3) < 4" by (rule unat_and_3)
  then show ?thesis unfolding mbox_encode_def mbox_flags_ok_def by (rule u8_less_4_cases) simp_all
qed

lemma publish_flags:
  assumes "mbox_flags_ok f" "unat t < 4"
  shows "MBOX_VALID_FLAG OR (f AND NOT MBOX_TIER_MASK) OR t = mbox_encode t"
  using assms(2) by (rule u8_less_4_cases) (use assms(1) in \<open>auto simp: mbox_flags_ok_def mbox_encode_def\<close>)

lemma upd_mbox_id: "f (get_mbox c s) = get_mbox c s \<Longrightarrow> upd_mbox c f s = s"
  by (simp add: upd_mbox_def get_mbox_def)

lemma publish_eq:
  assumes "mbox_flags_ok (mbox_flags (get_mbox cpu s))" "unat t < 4"
  shows "publish_running_tier cpu t s = upd_mbox cpu (\<lambda>m. m\<lparr>mbox_flags := mbox_encode t\<rparr>) s"
  using publish_flags [OF assms] unfolding publish_running_tier_def Let_def
  by (cases "mbox_flags (get_mbox cpu s) = mbox_encode t") (auto simp: upd_mbox_id)

lemma unat_jitter_ewma:
  "unat (jitter_ewma old lat) = min 65535 ((7 * unat old + unat lat div 1024) div 8)"
proof -
  have "unat old < 65536" "unat lat div 1024 < 4194304"
    using unsigned_less [of old, where 'a = nat] unsigned_less [of lat, where 'a = nat] by simp_all
  moreover have "unat (drop_bit 10 lat) = unat lat div 1024"
    using unat_drop_bit [of 10 lat] by simp
  ultimately have "unat (ucast old * 7 + drop_bit 10 lat) = 7 * unat old + unat lat div 1024"
    by (simp add: unat_word_ariths unat_ucast_id)
  moreover have "unat (drop_bit 3 x) = unat x div 8" for x :: u32
    using unat_drop_bit [of 3 x] by simp
  ultimately show ?thesis by (simp add: jitter_ewma_def unat_clamp_u16)
qed

lemma dispatch_latency_sel [simp]:
  "last_run_at (dispatch_latency c) = last_run_at c" "packed_info (dispatch_latency c) = packed_info c"
  "enqueue_time (dispatch_latency c) = 0" "next_slice (dispatch_latency c) = next_slice c"
  "burst_credit (dispatch_latency c) = burst_credit c" "overrun_count (dispatch_latency c) = overrun_count c"
  "lock_skip_count (dispatch_latency c) = lock_skip_count c"
  by (simp_all add: dispatch_latency_def)

definition run_ctx :: "u64 \<Rightarrow> imperator_task_ctx \<Rightarrow> imperator_task_ctx" where
  "run_ctx now c = dispatch_latency (c\<lparr>last_run_at := ucast now\<rparr>)"

definition stop_ctx :: "rodata \<Rightarrow> u64 \<Rightarrow> u64 \<Rightarrow> bool \<Rightarrow> imperator_task_ctx \<Rightarrow> imperator_task_ctx" where
  "stop_ctx R now now2 runnable c =
     reclassify_task_cold R now2 runnable (c\<lparr>sleep_entry_time := (if \<not> runnable then ucast now else 0)\<rparr>)"

lemma ctx_inv_run [wf_intros]: "ctx_inv R c \<Longrightarrow> ctx_inv R (run_ctx now c)"
  by (simp add: ctx_inv_def run_ctx_def)

lemma ctx_inv_stop [wf_intros]: "ctx_inv R c \<Longrightarrow> ctx_inv R (stop_ctx R now now2 runnable c)"
  unfolding stop_ctx_def by (rule ctx_inv_reclassify) (simp add: ctx_inv_def)

lemma running_state:
  assumes "task_ctx s p = Some c"
  shows "task_ctx (imperator_running R smp now p s) = (task_ctx s)(p \<mapsto> run_ctx now c)"
    "tier_cpu_mask (imperator_running R smp now p s)
       = tier_cpu_mask (set_tier_cpu (ctx_tier c) (smp AND 63) s)"
    "kcalls (imperator_running R smp now p s) = kcalls s"
    "mega_mailbox (imperator_running R smp now p s)
       = mega_mailbox (publish_running_tier (smp AND 63) (ctx_tier c) s)"
  using assms
  by (simp_all add: imperator_running_def Let_def run_ctx_def frame_simps ctx_tier_def)
     (simp_all add: set_tier_cpu_def publish_running_tier_def Let_def get_mbox_def frame_simps)

lemma stopping_state:
  assumes "task_ctx s p = Some c" "last_run_at c \<noteq> 0"
  shows "imperator_stopping R smp now now2 p runnable s
       = put_ctx p (stop_ctx R now now2 runnable c) (clear_tier_cpu (ctx_tier c) (smp AND 63) s)"
  using assms by (simp add: imperator_stopping_def Let_def stop_ctx_def ctx_tier_def)

lemma stopping_unstamped:
  "task_ctx s p = Some c \<Longrightarrow> last_run_at c = 0 \<Longrightarrow> imperator_stopping R smp now now2 p runnable s = s"
  "task_ctx s p = None \<Longrightarrow> imperator_stopping R smp now now2 p runnable s = s"
  by (simp_all add: imperator_stopping_def)

section \<open>Properties\<close>

text \<open>
  A task that starts running publishes its tier: its CPU's mailbox carries the valid bit and
  exactly this tier, and the CPU joins the tier's mask, no other mask bit changing; the start is
  stamped and the enqueue stamp consumed.
\<close>

theorem running_publishes_tier:
  assumes wf: "sched_wf s" and c: "task_ctx s p = Some c" and cpu: "cpu = smp AND 63"
    and mbox: "mbox_flags_ok (mbox_flags (get_mbox cpu s))" and s': "s' = imperator_running R smp now p s"
  shows "mbox_flags (get_mbox cpu s') = mbox_encode (ctx_tier c)
    \<and> (\<forall>t i. on_cpu s' t i \<longleftrightarrow> (t = unat (ctx_tier c) \<and> i = unat cpu) \<or> on_cpu s t i)
    \<and> (\<exists>c'. task_ctx s' = (task_ctx s)(p \<mapsto> c') \<and> last_run_at c' = ucast now \<and> enqueue_time c' = 0
           \<and> packed_info c' = packed_info c \<and> next_slice c' = next_slice c)
    \<and> kcalls s' = kcalls s"
proof -
  note st = running_state [OF c, of R smp now]
  have len: "length (tier_cpu_mask s) = 4" "unat cpu < length (mega_mailbox s)"
    using wf unat_and_63 [of smp] by (simp_all add: sched_wf_def cpu)
  have "mbox_flags (get_mbox cpu s') = mbox_encode (ctx_tier c)"
    using publish_eq [OF mbox unat_ctx_tier [of c]] len
    by (simp add: get_mbox_def s' st(4) frame_simps flip: cpu)
  moreover have "on_cpu s' t i \<longleftrightarrow> on_cpu (set_tier_cpu (ctx_tier c) cpu s) t i" for t i
    by (simp add: on_cpu_def s' st(2) cpu)
  then have "on_cpu s' t i \<longleftrightarrow> (t = unat (ctx_tier c) \<and> i = unat cpu) \<or> on_cpu s t i" for t i
    using cpu_marks.on_mark [OF len(1) unat_ctx_tier, of cpu c] unat_and_63 [of smp] by (simp add: cpu)
  ultimately show ?thesis
    using st(1,3) by (simp add: s') (rule exI [of _ "run_ctx now c"], simp add: run_ctx_def)
qed

theorem running_publishes_tier_witness:
  "mbox_flags (get_mbox 3 (imperator_running rodata_default 3 5000 7 (bss_zero\<lparr>task_ctx := [7 \<mapsto> example_ctx]\<rparr>))) = 0x81"
proof -
  have wf: "sched_wf (bss_zero\<lparr>task_ctx := [7 \<mapsto> example_ctx]\<rparr>)"
    by (simp add: sched_wf_def bss_zero_def stats_zero_def)
  have "mbox_flags_ok (mbox_flags (get_mbox 3 (bss_zero\<lparr>task_ctx := [7 \<mapsto> example_ctx]\<rparr>)))"
    by (simp add: mbox_flags_ok_def get_mbox_def bss_zero_def)
  then show ?thesis
    using running_publishes_tier [OF wf, of 7 example_ctx 3 3, OF _ _ _ refl, of rodata_default 5000]
    by (simp add: mbox_encode_values)
qed

text \<open>
  The dispatch latency is averaged with weight one eighth over the microseconds between enqueue
  and start, saturating at 16 bits, and only when an enqueue stamp is pending; the result lies
  between the old average and the sample, up to the rounding of one division.
\<close>

theorem jitter_average:
  assumes c: "task_ctx s p = Some c"
    and lat: "lat = unat ((ucast now :: u32) - enqueue_time c) div 1024" and old: "old = unat (jitter_ewma_us c)"
  shows "\<exists>c'. task_ctx (imperator_running R smp now p s) p = Some c'
    \<and> unat (jitter_ewma_us c') =
        (if enqueue_time c = 0 then old else min 65535 ((7 * old + lat) div 8))
    \<and> (enqueue_time c \<noteq> 0 \<longrightarrow> min old (min lat 65535) \<le> unat (jitter_ewma_us c')
         \<and> unat (jitter_ewma_us c') \<le> max old lat)"
proof -
  have *: "unat (jitter_ewma_us (run_ctx now c)) =
      (if enqueue_time c = 0 then old else min 65535 ((7 * old + lat) div 8))"
    by (simp add: run_ctx_def dispatch_latency_def unat_jitter_ewma lat old)
  have "old \<le> 65535" using unsigned_less [of "jitter_ewma_us c", where 'a = nat] by (simp add: old)
  then have "min old (min lat 65535) \<le> min 65535 ((7 * old + lat) div 8)" by linarith
  moreover have "min 65535 ((7 * old + lat) div 8) \<le> max old lat" by linarith
  ultimately show ?thesis
    using * by (simp add: running_state(1) [OF c])
qed

theorem jitter_average_witness:
  "\<exists>c'. task_ctx (imperator_running rodata_default 3 (1024 * 900) 7
        (bss_zero\<lparr>task_ctx := [7 \<mapsto> example_ctx\<lparr>enqueue_time := 1024 * 100\<rparr>]\<rparr>)) 7 = Some c'
      \<and> unat (jitter_ewma_us c') = 100"
  using jitter_average [of "bss_zero\<lparr>task_ctx := [7 \<mapsto> example_ctx\<lparr>enqueue_time := 1024 * 100\<rparr>]\<rparr>" 7
      "example_ctx\<lparr>enqueue_time := 1024 * 100\<rparr>" _ "1024 * 900", OF _ refl refl]
  by (auto simp: example_ctx_def)

text \<open>
  Running and then stopping on the same CPU takes the CPU out of the tier it ran at, although
  the stop may reclassify the task, and changes no other bit: the masks never collect stale
  bits. The exception is a start whose truncated clock is 0: it counts as never started, and the
  CPU stays marked.
\<close>

theorem stop_unmarks_running_tier:
  assumes wf: "sched_wf s" and c: "task_ctx s p = Some c" and cpu: "cpu = smp AND 63"
    and s': "s' = imperator_stopping R smp now1 now2 p runnable (imperator_running R smp now p s)"
  shows "(if (ucast now :: u32) \<noteq> 0
      then (\<forall>t i. on_cpu s' t i \<longleftrightarrow> on_cpu s t i \<and> \<not> (t = unat (ctx_tier c) \<and> i = unat cpu))
      else on_cpu s' (unat (ctx_tier c)) (unat cpu))"
proof -
  let ?r = "imperator_running R smp now p s"
  have len: "length (tier_cpu_mask s) = 4" using wf by (simp add: sched_wf_def)
  have c1: "task_ctx ?r p = Some (run_ctx now c)" by (simp add: running_state(1) [OF c])
  have tier: "ctx_tier (run_ctx now c) = ctx_tier c" by (simp add: run_ctx_def ctx_tier_def)
  have on1: "on_cpu ?r t i \<longleftrightarrow> on_cpu (set_tier_cpu (ctx_tier c) cpu s) t i" for t i
    by (simp add: on_cpu_def running_state(2) [OF c] cpu)
  have len1: "length (tier_cpu_mask ?r) = 4"
    using cpu_marks.ok_mark [OF len] by (simp add: running_state(2) [OF c])
  note mk = cpu_marks.on_mark [OF len unat_ctx_tier, of cpu c] cpu_marks.on_unmark [OF len1 unat_ctx_tier, of cpu c]
  have u: "unat cpu < 64" using unat_and_63 by (simp add: cpu)
  show ?thesis
  proof (cases "(ucast now :: u32) = 0")
    case True
    then have "s' = ?r"
      unfolding s' by (intro stopping_unstamped(1) [OF c1]) (simp add: run_ctx_def)
    then show ?thesis using True mk(1) u on1 by simp
  next
    case False
    then have "last_run_at (run_ctx now c) \<noteq> 0" by (simp add: run_ctx_def)
    from stopping_state [OF c1 this, of R smp now1 now2 runnable]
    have "on_cpu s' t i \<longleftrightarrow> on_cpu (clear_tier_cpu (ctx_tier c) cpu ?r) t i" for t i
      by (simp add: s' on_cpu_def frame_simps tier cpu)
    then show ?thesis using False mk u on1 by auto
  qed
qed

theorem stop_unmarks_running_tier_witness:
  "\<not> on_cpu (imperator_stopping rodata_default 3 9000000 9000000 7 False
        (imperator_running rodata_default 3 5000 7 (bss_zero\<lparr>task_ctx := [7 \<mapsto> example_ctx]\<rparr>))) 1 3
   \<and> on_cpu (imperator_stopping rodata_default 3 9000000 9000000 7 False
        (imperator_running rodata_default 3 0x100000000 7 (bss_zero\<lparr>task_ctx := [7 \<mapsto> example_ctx]\<rparr>))) 1 3"
proof -
  have wf: "sched_wf (bss_zero\<lparr>task_ctx := [7 \<mapsto> example_ctx]\<rparr>)"
    by (simp add: sched_wf_def bss_zero_def stats_zero_def)
  show ?thesis
    using stop_unmarks_running_tier [OF wf _ _ refl, of 7 example_ctx 3 3 5000 rodata_default 9000000 9000000 False]
      stop_unmarks_running_tier [OF wf _ _ refl, of 7 example_ctx 3 3 "0x100000000" rodata_default 9000000 9000000 False]
    by simp
qed

end
