(* ===== verification/Tick.thy ===== *)
theory Tick
  imports Run_Stop
begin

text \<open>
  \<open>imperator_tick\<close> of \<open>src/src/bpf/imperator.bpf.c\<close>: slice expiry, the starvation check with its
  graduated backoff and lock-holder allowance, and the two frequency-steering labels. The
  \<open>goto\<close>s of the handler are the values of \<open>tick_exit\<close>; both ways into \<open>mailbox_dvfs_max\<close> (the
  sole-occupant \<open>goto\<close> and falling through) are \<open>To_dvfs_max\<close>, as in the source.
\<close>

section \<open>Frequency steering\<close>

definition tier_perf_target :: "u32 list" where
  "tier_perf_target = [1024, 1024, 1024, 1024, 1024, 1024, 1024, 1024]"

definition DSQ_HINT_UNSET :: "u8 \<Rightarrow> bool" where
  "DSQ_HINT_UNSET v \<longleftrightarrow> v = 0"

definition DSQ_HINT_ENCODE :: "u32 \<Rightarrow> u8" where
  "DSQ_HINT_ENCODE target = ucast (drop_bit 3 target + 1)"

definition publish_tick_tier :: "u32 \<Rightarrow> u8 \<Rightarrow> sched \<Rightarrow> sched" where
  \<comment> \<open>the conditional store of \<open>MBOX_VALID_FLAG | (tier & MBOX_TIER_MASK)\<close>\<close>
  "publish_tick_tier cpu tier s =
     (let new_flags = mbox_encode tier
      in if mbox_flags (get_mbox cpu s) \<noteq> new_flags
         then upd_mbox cpu (\<lambda>m. m\<lparr>mbox_flags := new_flags\<rparr>) s else s)"

definition request_perf :: "u32 \<Rightarrow> u32 \<Rightarrow> sched \<Rightarrow> sched" where
  \<comment> \<open>the hysteresis both labels end with\<close>
  "request_perf cpu target s =
     (let cached_perf = dsq_hint (get_mbox cpu s);
          target_cached = DSQ_HINT_ENCODE target
      in if DSQ_HINT_UNSET cached_perf \<or> cached_perf \<noteq> target_cached
         then upd_mbox cpu (\<lambda>m. m\<lparr>dsq_hint := target_cached\<rparr>) (emit (Cpuperf_set cpu target) s)
         else s)"

definition mailbox_dvfs_max :: "kabi \<Rightarrow> u32 \<Rightarrow> u8 \<Rightarrow> sched \<Rightarrow> sched" where
  "mailbox_dvfs_max K cpu tier s =
     request_perf cpu (SCX_CPUPERF_ONE K) (publish_tick_tier cpu tier s)"

definition mailbox_dvfs :: "rodata \<Rightarrow> u32 \<Rightarrow> u32 \<Rightarrow> u8 \<Rightarrow> sched \<Rightarrow> sched" where
  "mailbox_dvfs R cap cpu tier s =
     (let s = publish_tick_tier cpu tier s;
          target = tier_perf_target ! unat (CAKE_TIER_IDX tier);
          target = (if has_hybrid R then drop_bit 10 (target * cap) else target)
      in request_perf cpu target s)"

section \<open>The starvation check\<close>

record tick_input =
  in_smp_id :: u32
  in_now :: u64
  in_nr_queued :: "u64 \<Rightarrow> s32"  \<comment> \<open>\<open>scx_bpf_dsq_nr_queued\<close>\<close>
  in_nr_running :: "u32 option"  \<comment> \<open>\<open>rq->scx.nr_running\<close>, \<open>None\<close> for a NULL rq\<close>
  in_cpuperf_cap :: u32

datatype tick_exit = Done sched | To_dvfs_max sched | To_dvfs sched

definition tick_skip_mask :: "u8 \<Rightarrow> u8" where
  "tick_skip_mask tc = (if tc < 8 then 0 else if tc < 16 then 1 else if tc < 32 then 3 else 7)"

definition set_tick_counter :: "u32 \<Rightarrow> u8 \<Rightarrow> sched \<Rightarrow> sched" where
  "set_tick_counter cpu v s = upd_mbox cpu (\<lambda>m. m\<lparr>tick_counter := v\<rparr>) s"

definition starvation_preempt :: "rodata \<Rightarrow> kabi \<Rightarrow> u32 \<Rightarrow> u32 \<Rightarrow> u8 \<Rightarrow> sched \<Rightarrow> sched" where
  "starvation_preempt R K smp_id cpu tier s =
     (let s = emit (Kick_cpu cpu (SCX_KICK_PREEMPT K)) s;
          s = (if unat tier < CAKE_TIER_MAX
               then count_stat R smp_id
                      (\<lambda>st. st\<lparr>nr_starvation_preempts_tier :=
                         (nr_starvation_preempts_tier st)
                           [unat tier := nr_starvation_preempts_tier st ! unat tier + 1]\<rparr>) s
               else s)
      in publish_tick_tier cpu tier s)"

definition tick_phase2 ::
    "rodata \<Rightarrow> kabi \<Rightarrow> tick_input \<Rightarrow> tid \<Rightarrow> imperator_task_ctx \<Rightarrow> u32 \<Rightarrow> u8 \<Rightarrow> u64 \<Rightarrow> sched \<Rightarrow> tick_exit" where
  "tick_phase2 R K inp p tctx cpu tier runtime s =
     (let tc = tick_counter (get_mbox cpu s);
          grow = (if tc < 255 then set_tick_counter cpu (tc + 1) s else s)
      in if tc AND tick_skip_mask tc = 0 then
           (if (case in_nr_running inp of Some n \<Rightarrow> n > 1 | None \<Rightarrow> False) then
              (let s = set_tick_counter cpu (tc - drop_bit 2 tc) s;
                   threshold = UNPACK_STARVATION_NS (tier_cfg R tier)
               in if runtime > threshold then
                    (if has_flag CAKE_FLAG_LOCK_HOLDER (packed_info tctx) then
                       (let skips = lock_skip_count tctx
                        in if skips < 4 then
                             To_dvfs (count_stat R (in_smp_id inp)
                               (\<lambda>st. st\<lparr>nr_lock_holder_skips := nr_lock_holder_skips st + 1\<rparr>)
                               (put_ctx p (tctx\<lparr>lock_skip_count := skips + 1\<rparr>) s))
                           else
                             Done (starvation_preempt R K (in_smp_id inp) cpu tier
                               (put_ctx p (tctx\<lparr>lock_skip_count := 0\<rparr>) s)))
                     else Done (starvation_preempt R K (in_smp_id inp) cpu tier s))
                  else To_dvfs_max s)
            else if in_nr_running inp = Some 0 then To_dvfs_max grow
            else To_dvfs_max grow)
         else To_dvfs_max grow)"

definition slice_expiry_kick :: "kabi \<Rightarrow> u32 \<Rightarrow> u8 \<Rightarrow> sched \<Rightarrow> sched" where
  "slice_expiry_kick K cpu tier s =
     emit (Kick_cpu cpu (SCX_KICK_PREEMPT K)) (publish_tick_tier cpu tier s)"

definition work_waiting :: "rodata \<Rightarrow> kabi \<Rightarrow> tick_input \<Rightarrow> u32 \<Rightarrow> bool" where
  "work_waiting R K inp cpu =
     (let tick_llc = cpu_llc_id R ! unat cpu AND 7
      in 0 < sint (in_nr_queued inp (LLC_DSQ_BASE + ucast tick_llc))
         \<or> 0 < sint (in_nr_queued inp (SCX_DSQ_LOCAL K)))"

definition imperator_tick :: "rodata \<Rightarrow> kabi \<Rightarrow> tick_input \<Rightarrow> tid \<Rightarrow> sched \<Rightarrow> sched" where
  "imperator_tick R K inp p s =
     (let cpu = in_smp_id inp AND 63;
          now = (ucast (in_now inp) :: u32)
      in case task_ctx s p of
           None \<Rightarrow> s
         | Some tctx \<Rightarrow>
             if last_run_at tctx = 0 then put_ctx p (tctx\<lparr>last_run_at := now\<rparr>) s
             else
               (let tier = ucast (GET_TIER tctx);
                    last_run = last_run_at tctx;
                    runtime = (ucast (now - last_run) :: u64)
                in if runtime > next_slice tctx \<and> work_waiting R K inp cpu
                   then slice_expiry_kick K cpu tier s
                   else (case tick_phase2 R K inp p tctx cpu tier runtime s of
                           Done s \<Rightarrow> s
                         | To_dvfs_max s \<Rightarrow> mailbox_dvfs_max K cpu tier s
                         | To_dvfs s \<Rightarrow> mailbox_dvfs R (in_cpuperf_cap inp) cpu tier s)))"

section \<open>Frames\<close>

lemma publish_tick_frame [frame_simps]:
  "task_ctx (publish_tick_tier c t s) = task_ctx s" "kcalls (publish_tick_tier c t s) = kcalls s"
  "tier_cpu_mask (publish_tick_tier c t s) = tier_cpu_mask s" "llc_cpu_mask (publish_tick_tier c t s) = llc_cpu_mask s"
  "llc_nonempty (publish_tick_tier c t s) = llc_nonempty s"
  by (simp_all add: publish_tick_tier_def Let_def frame_simps)

lemma publish_tick_eq: "publish_tick_tier c t s = upd_mbox c (\<lambda>m. m\<lparr>mbox_flags := mbox_encode t\<rparr>) s"
  unfolding publish_tick_tier_def Let_def
  by (cases "mbox_flags (get_mbox c s) = mbox_encode t") (auto simp: upd_mbox_id)

lemma request_perf_frame [frame_simps]:
  "task_ctx (request_perf c t s) = task_ctx s" "tier_cpu_mask (request_perf c t s) = tier_cpu_mask s"
  "llc_cpu_mask (request_perf c t s) = llc_cpu_mask s" "llc_nonempty (request_perf c t s) = llc_nonempty s"
  by (simp_all add: request_perf_def Let_def frame_simps)

lemma dvfs_frame [frame_simps]:
  "task_ctx (mailbox_dvfs_max K c t s) = task_ctx s" "tier_cpu_mask (mailbox_dvfs_max K c t s) = tier_cpu_mask s"
  "llc_cpu_mask (mailbox_dvfs_max K c t s) = llc_cpu_mask s" "llc_nonempty (mailbox_dvfs_max K c t s) = llc_nonempty s"
  "task_ctx (mailbox_dvfs R cap c t s) = task_ctx s" "tier_cpu_mask (mailbox_dvfs R cap c t s) = tier_cpu_mask s"
  "llc_cpu_mask (mailbox_dvfs R cap c t s) = llc_cpu_mask s" "llc_nonempty (mailbox_dvfs R cap c t s) = llc_nonempty s"
  by (simp_all add: mailbox_dvfs_max_def mailbox_dvfs_def Let_def frame_simps)

lemma set_tick_counter_frame [frame_simps]:
  "task_ctx (set_tick_counter c v s) = task_ctx s" "kcalls (set_tick_counter c v s) = kcalls s"
  "tier_cpu_mask (set_tick_counter c v s) = tier_cpu_mask s" "llc_cpu_mask (set_tick_counter c v s) = llc_cpu_mask s"
  "llc_nonempty (set_tick_counter c v s) = llc_nonempty s"
  by (simp_all add: set_tick_counter_def frame_simps)

lemma starvation_preempt_frame [frame_simps]:
  "task_ctx (starvation_preempt R K i c t s) = task_ctx s"
  "tier_cpu_mask (starvation_preempt R K i c t s) = tier_cpu_mask s"
  "llc_cpu_mask (starvation_preempt R K i c t s) = llc_cpu_mask s"
  "llc_nonempty (starvation_preempt R K i c t s) = llc_nonempty s"
  "kcalls (starvation_preempt R K i c t s) = kcalls s @ [Kick_cpu c (SCX_KICK_PREEMPT K)]"
  by (simp_all add: starvation_preempt_def Let_def frame_simps)

section \<open>Decisions\<close>

definition tick_runtime :: "tick_input \<Rightarrow> imperator_task_ctx \<Rightarrow> nat" where
  \<comment> \<open>nanoseconds since the task started, modulo the 32-bit clock\<close>
  "tick_runtime inp c = unat ((ucast (in_now inp) :: u32) - last_run_at c)"

definition expired :: "rodata \<Rightarrow> kabi \<Rightarrow> tick_input \<Rightarrow> imperator_task_ctx \<Rightarrow> bool" where
  "expired R K inp c \<longleftrightarrow> unat (next_slice c) < tick_runtime inp c \<and> work_waiting R K inp (in_smp_id inp AND 63)"

definition check_due :: "u8 \<Rightarrow> bool" where
  "check_due tc \<longleftrightarrow> tc AND tick_skip_mask tc = 0"

definition contended :: "tick_input \<Rightarrow> bool" where
  "contended inp \<longleftrightarrow> (case in_nr_running inp of Some n \<Rightarrow> n > 1 | None \<Rightarrow> False)"

definition starving :: "rodata \<Rightarrow> tick_input \<Rightarrow> imperator_task_ctx \<Rightarrow> u8 \<Rightarrow> bool" where
  "starving R inp c tc \<longleftrightarrow> check_due tc \<and> contended inp
     \<and> budget_ns R (unat (ctx_tier c)) < tick_runtime inp c"

definition lock_exempt :: "imperator_task_ctx \<Rightarrow> bool" where
  "lock_exempt c \<longleftrightarrow> has_flag CAKE_FLAG_LOCK_HOLDER (packed_info c) \<and> lock_skip_count c < 4"

lemma unat_runtime64: "unat (ucast (x :: u32) :: u64) = unat x"
  using unsigned_less [of x, where 'a = nat] by (intro unat_ucast_id) simp

lemma unat_CAKE_TIER_IDX_ctx [simp]: "unat (CAKE_TIER_IDX (ctx_tier c)) = unat (ctx_tier c)"
  by (simp add: ctx_tier_def)

lemma tick_phase2_eq:
  "tick_phase2 R K inp p c cpu (ctx_tier c) (ucast ((ucast (in_now inp) :: u32) - last_run_at c)) s =
    (let tc = tick_counter (get_mbox cpu s);
         decay = set_tick_counter cpu (tc - drop_bit 2 tc) s
     in if \<not> check_due tc \<or> \<not> contended inp
        then To_dvfs_max (if tc < 255 then set_tick_counter cpu (tc + 1) s else s)
        else if \<not> starving R inp c tc then To_dvfs_max decay
        else if lock_exempt c
        then To_dvfs (count_stat R (in_smp_id inp) (\<lambda>st. st\<lparr>nr_lock_holder_skips := nr_lock_holder_skips st + 1\<rparr>)
               (put_ctx p (c\<lparr>lock_skip_count := lock_skip_count c + 1\<rparr>) decay))
        else Done (starvation_preempt R K (in_smp_id inp) cpu (ctx_tier c)
               (if has_flag CAKE_FLAG_LOCK_HOLDER (packed_info c)
                then put_ctx p (c\<lparr>lock_skip_count := 0\<rparr>) decay else decay)))"
  by (simp add: tick_phase2_def Let_def check_due_def [symmetric] contended_def starving_def lock_exempt_def
      tick_runtime_def budget_ns_def tier_cfg_def word_less_nat_alt unat_runtime64)

lemma imperator_tick_eq:
  assumes "task_ctx s p = Some c" "last_run_at c \<noteq> 0"
  shows "imperator_tick R K inp p s =
    (let cpu = in_smp_id inp AND 63
     in if expired R K inp c then slice_expiry_kick K cpu (ctx_tier c) s
        else (case tick_phase2 R K inp p c cpu (ctx_tier c) (ucast ((ucast (in_now inp) :: u32) - last_run_at c)) s of
                Done s \<Rightarrow> s | To_dvfs_max s \<Rightarrow> mailbox_dvfs_max K cpu (ctx_tier c) s
              | To_dvfs s \<Rightarrow> mailbox_dvfs R (in_cpuperf_cap inp) cpu (ctx_tier c) s))"
  using assms
  unfolding ctx_tier_def
  by (simp add: imperator_tick_def Let_def expired_def tick_runtime_def word_less_nat_alt unat_runtime64)

lemma kcalls_request_perf:
  "kcalls (request_perf cpu target s) =
     kcalls s @ (if dsq_hint (get_mbox cpu s) = 0 \<or> dsq_hint (get_mbox cpu s) \<noteq> DSQ_HINT_ENCODE target
                 then [Cpuperf_set cpu target] else [])"
  by (simp add: request_perf_def Let_def frame_simps DSQ_HINT_UNSET_def)

lemma kcalls_dvfs:
  "\<exists>new. kcalls (mailbox_dvfs_max K cpu t s) = kcalls s @ new \<and> new \<in> {[], [Cpuperf_set cpu (SCX_CPUPERF_ONE K)]}"
  "\<exists>new. kcalls (mailbox_dvfs R cap cpu t s) = kcalls s @ new \<and> (new = [] \<or> (\<exists>f. new = [Cpuperf_set cpu f]))"
  by (simp_all add: mailbox_dvfs_max_def mailbox_dvfs_def Let_def kcalls_request_perf frame_simps)

lemma kcalls_phase2:
  assumes "tc = tick_counter (get_mbox cpu s)"
    and e: "e = tick_phase2 R K inp p c cpu (ctx_tier c) (ucast ((ucast (in_now inp) :: u32) - last_run_at c)) s"
  shows "starving R inp c tc \<Longrightarrow> \<not> lock_exempt c \<Longrightarrow>
      \<exists>u. e = Done u \<and> kcalls u = kcalls s @ [Kick_cpu cpu (SCX_KICK_PREEMPT K)]"
    "starving R inp c tc \<Longrightarrow> lock_exempt c \<Longrightarrow> \<exists>u. e = To_dvfs u \<and> kcalls u = kcalls s"
    "\<not> starving R inp c tc \<Longrightarrow> \<exists>u. e = To_dvfs_max u \<and> kcalls u = kcalls s"
  unfolding e tick_phase2_eq Let_def assms(1) [symmetric]
  by (simp_all add: frame_simps) (simp_all add: starving_def)

lemma tick_kcalls:
  assumes "task_ctx s p = Some c" "last_run_at c \<noteq> 0" "cpu = in_smp_id inp AND 63"
    and tc: "tc = tick_counter (get_mbox cpu s)"
  shows "\<exists>new. kcalls (imperator_tick R K inp p s) = kcalls s @ new
    \<and> (if expired R K inp c \<or> (starving R inp c tc \<and> \<not> lock_exempt c)
       then new = [Kick_cpu cpu (SCX_KICK_PREEMPT K)]
       else new = [] \<or> (\<exists>f. new = [Cpuperf_set cpu f]
              \<and> (f = SCX_CPUPERF_ONE K \<or> (starving R inp c tc \<and> lock_exempt c))))"
proof -
  note eq = imperator_tick_eq [OF assms(1,2), of R K inp, unfolded Let_def, folded assms(3)]
  note ph = kcalls_phase2 [OF tc refl, of R inp c K p]
  consider "expired R K inp c" | "\<not> expired R K inp c" "starving R inp c tc" "\<not> lock_exempt c"
    | "\<not> expired R K inp c" "starving R inp c tc" "lock_exempt c"
    | "\<not> expired R K inp c" "\<not> starving R inp c tc" by blast
  then show ?thesis
  proof cases
    case 1
    then show ?thesis using assms(3) by (simp add: eq slice_expiry_kick_def frame_simps)
  next
    case 2
    with ph(1) show ?thesis by (auto simp: eq)
  next
    case 3
    from ph(2) [OF 3(2,3)] obtain u where u: "kcalls u = kcalls s"
      "imperator_tick R K inp p s = mailbox_dvfs R (in_cpuperf_cap inp) cpu (ctx_tier c) u"
      using 3(1) by (auto simp: eq)
    with 3 kcalls_dvfs(2) [of R "in_cpuperf_cap inp" cpu "ctx_tier c" u] show ?thesis by auto
  next
    case 4
    from ph(3) [OF 4(2)] obtain u where u: "kcalls u = kcalls s"
      "imperator_tick R K inp p s = mailbox_dvfs_max K cpu (ctx_tier c) u"
      using 4(1) by (auto simp: eq)
    with 4 kcalls_dvfs(1) [of K cpu "ctx_tier c" u] show ?thesis by auto
  qed
qed

definition next_counter :: "tick_input \<Rightarrow> u8 \<Rightarrow> u8" where
  "next_counter inp tc =
     (if check_due tc \<and> contended inp then tc - drop_bit 2 tc else if tc < 255 then tc + 1 else tc)"

definition next_skips :: "rodata \<Rightarrow> tick_input \<Rightarrow> imperator_task_ctx \<Rightarrow> u8 \<Rightarrow> u8" where
  "next_skips R inp c tc =
     (if starving R inp c tc \<and> has_flag CAKE_FLAG_LOCK_HOLDER (packed_info c)
      then (if lock_skip_count c < 4 then lock_skip_count c + 1 else 0) else lock_skip_count c)"

lemma mbox_request_perf:
  "unat cpu < length (mega_mailbox s) \<Longrightarrow>
     get_mbox cpu (request_perf cpu target s) = (get_mbox cpu s)\<lparr>dsq_hint := DSQ_HINT_ENCODE target\<rparr>"
  by (simp add: request_perf_def Let_def get_mbox_def upd_mbox_def emit_def)

lemma mbox_dvfs:
  assumes "unat cpu < length (mega_mailbox s)"
  shows "mbox_flags (get_mbox cpu (mailbox_dvfs_max K cpu t s)) = mbox_encode t"
    "tick_counter (get_mbox cpu (mailbox_dvfs_max K cpu t s)) = tick_counter (get_mbox cpu s)"
    "mbox_flags (get_mbox cpu (mailbox_dvfs R cap cpu t s)) = mbox_encode t"
    "tick_counter (get_mbox cpu (mailbox_dvfs R cap cpu t s)) = tick_counter (get_mbox cpu s)"
  using assms
  by (simp_all add: mailbox_dvfs_max_def mailbox_dvfs_def Let_def mbox_request_perf publish_tick_eq frame_simps)
     (simp_all add: get_mbox_def frame_simps)

lemma mbox_preempt:
  assumes "unat cpu < length (mega_mailbox s)"
  shows "mbox_flags (get_mbox cpu (starvation_preempt R K i cpu t s)) = mbox_encode t"
    "tick_counter (get_mbox cpu (starvation_preempt R K i cpu t s)) = tick_counter (get_mbox cpu s)"
  using assms
  by (simp_all add: starvation_preempt_def Let_def publish_tick_eq get_mbox_def frame_simps)

lemma mbox_counter:
  "unat cpu < length (mega_mailbox s) \<Longrightarrow> tick_counter (get_mbox cpu (set_tick_counter cpu v s)) = v"
  by (simp add: set_tick_counter_def get_mbox_def frame_simps)

lemma mbox_other:
  "get_mbox cpu (count_stat R i f s) = get_mbox cpu s" "get_mbox cpu (put_ctx p c s) = get_mbox cpu s"
  "length (mega_mailbox (set_tick_counter cpu v s)) = length (mega_mailbox s)"
  by (simp_all add: get_mbox_def set_tick_counter_def frame_simps)

definition after_phase2 :: "rodata \<Rightarrow> kabi \<Rightarrow> u32 \<Rightarrow> u32 \<Rightarrow> u8 \<Rightarrow> tick_exit \<Rightarrow> sched" where
  "after_phase2 R K cap cpu t e = (case e of Done s \<Rightarrow> s | To_dvfs_max s \<Rightarrow> mailbox_dvfs_max K cpu t s
     | To_dvfs s \<Rightarrow> mailbox_dvfs R cap cpu t s)"

lemma phase2_effect:
  assumes tc: "tc = tick_counter (get_mbox cpu s)" and len: "unat cpu < length (mega_mailbox s)"
    and c: "task_ctx s p = Some c"
    and s': "s' = after_phase2 R K cap cpu (ctx_tier c)
        (tick_phase2 R K inp p c cpu (ctx_tier c) (ucast ((ucast (in_now inp) :: u32) - last_run_at c)) s)"
  shows "mbox_flags (get_mbox cpu s') = mbox_encode (ctx_tier c)"
    "tick_counter (get_mbox cpu s') = next_counter inp tc"
    "task_ctx s' = (task_ctx s)(p \<mapsto> c\<lparr>lock_skip_count := next_skips R inp c tc\<rparr>)"
    "tier_cpu_mask s' = tier_cpu_mask s" "llc_cpu_mask s' = llc_cpu_mask s" "llc_nonempty s' = llc_nonempty s"
proof -
  have id: "(task_ctx s)(p \<mapsto> c\<lparr>lock_skip_count := lock_skip_count c\<rparr>) = task_ctx s"
    using c by (simp add: fun_upd_idem)
  note defs = s' after_phase2_def tick_phase2_eq Let_def tc [symmetric]
  show "mbox_flags (get_mbox cpu s') = mbox_encode (ctx_tier c)"
    unfolding defs using len by (simp add: mbox_dvfs mbox_preempt mbox_counter mbox_other frame_simps)
  show "tick_counter (get_mbox cpu s') = next_counter inp tc"
    unfolding defs next_counter_def using len
    by (simp add: mbox_dvfs mbox_preempt mbox_counter mbox_other frame_simps tc starving_def)
  show "task_ctx s' = (task_ctx s)(p \<mapsto> c\<lparr>lock_skip_count := next_skips R inp c tc\<rparr>)"
    unfolding defs next_skips_def using id
    by (simp add: frame_simps starving_def lock_exempt_def)
  show "tier_cpu_mask s' = tier_cpu_mask s" "llc_cpu_mask s' = llc_cpu_mask s" "llc_nonempty s' = llc_nonempty s"
    unfolding defs by (simp_all add: frame_simps)
qed

lemma tick_effect:
  assumes wf: "unat cpu < length (mega_mailbox s)" and c: "task_ctx s p = Some c" "last_run_at c \<noteq> 0"
    and cpu: "cpu = in_smp_id inp AND 63" and s': "s' = imperator_tick R K inp p s"
    and tc: "tc = tick_counter (get_mbox cpu s)"
  shows "mbox_flags (get_mbox cpu s') = mbox_encode (ctx_tier c)"
    "tick_counter (get_mbox cpu s') = (if expired R K inp c then tc else next_counter inp tc)"
    "task_ctx s' = (task_ctx s)(p \<mapsto> c\<lparr>lock_skip_count :=
       (if expired R K inp c then lock_skip_count c else next_skips R inp c tc)\<rparr>)"
    "tier_cpu_mask s' = tier_cpu_mask s" "llc_cpu_mask s' = llc_cpu_mask s" "llc_nonempty s' = llc_nonempty s"
proof -
  have id: "(task_ctx s)(p \<mapsto> c\<lparr>lock_skip_count := lock_skip_count c\<rparr>) = task_ctx s"
    using c by (simp add: fun_upd_idem)
  have "s' = (if expired R K inp c then slice_expiry_kick K cpu (ctx_tier c) s
     else after_phase2 R K (in_cpuperf_cap inp) cpu (ctx_tier c)
        (tick_phase2 R K inp p c cpu (ctx_tier c) (ucast ((ucast (in_now inp) :: u32) - last_run_at c)) s))"
    unfolding s' imperator_tick_eq [OF c] Let_def cpu after_phase2_def ..
  note s'' = this
  show "mbox_flags (get_mbox cpu s') = mbox_encode (ctx_tier c)"
    "tick_counter (get_mbox cpu s') = (if expired R K inp c then tc else next_counter inp tc)"
    "task_ctx s' = (task_ctx s)(p \<mapsto> c\<lparr>lock_skip_count :=
       (if expired R K inp c then lock_skip_count c else next_skips R inp c tc)\<rparr>)"
    "tier_cpu_mask s' = tier_cpu_mask s" "llc_cpu_mask s' = llc_cpu_mask s" "llc_nonempty s' = llc_nonempty s"
    using phase2_effect [OF tc wf c(1) refl, of R K "in_cpuperf_cap inp" inp] id wf
    by (cases "expired R K inp c";
        simp add: s'' slice_expiry_kick_def publish_tick_eq get_mbox_def frame_simps tc)+
qed

lemma tick_unstamped:
  "task_ctx s p = None \<Longrightarrow> imperator_tick R K inp p s = s"
  "task_ctx s p = Some c \<Longrightarrow> last_run_at c = 0 \<Longrightarrow>
     imperator_tick R K inp p s = put_ctx p (c\<lparr>last_run_at := ucast (in_now inp)\<rparr>) s"
  by (simp_all add: imperator_tick_def)

lemma next_skips_le: "unat (lock_skip_count c) \<le> 4 \<Longrightarrow> unat (next_skips R inp c tc) \<le> 4"
  by (auto simp: next_skips_def word_less_nat_alt unat_word_ariths)

lemma length_mailbox_tick:
  "length (mega_mailbox (imperator_tick R K inp p s)) = length (mega_mailbox s)"
  by (auto simp: imperator_tick_def Let_def slice_expiry_kick_def tick_phase2_def mailbox_dvfs_max_def
      mailbox_dvfs_def request_perf_def starvation_preempt_def publish_tick_eq set_tick_counter_def
      frame_simps split: option.split)

section \<open>Sequences of ticks\<close>

fun run_ticks :: "rodata \<Rightarrow> kabi \<Rightarrow> tid \<Rightarrow> tick_input list \<Rightarrow> sched \<Rightarrow> sched" where
  "run_ticks R K p [] s = s"
| "run_ticks R K p (inp # is) s = run_ticks R K p is (imperator_tick R K inp p s)"

lemma run_ticks_append: "run_ticks R K p (is @ js) s = run_ticks R K p js (run_ticks R K p is s)"
  by (induction "is" arbitrary: s) simp_all

lemma tick_appends: "\<exists>new. kcalls (imperator_tick R K inp p s) = kcalls s @ new"
proof (cases "task_ctx s p")
  case None
  then show ?thesis by (simp add: tick_unstamped)
next
  case (Some c)
  then show ?thesis
    using tick_kcalls [OF Some _ refl refl, where inp = inp and R = R and K = K]
    by (cases "last_run_at c = 0") (auto simp: tick_unstamped frame_simps)
qed

lemma run_ticks_appends: "\<exists>new. kcalls (run_ticks R K p is s) = kcalls s @ new"
proof (induction "is" arbitrary: s)
  case (Cons inp "is")
  from tick_appends [of R K inp p s] obtain a where "kcalls (imperator_tick R K inp p s) = kcalls s @ a" by blast
  moreover from Cons [of "imperator_tick R K inp p s"] obtain b
    where "kcalls (run_ticks R K p is (imperator_tick R K inp p s)) = kcalls (imperator_tick R K inp p s) @ b" by blast
  ultimately show ?case by simp
qed simp

lemma skip_count_irrelevant [simp]:
  "tick_runtime inp (c\<lparr>lock_skip_count := x\<rparr>) = tick_runtime inp c"
  "expired R K inp (c\<lparr>lock_skip_count := x\<rparr>) = expired R K inp c"
  "ctx_tier (c\<lparr>lock_skip_count := x\<rparr>) = ctx_tier c"
  by (simp_all add: expired_def tick_runtime_def ctx_tier_def)

lemma holder_ticks:
  assumes "unat cpu < length (mega_mailbox s)" "task_ctx s p = Some c" "last_run_at c \<noteq> 0"
    and "tick_counter (get_mbox cpu s) < 8" "unat (lock_skip_count c) \<le> 4"
    and "\<forall>inp \<in> set is. in_smp_id inp AND 63 = cpu \<and> contended inp \<and> \<not> expired R K inp c
       \<and> budget_ns R (unat (ctx_tier c)) < tick_runtime inp c"
    and "4 - unat (lock_skip_count c) < length is"
  shows "Kick_cpu cpu (SCX_KICK_PREEMPT K) \<in> set (drop (length (kcalls s)) (kcalls (run_ticks R K p is s)))"
  using assms
proof (induction "is" arbitrary: s c)
  case Nil
  then show ?case by simp
next
  case (Cons inp "is")
  let ?s = "imperator_tick R K inp p s" and ?tc = "tick_counter (get_mbox cpu s)"
  have inp: "cpu = in_smp_id inp AND 63" "contended inp" "\<not> expired R K inp c" and cpu: "in_smp_id inp AND 63 = cpu"
    using Cons.prems(6) by auto
  have due: "check_due ?tc" using Cons.prems(4) by (simp add: check_due_def tick_skip_mask_def)
  have st: "starving R inp c ?tc" using Cons.prems(6) due by (simp add: starving_def)
  obtain new where new: "kcalls ?s = kcalls s @ new"
    "\<not> lock_exempt c \<Longrightarrow> new = [Kick_cpu cpu (SCX_KICK_PREEMPT K)]"
    using tick_kcalls [OF Cons.prems(2,3) inp(1) refl, of R K] st inp(3) by auto
  show ?case
  proof (cases "lock_exempt c")
    case False
    with new run_ticks_appends [of R K p "is" ?s] show ?thesis by auto
  next
    case True
    let ?c = "c\<lparr>lock_skip_count := lock_skip_count c + 1\<rparr>"
    note ef = tick_effect [OF Cons.prems(1,2,3) inp(1) refl refl, of R K]
    have sk: "lock_skip_count c < 4" using True by (simp add: lock_exempt_def)
    have skips: "unat (lock_skip_count c + 1) = unat (lock_skip_count c) + 1"
      using sk by (simp add: word_less_nat_alt unat_word_ariths)
    have c': "task_ctx ?s p = Some ?c"
      using ef(3) inp(3) st True by (simp add: next_skips_def lock_exempt_def)
    have "unat (?tc - drop_bit 2 ?tc) \<le> unat ?tc"
      by (simp add: unat_sub_if' word_le_nat_alt unat_drop_bit [of 2 ?tc, simplified])
    then have tc: "tick_counter (get_mbox cpu ?s) < 8"
      using ef(2) inp(2,3) due Cons.prems(4) by (simp add: next_counter_def word_less_nat_alt)
    have "\<forall>inp \<in> set is. in_smp_id inp AND 63 = cpu \<and> contended inp \<and> \<not> expired R K inp ?c
       \<and> budget_ns R (unat (ctx_tier ?c)) < tick_runtime inp ?c"
      using Cons.prems(6) by simp
    from Cons.IH [OF _ c' _ tc _ this] Cons.prems(1,3,7) skips sk length_mailbox_tick [of R K inp p s]
    have "Kick_cpu cpu (SCX_KICK_PREEMPT K) \<in> set (drop (length (kcalls ?s)) (kcalls (run_ticks R K p is ?s)))"
      by (simp add: word_less_nat_alt)
    with new(1) show ?thesis by (auto dest: in_set_dropD simp: drop_append add.commute)
       (metis (no_types, lifting) in_set_dropD drop_drop add.commute)
  qed
qed

definition quiet :: "rodata \<Rightarrow> kabi \<Rightarrow> imperator_task_ctx \<Rightarrow> u32 \<Rightarrow> tick_input \<Rightarrow> bool" where
  \<comment> \<open>a tick on \<open>cpu\<close> that finds the slice unexpired or nothing waiting\<close>
  "quiet R K c cpu inp \<longleftrightarrow> in_smp_id inp AND 63 = cpu \<and> \<not> expired R K inp c"

lemma quiet_tick:
  assumes "unat cpu < length (mega_mailbox s)" "task_ctx s p = Some c" "last_run_at c \<noteq> 0"
    and q: "quiet R K c cpu inp" and ns: "\<not> starving R inp c (tick_counter (get_mbox cpu s))"
  shows "task_ctx (imperator_tick R K inp p s) p = Some c"
    "tick_counter (get_mbox cpu (imperator_tick R K inp p s)) = next_counter inp (tick_counter (get_mbox cpu s))"
    "\<exists>new. kcalls (imperator_tick R K inp p s) = kcalls s @ new \<and> (\<forall>v f. Kick_cpu v f \<notin> set new)"
proof -
  have inp: "cpu = in_smp_id inp AND 63" "\<not> expired R K inp c" using q by (auto simp: quiet_def)
  note ef = tick_effect [OF assms(1-3) inp(1) refl refl, of R K]
  show "task_ctx (imperator_tick R K inp p s) p = Some c"
    "tick_counter (get_mbox cpu (imperator_tick R K inp p s)) = next_counter inp (tick_counter (get_mbox cpu s))"
    using ef(2,3) inp(2) ns by (simp_all add: next_skips_def)
  show "\<exists>new. kcalls (imperator_tick R K inp p s) = kcalls s @ new \<and> (\<forall>v f. Kick_cpu v f \<notin> set new)"
    using tick_kcalls [OF assms(2,3) inp(1) refl, of R K] inp(2) ns by auto
qed

lemma check_due_255: "\<not> check_due 255"
  by (simp add: check_due_def tick_skip_mask_def)

lemma quiet_run:
  assumes "unat cpu < length (mega_mailbox s)" "task_ctx s p = Some c" "last_run_at c \<noteq> 0"
    and "\<forall>inp \<in> set is. quiet R K c cpu inp \<and> (contended inp \<longrightarrow> tick_counter (get_mbox cpu s) = 255)"
  shows "task_ctx (run_ticks R K p is s) p = Some c
    \<and> unat (tick_counter (get_mbox cpu (run_ticks R K p is s)))
        = min 255 (unat (tick_counter (get_mbox cpu s)) + length is)
    \<and> (\<exists>new. kcalls (run_ticks R K p is s) = kcalls s @ new \<and> (\<forall>v f. Kick_cpu v f \<notin> set new))
    \<and> length (mega_mailbox (run_ticks R K p is s)) = length (mega_mailbox s)"
  using assms
proof (induction "is" arbitrary: s)
  case Nil
  have "unat (tick_counter (get_mbox cpu s)) \<le> 255"
    using unsigned_less [of "tick_counter (get_mbox cpu s)", where 'a = nat] by simp
  with Nil show ?case by simp
next
  case (Cons inp "is")
  let ?s = "imperator_tick R K inp p s" and ?tc = "tick_counter (get_mbox cpu s)"
  have q: "quiet R K c cpu inp" and n: "contended inp \<Longrightarrow> ?tc = 255" using Cons.prems(4) by auto
  have "\<not> (check_due ?tc \<and> contended inp)" using n check_due_255 by auto
  then have ns: "\<not> starving R inp c ?tc" and nc: "next_counter inp ?tc = (if ?tc < 255 then ?tc + 1 else ?tc)"
    by (auto simp: starving_def next_counter_def)
  note t = quiet_tick [OF Cons.prems(1-3) q ns]
  have lt: "?tc = 255 \<or> ?tc < 255"
    using unsigned_less [of ?tc, where 'a = nat] by (auto simp: word_less_nat_alt word_unat_eq_iff)
  have cnt: "unat (tick_counter (get_mbox cpu ?s)) = min 255 (unat ?tc + 1)"
    using lt by (auto simp: t(2) nc word_less_nat_alt unat_word_ariths)
  have keep: "?tc = 255 \<Longrightarrow> tick_counter (get_mbox cpu ?s) = 255"
    using nc by (simp add: t(2))
  have "\<forall>inp \<in> set is. quiet R K c cpu inp \<and> (contended inp \<longrightarrow> tick_counter (get_mbox cpu ?s) = 255)"
    using Cons.prems(4) keep by auto
  from Cons.IH [OF _ t(1) Cons.prems(3) this] Cons.prems(1) length_mailbox_tick [of R K inp p s]
  have ih: "task_ctx (run_ticks R K p is ?s) p = Some c
    \<and> unat (tick_counter (get_mbox cpu (run_ticks R K p is ?s)))
        = min 255 (unat (tick_counter (get_mbox cpu ?s)) + length is)
    \<and> (\<exists>new. kcalls (run_ticks R K p is ?s) = kcalls ?s @ new \<and> (\<forall>v f. Kick_cpu v f \<notin> set new))
    \<and> length (mega_mailbox (run_ticks R K p is ?s)) = length (mega_mailbox ?s)"
    by simp
  obtain n1 where "kcalls ?s = kcalls s @ n1" "\<forall>v f. Kick_cpu v f \<notin> set n1" using t(3) by blast
  moreover obtain n2 where "kcalls (run_ticks R K p is ?s) = kcalls ?s @ n2" "\<forall>v f. Kick_cpu v f \<notin> set n2"
    using ih by blast
  ultimately have "\<exists>new. kcalls (run_ticks R K p is ?s) = kcalls s @ new \<and> (\<forall>v f. Kick_cpu v f \<notin> set new)"
    by (intro exI [of _ "n1 @ n2"]) auto
  with ih cnt length_mailbox_tick [of R K inp p s] show ?case by simp
qed

section \<open>Frequency hysteresis\<close>

lemma unat_DSQ_HINT_ENCODE: "unat t \<le> 2032 \<Longrightarrow> unat (DSQ_HINT_ENCODE t) = unat t div 8 + 1"
proof -
  assume t: "unat t \<le> 2032"
  have "unat (drop_bit 3 t) = unat t div 8" using unat_drop_bit [of 3 t] by simp
  with t have "unat (drop_bit 3 t + 1) = unat t div 8 + 1"
    by (simp add: unat_word_ariths)
  with t show ?thesis
    unfolding DSQ_HINT_ENCODE_def by (subst unat_ucast_id) simp_all
qed

lemma request_perf_twice:
  assumes "unat cpu < length (mega_mailbox s)" "unat target \<le> 2032"
  shows "request_perf cpu target (request_perf cpu target s) = request_perf cpu target s"
proof -
  have "DSQ_HINT_ENCODE target \<noteq> 0"
    using unat_DSQ_HINT_ENCODE [OF assms(2)] by auto
  then show ?thesis
    using mbox_request_perf [OF assms(1), of target]
    by (simp add: request_perf_def [of cpu target "request_perf cpu target s"] DSQ_HINT_UNSET_def)
qed

section \<open>Properties\<close>

definition example_tick :: tick_input where
  "example_tick = \<lparr>in_smp_id = 3, in_now = 60000000, in_nr_queued = (\<lambda>dsq. 0), in_nr_running = Some 2,
     in_cpuperf_cap = 1024\<rparr>"

definition example_kabi :: kabi where
  "example_kabi = \<lparr>SCX_ENQ_WAKEUP = 1, SCX_ENQ_PREEMPT = 0x100000000, SCX_WAKE_SYNC = 0x10,
     SCX_DSQ_LOCAL = 0x8000000000000002, SCX_DSQ_LOCAL_ON = 0xC000000000000000, SCX_KICK_PREEMPT = 2,
     SCX_CPUPERF_ONE = 1024, PF_KTHREAD = 0x200000\<rparr>"

definition example_sched :: sched where
  "example_sched = bss_zero\<lparr>task_ctx := [7 \<mapsto> example_ctx]\<rparr>"

lemma example_sched_sel [simp]:
  "task_ctx example_sched = [7 \<mapsto> example_ctx]" "sched_wf example_sched"
  "length (mega_mailbox example_sched) = 64" "kcalls example_sched = []"
  "unat cpu < 64 \<Longrightarrow> get_mbox cpu example_sched = \<lparr>mbox_flags = 0, dsq_hint = 0, tick_counter = 0\<rparr>"
  by (simp_all add: example_sched_def sched_wf_def bss_zero_def stats_zero_def get_mbox_def)

text \<open>
  C22. A tick of a running task makes at most one kernel call. It preempts exactly when the slice is
  over and work waits on the CPU's LLC or local queue, or when a due starvation check finds
  contention and the task past its tier's budget, unless it holds a lock and has skips left.
  Otherwise it requests at most one frequency, and that is the maximum on every path except the
  lock-holder skip.
\<close>

theorem tick_preempts_exactly:
  assumes "task_ctx s p = Some c" "last_run_at c \<noteq> 0" "cpu = in_smp_id inp AND 63"
    and "tc = tick_counter (get_mbox cpu s)"
  shows "\<exists>new. kcalls (imperator_tick R K inp p s) = kcalls s @ new
    \<and> (if expired R K inp c \<or> (starving R inp c tc \<and> \<not> lock_exempt c)
       then new = [Kick_cpu cpu (SCX_KICK_PREEMPT K)]
       else new = [] \<or> (\<exists>f. new = [Cpuperf_set cpu f]
              \<and> (f = SCX_CPUPERF_ONE K \<or> (starving R inp c tc \<and> lock_exempt c))))"
  using assms by (rule tick_kcalls)

theorem tick_preempts_exactly_witness:
  "kcalls (imperator_tick rodata_default example_kabi example_tick 7 example_sched) = [Kick_cpu 3 2]"
proof -
  have "starving rodata_default example_tick example_ctx 0"
    by (simp add: starving_def check_due_def tick_skip_mask_def contended_def example_tick_def
        budget_ns_default tick_runtime_def)
  moreover have "\<not> lock_exempt example_ctx"
    by (simp add: lock_exempt_def flag_simps bit_iff_odd_drop_bit)
  ultimately show ?thesis
    using tick_preempts_exactly [of example_sched 7 example_ctx 3 example_tick 0 rodata_default example_kabi]
    by (auto simp: example_tick_def example_kabi_def)
qed

text \<open>
  The lock-holder allowance of the starvation check, were it in use: if at every tick of a CPU
  whose confidence counter is below 8 the running lock holder is contended, past its budget and not yet
  past its slice, the fifth such tick after its skips started at the latest preempts it, whatever part
  of the allowance was used up before. The flag is set by probes that this build does not load,
  and the budget is below the slice only as \<open>Slices\<close> describes or under \<open>--starvation\<close> and \<open>--quantum\<close>.
\<close>

theorem lock_holder_preempted_in_time:
  assumes "sched_wf s" "unat cpu < 64" "task_ctx s p = Some c" "last_run_at c \<noteq> 0"
    and "tick_counter (get_mbox cpu s) < 8" "unat (lock_skip_count c) \<le> 4"
    and "\<forall>inp \<in> set is. in_smp_id inp AND 63 = cpu \<and> contended inp \<and> \<not> expired R K inp c
       \<and> budget_ns R (unat (ctx_tier c)) < tick_runtime inp c"
    and "5 - unat (lock_skip_count c) \<le> length is"
  shows "Kick_cpu cpu (SCX_KICK_PREEMPT K) \<in> set (drop (length (kcalls s)) (kcalls (run_ticks R K p is s)))"
  using assms by (intro holder_ticks) (auto simp: sched_wf_def)

theorem lock_holder_preempted_in_time_witness:
  "let s = example_sched\<lparr>task_ctx := [7 \<mapsto> hold example_ctx]\<rparr>
   in Kick_cpu 3 2 \<in> set (kcalls (run_ticks rodata_default example_kabi 7 (replicate 5 example_tick) s))"
proof -
  let ?s = "example_sched\<lparr>task_ctx := [7 \<mapsto> hold example_ctx]\<rparr>"
  have wf: "sched_wf ?s" and m: "get_mbox 3 ?s = get_mbox 3 example_sched" and k: "kcalls ?s = []"
    by (simp_all add: example_sched_def sched_wf_def bss_zero_def stats_zero_def get_mbox_def)
  have "packed_tier (packed_info example_ctx) = 1" by (simp add: packed_tier_def)
  then have "ctx_tier (hold example_ctx) = 1" "lock_skip_count (hold example_ctx) = 0"
    "last_run_at (hold example_ctx) = 1024"
    by (simp_all add: ctx_tier_def hold_def) (simp_all add: example_ctx_def)
  then show ?thesis
    using lock_holder_preempted_in_time [OF wf, of 3 7 "hold example_ctx" "replicate 5 example_tick"
        rodata_default example_kabi] m k
    by (simp add: example_tick_def contended_def expired_def work_waiting_def budget_ns_default
        tick_runtime_def Let_def) (simp add: example_kabi_def)
qed

text \<open>
  C23. The starvation check can switch itself off: after 255 consecutive uncontended ticks of a
  running task the confidence counter is saturated at 255, a value at which no check is due, so
  however contended the CPU then becomes, no tick preempts the task before its slice is over.
\<close>

theorem saturated_counter_disables_check:
  assumes "sched_wf s" "unat cpu < 64" "task_ctx s p = Some c" "last_run_at c \<noteq> 0"
    and us: "\<forall>inp \<in> set us. quiet R K c cpu inp \<and> \<not> contended inp" "255 \<le> length us"
    and vs: "\<forall>inp \<in> set vs. quiet R K c cpu inp"
  shows "tick_counter (get_mbox cpu (run_ticks R K p (us @ vs) s)) = 255
    \<and> (\<exists>new. kcalls (run_ticks R K p (us @ vs) s) = kcalls s @ new \<and> (\<forall>v f. Kick_cpu v f \<notin> set new))"
proof -
  have len: "unat cpu < length (mega_mailbox s)" using assms(1,2) by (simp add: sched_wf_def)
  have qu: "\<forall>inp \<in> set us. quiet R K c cpu inp \<and> (contended inp \<longrightarrow> tick_counter (get_mbox cpu s) = 255)"
    using us(1) by auto
  note a = quiet_run [OF len assms(3,4) qu]
  then have 255: "tick_counter (get_mbox cpu (run_ticks R K p us s)) = 255"
    using us(2) by (simp add: word_unat_eq_iff)
  have qv: "\<forall>inp \<in> set vs. quiet R K c cpu inp
      \<and> (contended inp \<longrightarrow> tick_counter (get_mbox cpu (run_ticks R K p us s)) = 255)"
    using vs 255 by simp
  have "unat cpu < length (mega_mailbox (run_ticks R K p us s))" "task_ctx (run_ticks R K p us s) p = Some c"
    using a len by simp_all
  note b = quiet_run [OF this assms(4) qv]
  obtain n1 where "kcalls (run_ticks R K p us s) = kcalls s @ n1" "\<forall>v f. Kick_cpu v f \<notin> set n1"
    using a by blast
  moreover obtain n2 where "kcalls (run_ticks R K p vs (run_ticks R K p us s)) = kcalls (run_ticks R K p us s) @ n2"
    "\<forall>v f. Kick_cpu v f \<notin> set n2" using b by blast
  ultimately show ?thesis
    using b 255 by (auto simp: run_ticks_append word_unat_eq_iff)
qed

theorem saturated_counter_disables_check_witness:
  "tick_counter (get_mbox 3 (run_ticks rodata_default example_kabi 7
      (replicate 255 (example_tick\<lparr>in_nr_running := Some 1\<rparr>) @ replicate 9 example_tick) example_sched)) = 255"
proof -
  have "quiet rodata_default example_kabi example_ctx 3 example_tick"
    "quiet rodata_default example_kabi example_ctx 3 (example_tick\<lparr>in_nr_running := Some 1\<rparr>)"
    "\<not> contended (example_tick\<lparr>in_nr_running := Some 1\<rparr>)"
    by (simp_all add: quiet_def example_tick_def expired_def work_waiting_def contended_def Let_def)
  then show ?thesis
    using saturated_counter_disables_check [of example_sched 3 7 example_ctx
        "replicate 255 (example_tick\<lparr>in_nr_running := Some 1\<rparr>)" rodata_default example_kabi
        "replicate 9 example_tick"]
    by simp
qed

text \<open>
  A tick leaves the running tier in the mailbox on every path, advances the confidence counter
  by one (saturating) or lowers it by a quarter under contention, counts a used lock skip or
  resets the allowance, and changes nothing else of the task contexts. A task that was not
  stamped yet is only stamped.
\<close>

theorem tick_bookkeeping:
  assumes wf: "sched_wf s" and c: "task_ctx s p = Some c" and cpu: "cpu = in_smp_id inp AND 63"
    and s': "s' = imperator_tick R K inp p s" and tc: "tc = tick_counter (get_mbox cpu s)"
  shows "if last_run_at c = 0 then s' = s\<lparr>task_ctx := (task_ctx s)(p \<mapsto> c\<lparr>last_run_at := ucast (in_now inp)\<rparr>)\<rparr>
    else mbox_flags (get_mbox cpu s') = mbox_encode (ctx_tier c)
      \<and> unat (tick_counter (get_mbox cpu s')) =
          (if expired R K inp c then unat tc
           else if check_due tc \<and> contended inp then unat tc - unat tc div 4 else min 255 (unat tc + 1))
      \<and> task_ctx s' = (task_ctx s)(p \<mapsto> c\<lparr>lock_skip_count :=
          (if \<not> expired R K inp c \<and> starving R inp c tc \<and> has_flag CAKE_FLAG_LOCK_HOLDER (packed_info c)
           then (if lock_skip_count c < 4 then lock_skip_count c + 1 else 0) else lock_skip_count c)\<rparr>)
      \<and> tier_cpu_mask s' = tier_cpu_mask s"
proof (cases "last_run_at c = 0")
  case True
  then show ?thesis using tick_unstamped(2) [OF c] by (simp add: s' put_ctx_def)
next
  case False
  have len: "unat cpu < length (mega_mailbox s)"
    using wf unat_and_63 [of "in_smp_id inp"] by (simp add: sched_wf_def cpu)
  have "unat (tc - drop_bit 2 tc) = unat tc - unat tc div 4"
    using unat_drop_bit [of 2 tc] by (simp add: unat_sub_if' word_le_nat_alt)
  moreover have "unat (if tc < 255 then tc + 1 else tc) = min 255 (unat tc + 1)"
    using unsigned_less [of tc, where 'a = nat] by (auto simp: word_less_nat_alt unat_word_ariths)
  ultimately show ?thesis
    using False tick_effect [OF len c False cpu s' tc] by (simp add: next_counter_def next_skips_def)
qed

theorem tick_bookkeeping_witness:
  "mbox_flags (get_mbox 3 (imperator_tick rodata_default example_kabi example_tick 7 example_sched)) = 0x81"
  using tick_bookkeeping [of example_sched 7 example_ctx 3 example_tick, OF _ _ _ refl refl,
      of rodata_default example_kabi]
  by (simp add: mbox_encode_values) (simp add: example_tick_def)

text \<open>
  Frequency requests are cached correctly: every target up to the maximum has a non-zero code
  that determines it to within 8 units, so the unset value is never confused with a request, and
  requesting the same target again makes no kernel call.
\<close>

theorem perf_hysteresis:
  assumes "unat cpu < length (mega_mailbox s)" "unat target \<le> 1024"
  shows "unat (DSQ_HINT_ENCODE target) = unat target div 8 + 1
    \<and> dsq_hint (get_mbox cpu (request_perf cpu target s)) = DSQ_HINT_ENCODE target
    \<and> request_perf cpu target (request_perf cpu target s) = request_perf cpu target s
    \<and> (dsq_hint (get_mbox cpu s) = 0 \<longrightarrow> kcalls (request_perf cpu target s) = kcalls s @ [Cpuperf_set cpu target])"
  using assms unat_DSQ_HINT_ENCODE [of target] request_perf_twice [OF assms(1), of target]
    mbox_request_perf [OF assms(1), of target] kcalls_request_perf [of cpu target s]
  by simp

theorem perf_hysteresis_witness:
  "kcalls (request_perf 3 1024 example_sched) = [Cpuperf_set 3 1024]"
  using perf_hysteresis [of 3 example_sched 1024] by simp

end
