(* ===== verification/Enqueue.thy ===== *)
theory Enqueue
  imports Tick
begin

text \<open>
  \<open>imperator_enqueue\<close> of \<open>src/src/bpf/imperator.bpf.c\<close>, block by block: the three early exits, sleep
  recovery, burst credit, the IRQ-wake override, waker-tier inheritance, the deadline and the
  preemption kick. The blocks that only touch the task context are functions on it; the handler
  composes them in the order of the code.
\<close>

section \<open>Blocks on the task context\<close>

record enq_input =
  enq_smp_id :: u32
  enq_now :: u64
  enq_task_cpu :: u32  \<comment> \<open>\<open>(u32)scx_bpf_task_cpu(p)\<close>\<close>
  enq_flags :: u64

definition tier_sleep_mid :: "u16 list" where
  "tier_sleep_mid = [50, 1050, 5000, 8001]"

definition sleep_recovery :: "u32 \<Rightarrow> imperator_task_ctx \<Rightarrow> imperator_task_ctx" where
  "sleep_recovery now tctx =
     (if sleep_entry_time tctx \<noteq> 0
      then (let sleep_ns = now - sleep_entry_time tctx;
                tctx = (if sleep_ns > 500000000
                  then (let s_tier = (ucast (GET_TIER tctx) :: u8);
                            cur_fused = deficit_avg_fused tctx;
                            cur_avg = EXTRACT_AVG_RT cur_fused;
                            mid = tier_sleep_mid ! unat (CAKE_TIER_IDX s_tier)
                        in tctx\<lparr>deficit_avg_fused := PACK_DEFICIT_AVG (EXTRACT_DEFICIT cur_fused)
                              (ucast (drop_bit 1 ((ucast cur_avg :: u32) + ucast mid)))\<rparr>)
                  else tctx)
            in tctx\<lparr>sleep_entry_time := 0\<rparr>)
      else tctx)"

definition tier_burst_cap_kns :: "rodata \<Rightarrow> u16 list" where
  "tier_burst_cap_kns R = (if sim_mode R then [0, 2000, 4000, 1000] else [0, 2000, 4000, 0])"

definition burst_earns :: "rodata \<Rightarrow> kabi \<Rightarrow> u64 \<Rightarrow> u8 \<Rightarrow> bool" where
  \<comment> \<open>the two guards of the accumulation block\<close>
  "burst_earns R K flags tier \<longleftrightarrow>
     flags AND SCX_ENQ_PREEMPT K \<noteq> 0 \<and> CAKE_TIER_INTERACT \<le> tier
     \<and> tier \<le> (if sim_mode R then CAKE_TIER_BULK else CAKE_TIER_FRAME)
     \<and> tier_burst_cap_kns R ! unat (CAKE_TIER_IDX tier) > 0"

definition burst_earn :: "rodata \<Rightarrow> u8 \<Rightarrow> imperator_task_ctx \<Rightarrow> imperator_task_ctx" where
  "burst_earn R tier tctx =
     (let cap_kns = tier_burst_cap_kns R ! unat (CAKE_TIER_IDX tier);
          add_kns = (ucast (drop_bit 12 (quantum_ns R)) :: u16);
          cur_kns = burst_credit tctx;
          new_kns = (ucast ((ucast cur_kns :: u32) + ucast add_kns) :: u16)
      in tctx\<lparr>burst_credit := (if new_kns < cap_kns then new_kns else cap_kns)\<rparr>)"

definition burst_spend :: "rodata \<Rightarrow> u64 \<Rightarrow> imperator_task_ctx \<Rightarrow> u64 \<times> imperator_task_ctx" where
  \<comment> \<open>the slice to dispatch with and the context after consumption\<close>
  "burst_spend R slice_ns tctx =
     (let bc = burst_credit tctx
      in if bc > 0
         then (let bonus_ns = push_bit 10 (ucast bc :: u64);
                   t2_cfg = tier_cfg R CAKE_TIER_FRAME;
                   max_slice = drop_bit 10 (quantum_ns R * UNPACK_MULTIPLIER t2_cfg);
                   ext_slice = slice_ns + bonus_ns;
                   slice_ns = (if ext_slice < max_slice then ext_slice else max_slice)
               in (slice_ns, tctx\<lparr>next_slice := slice_ns, burst_credit := 0\<rparr>))
         else (slice_ns, tctx))"

definition irq_override :: "u8 \<Rightarrow> imperator_task_ctx \<Rightarrow> u8 \<times> imperator_task_ctx" where
  "irq_override tier tctx =
     (if has_flag CAKE_FLOW_IRQ_WAKE (packed_info tctx)
      then (CAKE_TIER_CRITICAL, tctx\<lparr>packed_info := clear_flag CAKE_FLOW_IRQ_WAKE (packed_info tctx)\<rparr>)
      else (tier, tctx))"

definition waker_promotes :: "kabi \<Rightarrow> u64 \<Rightarrow> u8 \<Rightarrow> u8 \<Rightarrow> u8 option" where
  \<comment> \<open>the promoted tier, when the waker's mailbox promotes the wakee\<close>
  "waker_promotes K flags cur_mbox_flags tier =
     (if flags AND SCX_ENQ_WAKEUP K \<noteq> 0 \<and> tier > CAKE_TIER_CRITICAL
      then (if cur_mbox_flags AND MBOX_VALID_FLAG \<noteq> 0
            then (let waker_tier = MBOX_GET_TIER cur_mbox_flags
                  in if waker_tier < tier
                     then (let promoted = (if waker_tier < CAKE_TIER_INTERACT then CAKE_TIER_INTERACT else waker_tier)
                           in if promoted < tier then Some promoted else None)
                     else None)
            else None)
      else None)"

definition vtime_advance :: "rodata \<Rightarrow> u32 \<Rightarrow> u64" where
  "vtime_advance R task_packed =
     (let advance = (if has_flag CAKE_FLOW_NEW task_packed then new_flow_bonus_ns R else 0)
      in if has_flag CAKE_FLAG_LOCK_HOLDER task_packed then advance + new_flow_bonus_ns R else advance)"

section \<open>Placement and preemption\<close>

definition insert_llc :: "tid \<Rightarrow> u32 \<Rightarrow> u64 \<Rightarrow> u64 \<Rightarrow> u64 \<Rightarrow> sched \<Rightarrow> sched" where
  \<comment> \<open>\<open>scx_bpf_dsq_insert_vtime\<close> into the LLC's queue, then \<open>llc_mark_nonempty\<close>\<close>
  "insert_llc p enq_llc slice_ns vtime flags s =
     llc_mark_nonempty enq_llc (emit (Dsq_insert_vtime p (LLC_DSQ_BASE + ucast enq_llc) slice_ns vtime flags) s)"

definition kick_victim :: "u32 \<Rightarrow> sched \<Rightarrow> u32 option" where
  "kick_victim enq_llc s =
     (let my_llc_mask = llc_cpu_mask s ! unat (enq_llc AND 7);
          t3_in_llc = tier_cpu_mask s ! 3 AND my_llc_mask
      in if t3_in_llc \<noteq> 0 then Some (BIT_SCAN_FORWARD_U64 t3_in_llc)
         else (let t2_in_llc = tier_cpu_mask s ! 2 AND my_llc_mask
               in if t2_in_llc \<noteq> 0 then Some (BIT_SCAN_FORWARD_U64 t2_in_llc) else None))"

definition preemption_kick :: "kabi \<Rightarrow> u8 \<Rightarrow> u32 \<Rightarrow> sched \<Rightarrow> sched" where
  "preemption_kick K tier enq_llc s =
     (if tier \<le> CAKE_TIER_INTERACT
      then (case kick_victim enq_llc s of
              Some cpu \<Rightarrow> emit (Kick_cpu cpu (SCX_KICK_PREEMPT K)) s
            | None \<Rightarrow> s)
      else s)"

definition dispatch_stat :: "bool \<Rightarrow> u8 \<Rightarrow> imperator_stats \<Rightarrow> imperator_stats" where
  "dispatch_stat new_flow tier st =
     (let st = (if new_flow then st\<lparr>nr_new_flow_dispatches := nr_new_flow_dispatches st + 1\<rparr>
                else st\<lparr>nr_old_flow_dispatches := nr_old_flow_dispatches st + 1\<rparr>)
      in if unat tier < CAKE_TIER_MAX
         then st\<lparr>nr_tier_dispatches := (nr_tier_dispatches st)
                   [unat tier := nr_tier_dispatches st ! unat tier + 1]\<rparr>
         else st)"

definition count_when :: "bool \<Rightarrow> rodata \<Rightarrow> u32 \<Rightarrow> (imperator_stats \<Rightarrow> imperator_stats) \<Rightarrow> sched \<Rightarrow> sched" where
  \<comment> \<open>a statistics update inside a taken branch\<close>
  "count_when b R smp f s = (if b then count_stat R smp f s else s)"

definition enqueue_full :: "rodata \<Rightarrow> kabi \<Rightarrow> enq_input \<Rightarrow> task_struct \<Rightarrow> imperator_task_ctx \<Rightarrow> u32 \<Rightarrow> sched \<Rightarrow> sched" where
  \<comment> \<open>everything after the early exits\<close>
  "enqueue_full R K inp p tctx enq_llc s =
     (let smp = enq_smp_id inp;
          enq_cpu = smp AND 63;
          flags = enq_flags inp;
          now32 = (ucast (enq_now inp) :: u32);
          tctx = tctx\<lparr>enqueue_time := now32\<rparr>;
          tctx = sleep_recovery now32 tctx;
          tier = ucast (CAKE_TIER_IDX (GET_TIER tctx));
          slice_ns = next_slice tctx;
          earns = burst_earns R K flags tier;
          tctx = (if earns then burst_earn R tier tctx else tctx);
          s = count_when earns R smp (\<lambda>st. st\<lparr>nr_preempt_with_credit := nr_preempt_with_credit st + 1\<rparr>) s;
          spends = (burst_credit tctx > 0);
          (slice_ns, tctx) = burst_spend R slice_ns tctx;
          s = count_when spends R smp (\<lambda>st. st\<lparr>nr_burst_credit_consumed := nr_burst_credit_consumed st + 1\<rparr>) s;
          irq = has_flag CAKE_FLOW_IRQ_WAKE (packed_info tctx);
          (tier, tctx) = irq_override tier tctx;
          task_packed = packed_info tctx;
          s = count_when irq R smp (\<lambda>st. st\<lparr>nr_irq_wake_boosts := nr_irq_wake_boosts st + 1\<rparr>) s;
          s = put_ctx (ts_id p) tctx s;
          promo = waker_promotes K flags (mbox_flags (get_mbox enq_cpu s)) tier;
          s = count_when (promo \<noteq> None) R smp (\<lambda>st. st\<lparr>nr_waker_tier_boosts := nr_waker_tier_boosts st + 1\<rparr>) s;
          tier = (case promo of Some t \<Rightarrow> t | None \<Rightarrow> tier);
          s = count_stat R smp (dispatch_stat (flags AND SCX_ENQ_WAKEUP K \<noteq> 0) tier) s;
          advance = vtime_advance R task_packed;
          vtime = tier_deadline R (enq_now inp) tier advance;
          s = insert_llc (ts_id p) enq_llc slice_ns vtime flags s
      in preemption_kick K tier enq_llc s)"

definition imperator_enqueue :: "rodata \<Rightarrow> kabi \<Rightarrow> enq_input \<Rightarrow> task_struct \<Rightarrow> sched \<Rightarrow> sched" where
  "imperator_enqueue R K inp p s =
     (let now = enq_now inp;
          flags = enq_flags inp;
          enq_llc = cpu_llc_id R ! unat (enq_task_cpu inp AND 63) AND 7;
          tctx = task_ctx s (ts_id p)
      in if ts_flags p AND PF_KTHREAD K \<noteq> 0 \<and> tctx = None
         then insert_llc (ts_id p) enq_llc (quantum_ns R) (tier_deadline R now CAKE_TIER_INTERACT 0) flags s
         else if flags AND (SCX_ENQ_WAKEUP K OR SCX_ENQ_PREEMPT K) = 0
         then (let yield_tier = (case tctx of Some c \<Rightarrow> ucast (CAKE_TIER_IDX (GET_TIER c)) | None \<Rightarrow> CAKE_TIER_BULK)
               in insert_llc (ts_id p) enq_llc (quantum_ns R) (tier_deadline R now yield_tier 0) flags s)
         else (case tctx of
                 None \<Rightarrow> insert_llc (ts_id p) enq_llc (quantum_ns R) (tier_deadline R now CAKE_TIER_FRAME 0) flags s
               | Some c \<Rightarrow> enqueue_full R K inp p c enq_llc s))"

section \<open>The full path as one equation\<close>

definition recovered :: "enq_input \<Rightarrow> imperator_task_ctx \<Rightarrow> imperator_task_ctx" where
  "recovered inp c = sleep_recovery (ucast (enq_now inp)) (c\<lparr>enqueue_time := ucast (enq_now inp)\<rparr>)"

definition credited :: "rodata \<Rightarrow> kabi \<Rightarrow> enq_input \<Rightarrow> imperator_task_ctx \<Rightarrow> imperator_task_ctx" where
  "credited R K inp c =
     (if burst_earns R K (enq_flags inp) (ctx_tier c) then burst_earn R (ctx_tier c) (recovered inp c)
      else recovered inp c)"

definition enq_slice :: "rodata \<Rightarrow> kabi \<Rightarrow> enq_input \<Rightarrow> imperator_task_ctx \<Rightarrow> u64" where
  "enq_slice R K inp c = fst (burst_spend R (next_slice c) (credited R K inp c))"

definition enq_ctx :: "rodata \<Rightarrow> kabi \<Rightarrow> enq_input \<Rightarrow> imperator_task_ctx \<Rightarrow> imperator_task_ctx" where
  "enq_ctx R K inp c =
     snd (irq_override (ctx_tier c) (snd (burst_spend R (next_slice c) (credited R K inp c))))"

definition base_tier :: "imperator_task_ctx \<Rightarrow> u8" where
  "base_tier c = (if has_flag CAKE_FLOW_IRQ_WAKE (packed_info c) then CAKE_TIER_CRITICAL else ctx_tier c)"

definition enq_tier :: "kabi \<Rightarrow> u64 \<Rightarrow> u8 \<Rightarrow> imperator_task_ctx \<Rightarrow> u8" where
  "enq_tier K flags mbox c =
     (case waker_promotes K flags mbox (base_tier c) of Some t \<Rightarrow> t | None \<Rightarrow> base_tier c)"

lemma sleep_recovery_sel [simp]:
  "packed_info (sleep_recovery now c) = packed_info c" "next_slice (sleep_recovery now c) = next_slice c"
  "burst_credit (sleep_recovery now c) = burst_credit c" "overrun_count (sleep_recovery now c) = overrun_count c"
  "lock_skip_count (sleep_recovery now c) = lock_skip_count c" "enqueue_time (sleep_recovery now c) = enqueue_time c"
  "last_run_at (sleep_recovery now c) = last_run_at c" "sleep_entry_time (sleep_recovery now c) = 0"
  "burst_acc_us (sleep_recovery now c) = burst_acc_us c" "deficit_us (sleep_recovery now c) = deficit_us c"
  by (simp_all add: sleep_recovery_def Let_def deficit_us_def)

text \<open>
  The recovery after a sleep of \<open>d\<close> nanoseconds: it depends on \<open>d\<close> modulo \<open>2 ^ 32\<close>, so sleeps of
  more than 4.3 seconds do trigger it unless their remainder is at most half a second, and then the
  average moves half of the way to the middle of the tier.
\<close>

lemma sleep_recovery_fires:
  assumes "sleep_entry_time c \<noteq> 0" "now = sleep_entry_time c + word_of_nat d"
  shows "avg_runtime_us (sleep_recovery now c)
    = (if 500000000 < d mod 2 ^ 32
       then ucast (drop_bit 1 ((ucast (avg_runtime_us c) :: u32)
              + ucast (tier_sleep_mid ! unat (packed_tier (packed_info c)))))
       else avg_runtime_us c)"
proof -
  have "now - sleep_entry_time c > 500000000 \<longleftrightarrow> 500000000 < d mod 2 ^ 32"
    by (simp add: assms(2) word_less_nat_alt unat_of_nat take_bit_eq_mod)
  then show ?thesis
    using assms(1) by (simp add: sleep_recovery_def Let_def avg_runtime_us_def)
qed

lemma recovered_sel [simp]:
  "packed_info (recovered inp c) = packed_info c" "next_slice (recovered inp c) = next_slice c"
  "burst_credit (recovered inp c) = burst_credit c" "overrun_count (recovered inp c) = overrun_count c"
  "lock_skip_count (recovered inp c) = lock_skip_count c" "last_run_at (recovered inp c) = last_run_at c"
  "enqueue_time (recovered inp c) = ucast (enq_now inp)"
  by (simp_all add: recovered_def)

lemma burst_earn_sel [simp]:
  "packed_info (burst_earn R t c) = packed_info c" "next_slice (burst_earn R t c) = next_slice c"
  "overrun_count (burst_earn R t c) = overrun_count c" "lock_skip_count (burst_earn R t c) = lock_skip_count c"
  "last_run_at (burst_earn R t c) = last_run_at c" "deficit_avg_fused (burst_earn R t c) = deficit_avg_fused c"
  "sleep_entry_time (burst_earn R t c) = sleep_entry_time c"
  by (simp_all add: burst_earn_def Let_def)

lemma credited_sel [simp]:
  "packed_info (credited R K inp c) = packed_info c" "next_slice (credited R K inp c) = next_slice c"
  "overrun_count (credited R K inp c) = overrun_count c" "lock_skip_count (credited R K inp c) = lock_skip_count c"
  "last_run_at (credited R K inp c) = last_run_at c"
  by (simp_all add: credited_def)

lemma burst_spend_sel [simp]:
  "packed_info (snd (burst_spend R sl c)) = packed_info c" "overrun_count (snd (burst_spend R sl c)) = overrun_count c"
  "lock_skip_count (snd (burst_spend R sl c)) = lock_skip_count c" "burst_credit (snd (burst_spend R sl c)) = 0"
  "last_run_at (snd (burst_spend R sl c)) = last_run_at c"
  "deficit_avg_fused (snd (burst_spend R sl c)) = deficit_avg_fused c"
  "sleep_entry_time (snd (burst_spend R sl c)) = sleep_entry_time c"
  by (simp_all add: burst_spend_def Let_def word_gt_0)

lemma advance_irq [simp]:
  "vtime_advance R (clear_flag CAKE_FLOW_IRQ_WAKE p) = vtime_advance R p"
  by (simp add: vtime_advance_def flag_simps)

lemma insert_llc_frame [frame_simps]:
  "task_ctx (insert_llc p l sl v f s) = task_ctx s" "mega_mailbox (insert_llc p l sl v f s) = mega_mailbox s"
  "tier_cpu_mask (insert_llc p l sl v f s) = tier_cpu_mask s" "llc_cpu_mask (insert_llc p l sl v f s) = llc_cpu_mask s"
  "global_stats (insert_llc p l sl v f s) = global_stats s"
  "kcalls (insert_llc p l sl v f s) = kcalls s @ [Dsq_insert_vtime p (LLC_DSQ_BASE + ucast l) sl v f]"
  by (simp_all add: insert_llc_def frame_simps)

definition kick_calls :: "kabi \<Rightarrow> u8 \<Rightarrow> u32 \<Rightarrow> sched \<Rightarrow> kcall list" where
  "kick_calls K tier llc s =
     (if tier \<le> CAKE_TIER_INTERACT
      then (case kick_victim llc s of Some v \<Rightarrow> [Kick_cpu v (SCX_KICK_PREEMPT K)] | None \<Rightarrow> []) else [])"

lemma preemption_kick_frame [frame_simps]:
  "task_ctx (preemption_kick K t l s) = task_ctx s" "mega_mailbox (preemption_kick K t l s) = mega_mailbox s"
  "tier_cpu_mask (preemption_kick K t l s) = tier_cpu_mask s" "llc_cpu_mask (preemption_kick K t l s) = llc_cpu_mask s"
  "llc_nonempty (preemption_kick K t l s) = llc_nonempty s" "global_stats (preemption_kick K t l s) = global_stats s"
  "kcalls (preemption_kick K t l s) = kcalls s @ kick_calls K t l s"
  by (simp_all add: preemption_kick_def kick_calls_def frame_simps split: option.split)

lemma kick_calls_cong:
  "llc_cpu_mask s = llc_cpu_mask s' \<Longrightarrow> tier_cpu_mask s = tier_cpu_mask s' \<Longrightarrow> kick_calls K t l s = kick_calls K t l s'"
  by (simp add: kick_calls_def kick_victim_def Let_def)

lemma nonempty_insert:
  assumes "length (llc_nonempty s) = 8"
  shows "llc_nonempty (insert_llc p l sl v f s) ! unat (l AND 7) \<noteq> 0"
    "i \<noteq> unat (l AND 7) \<Longrightarrow> llc_nonempty (insert_llc p l sl v f s) ! i = llc_nonempty s ! i"
    "length (llc_nonempty (insert_llc p l sl v f s)) = 8"
  using assms by (simp_all add: insert_llc_def llc_mark_nonempty_def Let_def emit_def unat_and_low)

lemma count_when_frame [frame_simps]:
  "task_ctx (count_when b R c f s) = task_ctx s" "llc_cpu_mask (count_when b R c f s) = llc_cpu_mask s"
  "mega_mailbox (count_when b R c f s) = mega_mailbox s" "llc_nonempty (count_when b R c f s) = llc_nonempty s"
  "tier_cpu_mask (count_when b R c f s) = tier_cpu_mask s" "kcalls (count_when b R c f s) = kcalls s"
  by (simp_all add: count_when_def frame_simps)

lemma sched_wf_insert_llc [wf_intros]: "sched_wf s \<Longrightarrow> sched_wf (insert_llc p l sl v f s)"
  by (simp add: insert_llc_def wf_intros)

lemma sched_wf_count_when [wf_intros]:
  "sched_wf s \<Longrightarrow> keeps_stat_shape f \<Longrightarrow> sched_wf (count_when b R c f s)"
  by (simp add: count_when_def wf_intros)

lemma sched_wf_kick [wf_intros]: "sched_wf s \<Longrightarrow> sched_wf (preemption_kick K t l s)"
  by (simp add: preemption_kick_def wf_intros split: option.split)

lemma dispatch_stat_shape [wf_intros]: "keeps_stat_shape (dispatch_stat nf t)"
  by (simp add: keeps_stat_shape_def dispatch_stat_def Let_def)

lemma counter_shapes [wf_intros]:
  "keeps_stat_shape (\<lambda>st. st\<lparr>nr_preempt_with_credit := a st\<rparr>)"
  "keeps_stat_shape (\<lambda>st. st\<lparr>nr_burst_credit_consumed := a st\<rparr>)"
  "keeps_stat_shape (\<lambda>st. st\<lparr>nr_irq_wake_boosts := a st\<rparr>)"
  "keeps_stat_shape (\<lambda>st. st\<lparr>nr_waker_tier_boosts := a st\<rparr>)"
  by (simp_all add: keeps_stat_shape_def)

lemma enqueue_full_decomp:
  assumes t: "t = enq_tier K (enq_flags inp) (mbox_flags (get_mbox (enq_smp_id inp AND 63) s)) c"
  shows "\<exists>u. enqueue_full R K inp p c llc s = preemption_kick K t llc (insert_llc (ts_id p) llc (enq_slice R K inp c)
        (tier_deadline R (enq_now inp) t (vtime_advance R (packed_info c))) (enq_flags inp) u)
      \<and> task_ctx u = (task_ctx s)(ts_id p \<mapsto> enq_ctx R K inp c) \<and> kcalls u = kcalls s
      \<and> mega_mailbox u = mega_mailbox s \<and> tier_cpu_mask u = tier_cpu_mask s
      \<and> llc_cpu_mask u = llc_cpu_mask s \<and> llc_nonempty u = llc_nonempty s \<and> (sched_wf s \<longrightarrow> sched_wf u)"
proof -
  obtain sl d where sp: "burst_spend R (next_slice c) (credited R K inp c) = (sl, d)" by (metis prod.exhaust)
  then have d: "packed_info d = packed_info c"
    using burst_spend_sel(1) [of R "next_slice c" "credited R K inp c"] by simp
  obtain b e where irq: "irq_override (ctx_tier c) d = (b, e)" by (metis prod.exhaust)
  then have be: "b = base_tier c" "vtime_advance R (packed_info e) = vtime_advance R (packed_info c)"
    using d by (auto simp: irq_override_def base_tier_def split: if_splits)
  have rec: "sleep_recovery (ucast (enq_now inp)) (c\<lparr>enqueue_time := ucast (enq_now inp)\<rparr>) = recovered inp c"
    by (simp add: recovered_def)
  have tier: "(ucast (CAKE_TIER_IDX (GET_TIER (recovered inp c))) :: u8) = ctx_tier c"
    by (simp add: ctx_tier_def)
  have ec: "enq_ctx R K inp c = e" "enq_slice R K inp c = sl"
    by (simp_all add: enq_ctx_def enq_slice_def sp irq)
  show ?thesis
    unfolding enqueue_full_def Let_def rec tier recovered_sel credited_def [symmetric] sp prod.case irq
      t enq_tier_def ec be get_mbox_def frame_simps
    by (rule exI, rule conjI, rule refl) (simp add: frame_simps wf_intros)
qed

lemma enqueue_full_effect:
  assumes s': "s' = enqueue_full R K inp p c llc s"
    and t: "t = enq_tier K (enq_flags inp) (mbox_flags (get_mbox (enq_smp_id inp AND 63) s)) c"
  shows "task_ctx s' = (task_ctx s)(ts_id p \<mapsto> enq_ctx R K inp c)"
    "kcalls s' = kcalls s @ Dsq_insert_vtime (ts_id p) (LLC_DSQ_BASE + ucast llc) (enq_slice R K inp c)
        (tier_deadline R (enq_now inp) t (vtime_advance R (packed_info c))) (enq_flags inp) # kick_calls K t llc s"
    "mega_mailbox s' = mega_mailbox s" "tier_cpu_mask s' = tier_cpu_mask s" "llc_cpu_mask s' = llc_cpu_mask s"
    "length (llc_nonempty s) = 8 \<Longrightarrow> llc_nonempty s' ! unat (llc AND 7) \<noteq> 0"
proof -
  obtain u where u: "s' = preemption_kick K t llc (insert_llc (ts_id p) llc (enq_slice R K inp c)
        (tier_deadline R (enq_now inp) t (vtime_advance R (packed_info c))) (enq_flags inp) u)"
    "task_ctx u = (task_ctx s)(ts_id p \<mapsto> enq_ctx R K inp c)" "kcalls u = kcalls s"
    "mega_mailbox u = mega_mailbox s" "tier_cpu_mask u = tier_cpu_mask s"
    "llc_cpu_mask u = llc_cpu_mask s" "llc_nonempty u = llc_nonempty s"
    using enqueue_full_decomp [OF t, of R p llc] s' by blast
  have "kick_calls K t llc (insert_llc (ts_id p) llc (enq_slice R K inp c)
        (tier_deadline R (enq_now inp) t (vtime_advance R (packed_info c))) (enq_flags inp) u) = kick_calls K t llc s"
    by (rule kick_calls_cong) (simp_all add: frame_simps u)
  then show "kcalls s' = kcalls s @ Dsq_insert_vtime (ts_id p) (LLC_DSQ_BASE + ucast llc) (enq_slice R K inp c)
        (tier_deadline R (enq_now inp) t (vtime_advance R (packed_info c))) (enq_flags inp) # kick_calls K t llc s"
    by (simp add: u(1,3) frame_simps)
  show "task_ctx s' = (task_ctx s)(ts_id p \<mapsto> enq_ctx R K inp c)" "mega_mailbox s' = mega_mailbox s"
    "tier_cpu_mask s' = tier_cpu_mask s" "llc_cpu_mask s' = llc_cpu_mask s"
    "length (llc_nonempty s) = 8 \<Longrightarrow> llc_nonempty s' ! unat (llc AND 7) \<noteq> 0"
    by (simp_all add: u frame_simps nonempty_insert)
qed

section \<open>Dispatch tier\<close>

lemma tier_word_cases:
  assumes "unat (t :: u8) < 4" "unat (w :: u8) < 4"
  shows "unat (case (if w < t then (let q = (if w < 1 then 1 else w) in if q < t then Some q else None) else None)
           of Some q \<Rightarrow> q | None \<Rightarrow> t) = (if t = 0 then 0 else min (unat t) (max 1 (unat w)))"
  using assms by (auto elim!: u8_less_4_cases simp: Let_def)

lemma unat_enq_tier:
  "unat (enq_tier K flags mbox c) =
     (if has_flag CAKE_FLOW_IRQ_WAKE (packed_info c) then 0
      else if flags AND SCX_ENQ_WAKEUP K \<noteq> 0 \<and> mbox AND MBOX_VALID_FLAG \<noteq> 0
      then min (unat (ctx_tier c)) (max 1 (unat (MBOX_GET_TIER mbox)))
      else unat (ctx_tier c))"
proof -
  have "unat (MBOX_GET_TIER mbox) < 4" by (simp add: MBOX_GET_TIER_def unat_and_3)
  from tier_word_cases [OF unat_ctx_tier this, of c] show ?thesis
    by (auto simp: enq_tier_def base_tier_def waker_promotes_def word_gt_0 Let_def)
qed

lemma enq_tier_less: "unat (enq_tier K flags mbox c) < 4"
  using unat_ctx_tier [of c] by (simp add: unat_enq_tier min_less_iff_disj)

section \<open>Sleep recovery and burst credit\<close>

lemma avg_sleep_recovery:
  "unat (avg_runtime_us (sleep_recovery now c)) =
     (if sleep_entry_time c \<noteq> 0 \<and> 500000000 < unat (now - sleep_entry_time c)
      then (unat (avg_runtime_us c) + unat (tier_sleep_mid ! unat (ctx_tier c))) div 2
      else unat (avg_runtime_us c))"
proof -
  have half: "unat (ucast (drop_bit (Suc 0) ((ucast (a :: u16) :: u32) + ucast (b :: u16))) :: u16) = (unat a + unat b) div 2" for a b
  proof -
    have bnd: "unat a < 65536" "unat b < 65536"
      using unsigned_less [of a, where 'a = nat] unsigned_less [of b, where 'a = nat] by simp_all
    then have "unat ((ucast a :: u32) + ucast b) = unat a + unat b"
      by (simp add: unat_word_ariths unat_ucast_id)
    then have "unat (drop_bit (Suc 0) ((ucast a :: u32) + ucast b)) = (unat a + unat b) div 2"
      using unat_drop_bit [of 1 "(ucast a :: u32) + ucast b"] by simp
    with bnd show ?thesis by (subst unat_ucast_id) simp_all
  qed
  have "(ucast (GET_TIER c) :: u8) = ctx_tier c" by (simp add: ctx_tier_def)
  then show ?thesis
    unfolding sleep_recovery_def Let_def
    by (simp add: avg_runtime_us_def word_less_nat_alt half)
qed

lemma unat_tier_sleep_mid: "unat t < 4 \<Longrightarrow> unat (tier_sleep_mid ! unat (t :: u8)) \<le> 8001"
  by (erule u8_less_4_cases) (simp_all add: tier_sleep_mid_def)

lemma burst_earn_from_zero:
  assumes "burst_credit c = 0"
  shows "unat (burst_credit (burst_earn R t c)) =
    min (unat (tier_burst_cap_kns R ! unat (CAKE_TIER_IDX t))) (unat (quantum_ns R) div 4096 mod 65536)"
proof -
  have "unat (ucast (drop_bit 12 (quantum_ns R)) :: u16) = unat (quantum_ns R) div 4096 mod 65536"
    using unat_drop_bit [of 12 "quantum_ns R"] by (simp add: unsigned_ucast_eq take_bit_eq_mod)
  moreover have "(ucast (ucast (x :: u16) :: u32) :: u16) = x" for x
    by (rule bit_word_eqI) (auto simp: bit_simps)
  ultimately show ?thesis
    using assms by (simp add: burst_earn_def Let_def min_def word_less_nat_alt not_less)
qed

lemma max_slice_eq: "drop_bit 10 (quantum_ns R * UNPACK_MULTIPLIER (tier_cfg R CAKE_TIER_FRAME)) = tier_slice R CAKE_TIER_FRAME"
  by (simp add: tier_slice_def)

lemma burst_spend_eq:
  "burst_spend R sl c =
     (if burst_credit c = 0 then (sl, c)
      else (let v = min (sl + push_bit 10 (ucast (burst_credit c))) (tier_slice R CAKE_TIER_FRAME)
            in (v, c\<lparr>next_slice := v, burst_credit := 0\<rparr>)))"
proof -
  have m: "(if a < b then a else b) = min a b" for a b :: u64
    by (auto simp: min_def)
  have tf: "tier_slice R 2 = drop_bit 10 (quantum_ns R * UNPACK_MULTIPLIER (tier_cfg R (2 :: u8)))"
    by (simp add: tier_slice_def)
  show ?thesis
    by (simp add: burst_spend_def Let_def word_gt_0 tier_slice_def m)
qed

lemma ctx_inv_enqueue [wf_intros]:
  assumes "ctx_inv R c"
  shows "ctx_inv R (enq_ctx R K inp c)"
proof -
  obtain sl d where sp: "burst_spend R (next_slice c) (credited R K inp c) = (sl, d)" by (metis prod.exhaust)
  have d: "d = snd (burst_spend R (next_slice c) (credited R K inp c))" by (simp add: sp)
  have bound: "next_slice d \<le> slice_bound R"
    using assms tier_slice_bound [of 2 R] unfolding d burst_spend_eq
    by (auto simp: Let_def ctx_inv_def min_le_iff_disj)
  have "ctx_inv R d"
    using assms bound by (simp add: ctx_inv_def d)
  then show ?thesis
    unfolding enq_ctx_def sp
    by (simp add: irq_override_def ctx_inv_def wf_intros flag_simps)
qed

section \<open>Properties\<close>

definition home_llc :: "rodata \<Rightarrow> enq_input \<Rightarrow> u32" where
  \<comment> \<open>the LLC of the task's own CPU, not of the CPU that enqueues it\<close>
  "home_llc R inp = cpu_llc_id R ! unat (enq_task_cpu inp AND 63) AND 7"

definition placed :: "kabi \<Rightarrow> enq_input \<Rightarrow> bool" where
  \<comment> \<open>a wakeup or a preemption: the paths that use the task context\<close>
  "placed K inp \<longleftrightarrow> enq_flags inp AND (SCX_ENQ_WAKEUP K OR SCX_ENQ_PREEMPT K) \<noteq> 0"

lemma imperator_enqueue_eq:
  "imperator_enqueue R K inp p s =
     (case task_ctx s (ts_id p) of
        Some c \<Rightarrow> if placed K inp then enqueue_full R K inp p c (home_llc R inp) s
          else insert_llc (ts_id p) (home_llc R inp) (quantum_ns R)
                 (tier_deadline R (enq_now inp) (ctx_tier c) 0) (enq_flags inp) s
      | None \<Rightarrow> insert_llc (ts_id p) (home_llc R inp) (quantum_ns R)
          (tier_deadline R (enq_now inp)
             (if ts_flags p AND PF_KTHREAD K \<noteq> 0 then CAKE_TIER_INTERACT
              else if placed K inp then CAKE_TIER_FRAME else CAKE_TIER_BULK) 0) (enq_flags inp) s)"
  by (simp add: imperator_enqueue_def Let_def home_llc_def placed_def ctx_tier_def split: option.split)

lemma home_llc_idx: "home_llc R inp AND 7 = home_llc R inp"
  by (simp add: home_llc_def and.assoc)

text \<open>
  C31. Every enqueue queues the task exactly once, on the queue of its own LLC, which is then marked
  non-empty, and makes at most one more call: a preemption kick.
\<close>

theorem enqueue_inserts_once:
  assumes "sched_wf s" and s': "s' = imperator_enqueue R K inp p s" and llc: "llc = home_llc R inp"
  shows "\<exists>slc vtime kicks. kcalls s' = kcalls s @ Dsq_insert_vtime (ts_id p) (LLC_DSQ_BASE + ucast llc) slc vtime
        (enq_flags inp) # kicks
    \<and> (kicks = [] \<or> (\<exists>v. kicks = [Kick_cpu v (SCX_KICK_PREEMPT K)]))
    \<and> llc_nonempty s' ! unat llc \<noteq> 0"
proof -
  have len: "length (llc_nonempty s) = 8" using assms(1) by (simp add: sched_wf_def)
  have k: "kick_calls K t l u = [] \<or> (\<exists>v. kick_calls K t l u = [Kick_cpu v (SCX_KICK_PREEMPT K)])" for t l u
    by (simp add: kick_calls_def split: option.split)
  have full: ?thesis if "s' = enqueue_full R K inp p c llc s" for c
    using enqueue_full_effect(2,6) [OF that refl] len home_llc_idx [of R inp] k by (auto simp: llc)
  have early: ?thesis if "s' = insert_llc (ts_id p) llc sl v (enq_flags inp) s" for sl v
    using that nonempty_insert(1) [OF len, of "ts_id p" llc sl v "enq_flags inp"] home_llc_idx [of R inp]
    by (simp add: frame_simps llc)
  show ?thesis
    using full early unfolding s' imperator_enqueue_eq llc by (auto split: option.splits if_splits)
qed

definition example_enq :: enq_input where
  "example_enq = \<lparr>enq_smp_id = 3, enq_now = 70000000, enq_task_cpu = 3, enq_flags = 1\<rparr>"

theorem enqueue_inserts_once_witness:
  "\<exists>slc vtime kicks. kcalls (imperator_enqueue rodata_default example_kabi example_enq example_task example_sched)
     = Dsq_insert_vtime 7 200 slc vtime 1 # kicks"
  using enqueue_inserts_once [OF _ refl refl, of example_sched rodata_default example_kabi example_enq example_task]
  by (auto simp: home_llc_def example_enq_def rodata_default_def example_task_def)

text \<open>
  C9. A wakeup or preemption is queued at the tier the rules give: T0 after an interrupt wakeup,
  otherwise on a wakeup the better of the task's own tier and its waker's tier, the latter never
  counted better than T1 and only when the waker's mailbox was ever written; its deadline is that
  tier's with the new-flow and lock-holder advances. The task's stored tier does not change.
\<close>

theorem enqueue_tier_and_deadline:
  assumes c: "task_ctx s (ts_id p) = Some c" and pl: "placed K inp"
    and mbox: "mbox = mbox_flags (get_mbox (enq_smp_id inp AND 63) s)"
    and s': "s' = imperator_enqueue R K inp p s"
  shows "\<exists>t slc kicks c'. kcalls s' = kcalls s @ Dsq_insert_vtime (ts_id p) (LLC_DSQ_BASE + ucast (home_llc R inp)) slc
        (tier_deadline R (enq_now inp) t (vtime_advance R (packed_info c))) (enq_flags inp) # kicks
    \<and> unat t = (if has_flag CAKE_FLOW_IRQ_WAKE (packed_info c) then 0
        else if enq_flags inp AND SCX_ENQ_WAKEUP K \<noteq> 0 \<and> mbox AND MBOX_VALID_FLAG \<noteq> 0
        then min (unat (ctx_tier c)) (max 1 (unat (MBOX_GET_TIER mbox)))
        else unat (ctx_tier c))
    \<and> task_ctx s' = (task_ctx s)(ts_id p \<mapsto> c') \<and> ctx_tier c' = ctx_tier c
    \<and> packed_info c' = clear_flag CAKE_FLOW_IRQ_WAKE (packed_info c) \<and> slc = enq_slice R K inp c"
proof -
  have s'': "s' = enqueue_full R K inp p c (home_llc R inp) s"
    using c pl by (simp add: s' imperator_enqueue_eq)
  have packed: "packed_info (enq_ctx R K inp c) = clear_flag CAKE_FLOW_IRQ_WAKE (packed_info c)"
    using irq_flag.clear_id by (simp add: enq_ctx_def irq_override_def)
  then have "ctx_tier (enq_ctx R K inp c) = ctx_tier c" by (simp add: ctx_tier_def)
  with packed enqueue_full_effect(1,2) [OF s'' refl] show ?thesis
    by (intro exI [of _ "enq_tier K (enq_flags inp) mbox c"] exI [of _ "enq_slice R K inp c"]
        exI [of _ "kick_calls K (enq_tier K (enq_flags inp) mbox c) (home_llc R inp) s"]
        exI [of _ "enq_ctx R K inp c"]) (simp add: unat_enq_tier mbox)
qed

theorem enqueue_tier_and_deadline_witness:
  "\<exists>slc kicks. kcalls (imperator_enqueue rodata_default example_kabi example_enq example_task example_sched)
     = Dsq_insert_vtime 7 200 slc (tier_deadline rodata_default 70000000 1 8000000) 1 # kicks"
proof -
  have a: "vtime_advance rodata_default (packed_info example_ctx) = 8000000"
    "\<not> has_flag CAKE_FLOW_IRQ_WAKE (packed_info example_ctx)"
    by (simp_all add: vtime_advance_def flag_simps bit_iff_odd_drop_bit rodata_default_def)
  have pl: "placed example_kabi example_enq" by (simp add: placed_def example_kabi_def example_enq_def)
  have c: "task_ctx example_sched (ts_id example_task) = Some example_ctx" by (simp add: example_task_def)
  from enqueue_tier_and_deadline [OF c pl refl refl, of rodata_default] a
  obtain t slc kicks where "kcalls (imperator_enqueue rodata_default example_kabi example_enq example_task example_sched)
      = Dsq_insert_vtime 7 200 slc (tier_deadline rodata_default 70000000 t 8000000) 1 # kicks" "unat t = 1"
    by (auto simp: example_enq_def example_task_def home_llc_def rodata_default_def)
  then show ?thesis by (metis word_unat_eq_iff unat_1)
qed

text \<open>
  The early exits: a kernel thread without context is queued at T1, a task that yields or
  exhausted its slice at its own tier (T3 without context), another task without context at T2;
  all with the base quantum, no advance, no kick, and every task context untouched.
\<close>

theorem enqueue_early_exits:
  assumes "task_ctx s (ts_id p) = None \<or> \<not> placed K inp"
    and t: "t = (case task_ctx s (ts_id p) of Some c \<Rightarrow> ctx_tier c
       | None \<Rightarrow> if ts_flags p AND PF_KTHREAD K \<noteq> 0 then CAKE_TIER_INTERACT
                 else if placed K inp then CAKE_TIER_FRAME else CAKE_TIER_BULK)"
  shows "imperator_enqueue R K inp p s = insert_llc (ts_id p) (home_llc R inp) (quantum_ns R)
      (tier_deadline R (enq_now inp) t 0) (enq_flags inp) s
    \<and> task_ctx (imperator_enqueue R K inp p s) = task_ctx s"
proof -
  have "imperator_enqueue R K inp p s = insert_llc (ts_id p) (home_llc R inp) (quantum_ns R)
      (tier_deadline R (enq_now inp) t 0) (enq_flags inp) s"
    using assms(1) unfolding imperator_enqueue_eq t by (auto split: option.splits)
  then show ?thesis by (simp add: frame_simps)
qed

theorem enqueue_early_exits_witness:
  "kcalls (imperator_enqueue rodata_default example_kabi (example_enq\<lparr>enq_flags := 0\<rparr>) example_task example_sched)
   = [Dsq_insert_vtime 7 200 2000000 (tier_deadline rodata_default 70000000 1 0) 0]"
proof -
  have "\<not> placed example_kabi (example_enq\<lparr>enq_flags := 0\<rparr>)" by (simp add: placed_def)
  with enqueue_early_exits [OF _ refl, of example_sched example_task example_kabi "example_enq\<lparr>enq_flags := 0\<rparr>" rodata_default]
  show ?thesis
    by (simp add: frame_simps) (simp add: example_enq_def example_task_def home_llc_def rodata_default_def)
qed

text \<open>
  After a genuine sleep of more than half a second the average moves half-way to the middle of
  the task's tier, and not at all otherwise; either way the sleep stamp is consumed, the enqueue
  time is stamped, and deficit, tier and burst accumulator are kept.
\<close>

theorem sleep_recovery_halves_distance:
  assumes c: "task_ctx s (ts_id p) = Some c" and pl: "placed K inp"
    and s': "s' = imperator_enqueue R K inp p s"
    and slept: "slept = unat ((ucast (enq_now inp) :: u32) - sleep_entry_time c)"
    and mid: "mid = unat (tier_sleep_mid ! unat (ctx_tier c))"
  shows "\<exists>c'. task_ctx s' (ts_id p) = Some c' \<and> sleep_entry_time c' = 0 \<and> enqueue_time c' = ucast (enq_now inp)
    \<and> unat (avg_runtime_us c') =
        (if sleep_entry_time c \<noteq> 0 \<and> 500000000 < slept then (unat (avg_runtime_us c) + mid) div 2
         else unat (avg_runtime_us c))
    \<and> deficit_us c' = deficit_us c \<and> ctx_tier c' = ctx_tier c \<and> burst_acc_us c' = burst_acc_us c"
proof -
  obtain sl d where sp: "burst_spend R (next_slice c) (credited R K inp c) = (sl, d)" by (metis prod.exhaust)
  have sel: "sleep_entry_time (credited R K inp c) = 0" "enqueue_time (credited R K inp c) = ucast (enq_now inp)"
    "deficit_us (credited R K inp c) = deficit_us c" "burst_acc_us (credited R K inp c) = burst_acc_us c"
    "avg_runtime_us (credited R K inp c) = avg_runtime_us (recovered inp c)"
    by (simp_all add: credited_def recovered_def burst_earn_def Let_def avg_runtime_us_def deficit_us_def)
      (simp_all add: sleep_recovery_def Let_def)
  have d: "sleep_entry_time d = 0" "enqueue_time d = ucast (enq_now inp)" "deficit_us d = deficit_us c"
    "burst_acc_us d = burst_acc_us c" "avg_runtime_us d = avg_runtime_us (recovered inp c)" "packed_info d = packed_info c"
    using sel sp unfolding burst_spend_eq
    by (auto simp: Let_def avg_runtime_us_def deficit_us_def split: if_splits)
  have avg: "unat (avg_runtime_us (recovered inp c)) =
        (if sleep_entry_time c \<noteq> 0 \<and> 500000000 < slept then (unat (avg_runtime_us c) + mid) div 2
         else unat (avg_runtime_us c))"
    using avg_sleep_recovery [of "ucast (enq_now inp)" "c\<lparr>enqueue_time := ucast (enq_now inp)\<rparr>"]
    by (simp add: recovered_def slept mid avg_runtime_us_def ctx_tier_def)
  have "task_ctx s' (ts_id p) = Some (enq_ctx R K inp c)"
    using c pl enqueue_full_effect(1) [OF refl refl] by (simp add: s' imperator_enqueue_eq)
  moreover have "ctx_tier (enq_ctx R K inp c) = ctx_tier c"
    by (simp add: enq_ctx_def sp irq_override_def ctx_tier_def d)
  ultimately show ?thesis
    using d avg by (simp add: enq_ctx_def sp irq_override_def avg_runtime_us_def deficit_us_def)
qed

theorem sleep_recovery_halves_distance_witness:
  "\<exists>c'. task_ctx (imperator_enqueue rodata_default example_kabi (example_enq\<lparr>enq_now := 700000000\<rparr>) example_task
       (example_sched\<lparr>task_ctx := [7 \<mapsto> example_ctx\<lparr>sleep_entry_time := 5000\<rparr>]\<rparr>)) 7 = Some c'
     \<and> unat (avg_runtime_us c') = 1025"
proof -
  have t: "ctx_tier (example_ctx\<lparr>sleep_entry_time := 5000\<rparr>) = 1"
    by (simp add: ctx_tier_def packed_tier_def)
  have a: "unat (avg_runtime_us (example_ctx\<lparr>sleep_entry_time := 5000\<rparr>)) = 1000"
    by (simp add: avg_runtime_us_def example_ctx_def)
  have pl: "placed example_kabi (example_enq\<lparr>enq_now := 700000000\<rparr>)"
    by (simp add: placed_def example_kabi_def example_enq_def)
  show ?thesis
    using sleep_recovery_halves_distance
        [of "example_sched\<lparr>task_ctx := [7 \<mapsto> example_ctx\<lparr>sleep_entry_time := 5000\<rparr>]\<rparr>" example_task
          "example_ctx\<lparr>sleep_entry_time := 5000\<rparr>", OF _ pl refl refl refl, of rodata_default] a
    by (auto simp: t tier_sleep_mid_def) (auto simp: example_task_def example_ctx_def)
qed

lemma enq_slice_eq:
  assumes "burst_credit c = 0"
  shows "enq_slice R K inp c =
     (if burst_earns R K (enq_flags inp) (ctx_tier c) \<and> burst_credit (credited R K inp c) \<noteq> 0
      then min (next_slice c + push_bit 10 (ucast (burst_credit (credited R K inp c)))) (tier_slice R CAKE_TIER_FRAME)
      else next_slice c)"
  using assms by (auto simp: enq_slice_def burst_spend_eq Let_def credited_def)

lemma next_slice_enq_ctx:
  assumes "burst_credit c = 0"
  shows "next_slice (enq_ctx R K inp c) = enq_slice R K inp c" "burst_credit (enq_ctx R K inp c) = 0"
  using assms by (auto simp: enq_ctx_def enq_slice_def burst_spend_eq Let_def irq_override_def credited_def)

lemma unat_push10: "unat (push_bit 10 (ucast (x :: u16) :: u64)) = unat x * 1024"
proof -
  have "unat x < 65536" using unsigned_less [of x, where 'a = nat] by simp
  then have "unat (ucast x :: u64) = unat x" "unat x * 1024 < 2 ^ 64"
    by (simp_all add: unat_ucast_id)
  then show ?thesis
    by (simp add: push_bit_eq_mult unat_word_ariths)
qed

text \<open>
  Burst credit: only a preempted T1 or T2 task (T3 too in simulation mode) gets a longer
  slice, by a quarter quantum capped per tier, never past the natural T2 slice; the tick's slice
  limit is raised with it, the credit is spent at once, and T0 never gets any.
\<close>

theorem burst_credit_extends_slice:
  assumes c: "task_ctx s (ts_id p) = Some c" and pl: "placed K inp" and "burst_credit c = 0"
    and nowrap: "unat (next_slice c) < 2 ^ 63"
    and credit: "credit = min (unat (tier_burst_cap_kns R ! unat (ctx_tier c))) (unat (quantum_ns R) div 4096 mod 65536)"
    and s': "s' = imperator_enqueue R K inp p s"
  shows "\<exists>slc vtime kicks c'. kcalls s' = kcalls s @ Dsq_insert_vtime (ts_id p) (LLC_DSQ_BASE + ucast (home_llc R inp)) slc
        vtime (enq_flags inp) # kicks
    \<and> unat slc = (if burst_earns R K (enq_flags inp) (ctx_tier c) \<and> credit \<noteq> 0
        then min (unat (next_slice c) + credit * 1024) (unat (tier_slice R CAKE_TIER_FRAME))
        else unat (next_slice c))
    \<and> task_ctx s' (ts_id p) = Some c' \<and> next_slice c' = slc \<and> burst_credit c' = 0
    \<and> (ctx_tier c = 0 \<longrightarrow> slc = next_slice c)"
proof -
  let ?e = "burst_earns R K (enq_flags inp) (ctx_tier c)" and ?b = "burst_credit (credited R K inp c)"
  have b: "unat ?b = credit" if ?e
    using that burst_earn_from_zero [of "recovered inp c" R "ctx_tier c"] assms(3)
    by (simp add: credited_def credit)
  then have nz: "?b \<noteq> 0 \<longleftrightarrow> credit \<noteq> 0" if ?e
    using b [OF that] unat_0_iff [of ?b] by auto
  have "credit < 65536" by (simp add: credit min_less_iff_disj)
  then have sum: "unat (next_slice c + push_bit 10 (ucast ?b)) = unat (next_slice c) + credit * 1024" if ?e
    using nowrap b [OF that] unat_push10 [of ?b] by (simp add: unat_word_ariths)
  have slc: "unat (enq_slice R K inp c) = (if ?e \<and> credit \<noteq> 0
        then min (unat (next_slice c) + credit * 1024) (unat (tier_slice R CAKE_TIER_FRAME))
        else unat (next_slice c))"
    using nz sum unfolding enq_slice_eq [OF assms(3)]
    by (auto simp: min_def word_le_nat_alt)
  have t0: "ctx_tier c = 0 \<Longrightarrow> \<not> ?e" by (simp add: burst_earns_def)
  have s'': "s' = enqueue_full R K inp p c (home_llc R inp) s"
    using c pl by (simp add: s' imperator_enqueue_eq)
  show ?thesis
    using enqueue_full_effect(1,2) [OF s'' refl] slc t0 next_slice_enq_ctx [OF assms(3)] enq_slice_eq [OF assms(3)]
    by auto
qed

theorem burst_credit_extends_slice_witness:
  "\<exists>slc vtime kicks. kcalls (imperator_enqueue rodata_default example_kabi
      (example_enq\<lparr>enq_flags := 0x100000000\<rparr>) example_task example_sched)
     = Dsq_insert_vtime 7 200 slc vtime 0x100000000 # kicks \<and> unat slc = 2000000 + 488 * 1024"
proof -
  have c: "task_ctx example_sched (ts_id example_task) = Some example_ctx" by (simp add: example_task_def)
  have pl: "placed example_kabi (example_enq\<lparr>enq_flags := 0x100000000\<rparr>)"
    by (simp add: placed_def example_kabi_def)
  have e: "burst_earns rodata_default example_kabi 0x100000000 1"
    by (simp add: burst_earns_def example_kabi_def rodata_default_def tier_burst_cap_kns_def CAKE_TIER_IDX_def)
  have n: "next_slice example_ctx = 2000000" "burst_credit example_ctx = 0" by (simp_all add: example_ctx_def)
  have m: "tier_slice rodata_default 2 = 4000000"
    by (simp add: tier_slice_def rodata_default_def tier_cfg_def tier_configs_default_def CAKE_TIER_IDX_def)
  have q: "min (unat (tier_burst_cap_kns rodata_default ! unat (ctx_tier example_ctx)))
      (unat (quantum_ns rodata_default) div 4096 mod 65536) = 488"
    by (simp add: tier_burst_cap_kns_def rodata_default_def)
  have l: "home_llc rodata_default (example_enq\<lparr>enq_flags := 0x100000000\<rparr>) = 0" "ts_id example_task = 7"
    by (simp_all add: rodata_default_def example_task_def home_llc_def example_enq_def)
  have lt: "unat (next_slice example_ctx) < 2 ^ 63" by (simp add: n)
  from burst_credit_extends_slice [OF c pl n(2) lt q [symmetric] refl]
  obtain slc vtime kicks where
    "kcalls (imperator_enqueue rodata_default example_kabi (example_enq\<lparr>enq_flags := 0x100000000\<rparr>) example_task
        example_sched) = kcalls example_sched @ Dsq_insert_vtime (ts_id example_task) (200 +
          ucast (home_llc rodata_default (example_enq\<lparr>enq_flags := 0x100000000\<rparr>))) slc vtime
          (enq_flags (example_enq\<lparr>enq_flags := 0x100000000\<rparr>)) # kicks"
    "unat slc = (if burst_earns rodata_default example_kabi (enq_flags (example_enq\<lparr>enq_flags := 0x100000000\<rparr>))
        (ctx_tier example_ctx) \<and> (488 :: nat) \<noteq> 0
      then min (unat (next_slice example_ctx) + 488 * 1024) (unat (tier_slice rodata_default 2))
      else unat (next_slice example_ctx))" by blast
  then show ?thesis
    unfolding l by (simp add: e m n)
qed

lemma burst_step:
  assumes c: "task_ctx s (ts_id p) = Some c" and pl: "placed K inp" and "burst_credit c = 0"
  shows "task_ctx (imperator_enqueue R K inp p s) (ts_id p) = Some (enq_ctx R K inp c)"
    "next_slice (enq_ctx R K inp c) = enq_slice R K inp c"
    "\<exists>vtime kicks. kcalls (imperator_enqueue R K inp p s) = kcalls s @ Dsq_insert_vtime (ts_id p)
       (LLC_DSQ_BASE + ucast (home_llc R inp)) (enq_slice R K inp c) vtime (enq_flags inp) # kicks"
  using enqueue_full_effect(1,2) [OF refl refl] next_slice_enq_ctx [OF assms(3)] c pl
  by (simp_all add: imperator_enqueue_eq)

text \<open>
  In simulation mode the credit works backwards for T3: a preempted T3 task whose slice is the
  natural T3 slice, longer than the natural T2 slice, is dispatched with at most the T2 slice, and
  its tick limit drops with it.
\<close>

theorem sim_credit_shortens_bulk:
  assumes c: "task_ctx s (ts_id p) = Some c" and pl: "placed K inp" and "burst_credit c = 0"
    and sim: "sim_mode R" "ctx_tier c = CAKE_TIER_BULK" "enq_flags inp AND SCX_ENQ_PREEMPT K \<noteq> 0"
    and q: "unat (quantum_ns R) div 4096 mod 65536 \<noteq> 0"
    and sl: "next_slice c = tier_slice R CAKE_TIER_BULK" "tier_slice R CAKE_TIER_FRAME < tier_slice R CAKE_TIER_BULK"
  shows "\<exists>slc vtime kicks c'. kcalls (imperator_enqueue R K inp p s) = kcalls s @ Dsq_insert_vtime (ts_id p)
       (LLC_DSQ_BASE + ucast (home_llc R inp)) slc vtime (enq_flags inp) # kicks
    \<and> task_ctx (imperator_enqueue R K inp p s) (ts_id p) = Some c' \<and> next_slice c' = slc
    \<and> slc \<le> tier_slice R CAKE_TIER_FRAME \<and> slc < next_slice c"
proof -
  have e: "burst_earns R K (enq_flags inp) (ctx_tier c)"
    using sim by (simp add: burst_earns_def tier_burst_cap_kns_def CAKE_TIER_IDX_def)
  have "unat (burst_credit (credited R K inp c)) \<noteq> 0"
    using burst_earn_from_zero [of "recovered inp c" R "ctx_tier c"] assms(3) q e sim(1,2)
    by (simp add: credited_def tier_burst_cap_kns_def CAKE_TIER_IDX_def min_def)
  then have "burst_credit (credited R K inp c) \<noteq> 0" by auto
  then have "enq_slice R K inp c \<le> tier_slice R CAKE_TIER_FRAME"
    using e by (simp add: enq_slice_eq [OF assms(3)])
  with sl have "enq_slice R K inp c \<le> tier_slice R CAKE_TIER_FRAME \<and> enq_slice R K inp c < next_slice c"
    by simp
  with burst_step [OF c pl assms(3), of R] show ?thesis by blast
qed

lemma sim_slices:
  "tier_slice (rodata_default\<lparr>sim_mode := True\<rparr>) 2 = 4000000"
  "tier_slice (rodata_default\<lparr>sim_mode := True\<rparr>) 3 = 7998046"
  by (simp_all add: tier_slice_def rodata_default_def tier_cfg_def tier_configs_default_def CAKE_TIER_IDX_def)

theorem sim_credit_shortens_bulk_witness:
  "let R = rodata_default\<lparr>sim_mode := True\<rparr>; c = example_ctx\<lparr>packed_info := 0x30000000, next_slice := 7998046\<rparr>;
       s = imperator_enqueue R example_kabi (example_enq\<lparr>enq_flags := 0x100000000\<rparr>) example_task
             (example_sched\<lparr>task_ctx := [7 \<mapsto> c]\<rparr>)
   in \<exists>c'. task_ctx s 7 = Some c' \<and> next_slice c' \<le> 4000000"
proof -
  let ?R = "rodata_default\<lparr>sim_mode := True\<rparr>" and ?c = "example_ctx\<lparr>packed_info := 0x30000000, next_slice := 7998046\<rparr>"
  have t: "ctx_tier ?c = 3" by (simp add: ctx_tier_def packed_tier_def)
  have pl: "placed example_kabi (example_enq\<lparr>enq_flags := 0x100000000\<rparr>)" by (simp add: placed_def example_kabi_def)
  have c: "task_ctx (example_sched\<lparr>task_ctx := [7 \<mapsto> ?c]\<rparr>) (ts_id example_task) = Some ?c"
    by (simp add: example_task_def)
  have z: "burst_credit ?c = 0" by (simp add: example_ctx_def)
  have q: "unat (quantum_ns ?R) div 4096 mod 65536 \<noteq> 0" by (simp add: rodata_default_def)
  show ?thesis
    using sim_credit_shortens_bulk [OF c pl z _ t _ q] sim_slices
    by (auto simp: Let_def example_kabi_def example_task_def)
qed

text \<open>
  A burst extension is not limited to one bout: while the task's stops take the backoff path,
  the extended slice survives the run and stays the tick limit and the base of the next extension
  (the T2 slice still bounds it).
\<close>

theorem burst_extension_survives_backoff:
  assumes c: "task_ctx s (ts_id p) = Some c" and pl: "placed K inp" and z: "burst_credit c = 0"
    and bk: "takes_backoff c" and run: "(ucast now :: u32) \<noteq> 0"
    and s': "s' = imperator_stopping R smp now1 now2 (ts_id p) runnable
               (imperator_running R smp now (ts_id p) (imperator_enqueue R K inp p s))"
  shows "\<exists>c'. task_ctx s' (ts_id p) = Some c' \<and> next_slice c' = enq_slice R K inp c \<and> ctx_tier c' = ctx_tier c"
proof -
  let ?e = "enq_ctx R K inp c" and ?s1 = "imperator_enqueue R K inp p s"
  let ?r = "(run_ctx now ?e)\<lparr>sleep_entry_time := (if \<not> runnable then ucast now1 else 0)\<rparr>"
  have p1: "packed_info ?e = clear_flag CAKE_FLOW_IRQ_WAKE (packed_info c)"
    using irq_flag.clear_id by (simp add: enq_ctx_def irq_override_def)
  have rc: "reclass_counter ?e = reclass_counter c"
    by (simp add: enq_ctx_def irq_override_def burst_spend_def credited_def burst_earn_def recovered_def
        sleep_recovery_def Let_def)
  have "reclass_counter ?r = reclass_counter c" "packed_info ?r = clear_flag CAKE_FLOW_IRQ_WAKE (packed_info c)"
    by (simp_all add: run_ctx_def dispatch_latency_def rc p1)
  then have tb: "takes_backoff ?r" and ct: "ctx_tier ?r = ctx_tier c"
    using bk by (simp_all add: takes_backoff_def ctx_tier_def)
  have lr: "last_run_at ?r \<noteq> 0" "last_run_at (run_ctx now ?e) \<noteq> 0"
    using run by (simp_all add: run_ctx_def)
  have ns: "next_slice ?r = enq_slice R K inp c"
    using next_slice_enq_ctx(1) [OF z] by (simp add: run_ctx_def)
  have c1: "task_ctx (imperator_running R smp now (ts_id p) ?s1) (ts_id p) = Some (run_ctx now ?e)"
    using running_state(1) [OF burst_step(1) [OF c pl z]] by simp
  have "task_ctx s' (ts_id p) = Some (reclassify_task_cold R now2 runnable ?r)"
    unfolding s' stopping_state [OF c1 lr(2)] by (simp add: frame_simps stop_ctx_def)
  with reclassify_backoff_pass(1,2) [OF lr(1) tb refl, of R now2 runnable] ns ct show ?thesis by simp
qed

theorem burst_extension_survives_backoff_witness:
  "\<exists>c'. task_ctx (imperator_stopping rodata_default 3 73000000 73000000 7 True (imperator_running rodata_default 3 71000000 7
       (imperator_enqueue rodata_default example_kabi (example_enq\<lparr>enq_flags := 0x100000000\<rparr>) example_task
          (example_sched\<lparr>task_ctx := [7 \<mapsto> example_ctx\<lparr>packed_info := 0xD0000000\<rparr>]\<rparr>)))) 7 = Some c'
     \<and> next_slice c' = 2499712"
proof -
  let ?c = "example_ctx\<lparr>packed_info := 0xD0000000\<rparr>" and ?i = "example_enq\<lparr>enq_flags := 0x100000000\<rparr>"
  have t: "ctx_tier ?c = 1" by (simp add: ctx_tier_def packed_tier_def)
  have bk: "takes_backoff ?c"
    by (simp add: takes_backoff_def t packed_stable_def tier_recheck_mask_def CAKE_TIER_IDX_def)
  have pl: "placed example_kabi ?i" by (simp add: placed_def example_kabi_def)
  have c: "task_ctx (example_sched\<lparr>task_ctx := [7 \<mapsto> ?c]\<rparr>) (ts_id example_task) = Some ?c"
    by (simp add: example_task_def)
  have z: "burst_credit ?c = 0" by (simp add: example_ctx_def)
  have e: "burst_earns rodata_default example_kabi (enq_flags ?i) (ctx_tier ?c)"
    by (simp add: t burst_earns_def example_kabi_def rodata_default_def tier_burst_cap_kns_def CAKE_TIER_IDX_def)
  have "unat (burst_credit (credited rodata_default example_kabi ?i ?c)) = 488"
    using burst_earn_from_zero [of "recovered ?i ?c" rodata_default "ctx_tier ?c"] e z
    by (simp add: credited_def t tier_burst_cap_kns_def rodata_default_def CAKE_TIER_IDX_def)
  then have "burst_credit (credited rodata_default example_kabi ?i ?c) = 488"
    by (simp add: word_unat_eq_iff)
  moreover have "tier_slice rodata_default 2 = 4000000"
    by (simp add: tier_slice_def rodata_default_def tier_cfg_def tier_configs_default_def CAKE_TIER_IDX_def)
  moreover have "next_slice ?c = 2000000" by (simp add: example_ctx_def)
  ultimately have sl: "enq_slice rodata_default example_kabi ?i ?c = 2499712"
    using e by (simp add: enq_slice_eq [OF z])
  have r: "(ucast (71000000 :: u64) :: u32) \<noteq> 0" by simp
  show ?thesis
    using burst_extension_survives_backoff [OF c pl z bk r refl, of rodata_default 3 73000000 73000000 True] sl
    by (auto simp: example_task_def)
qed

definition victims :: "sched \<Rightarrow> u32 \<Rightarrow> nat \<Rightarrow> nat set" where
  \<comment> \<open>the CPUs of an LLC that are marked as running a task of tier \<open>t\<close>\<close>
  "victims s llc t = {i. on_cpu s t i \<and> bit (llc_cpu_mask s ! unat llc) i}"

lemma kick_victim_spec:
  assumes "llc AND 7 = llc"
  shows "kick_victim llc s = None \<longleftrightarrow> victims s llc 3 = {} \<and> victims s llc 2 = {}"
    "kick_victim llc s = Some v \<Longrightarrow> (let V = (if victims s llc 3 \<noteq> {} then victims s llc 3 else victims s llc 2)
       in unat v \<in> V \<and> (\<forall>i \<in> V. unat v \<le> i))"
proof -
  have v: "victims s llc t = {i. bit (tier_cpu_mask s ! t AND llc_cpu_mask s ! unat llc) i}" if "t < 4" for t
    using that by (auto simp: victims_def on_cpu_def bit_and_iff)
  have ne: "{i. bit w i} = {} \<longleftrightarrow> w = 0" for w :: u64
    using bits_asc_Nil [of w] set_bits_asc [of w] by (metis set_empty)
  show "kick_victim llc s = None \<longleftrightarrow> victims s llc 3 = {} \<and> victims s llc 2 = {}"
    unfolding kick_victim_def Let_def assms v [of 3, simplified] v [of 2, simplified] ne by simp
  show "kick_victim llc s = Some v \<Longrightarrow> (let V = (if victims s llc 3 \<noteq> {} then victims s llc 3 else victims s llc 2)
       in unat v \<in> V \<and> (\<forall>i \<in> V. unat v \<le> i))"
    unfolding kick_victim_def Let_def assms v [of 3, simplified] v [of 2, simplified] ne
    using bsf64.scan_bit bsf64.scan_le by (auto split: if_splits)
qed

lemma kick_calls_spec:
  assumes "kick_victim llc s = None \<longleftrightarrow> V = {}"
    and "\<And>v. kick_victim llc s = Some v \<Longrightarrow> unat v \<in> V \<and> (\<forall>i \<in> V. unat v \<le> i)"
  shows "length (kick_calls K t llc s) \<le> 1 \<and> (kick_calls K t llc s = [] \<longleftrightarrow> 1 < unat t \<or> V = {})
    \<and> (\<forall>k \<in> set (kick_calls K t llc s). \<exists>v. k = Kick_cpu v (SCX_KICK_PREEMPT K) \<and> unat v \<in> V \<and> (\<forall>i \<in> V. unat v \<le> i))"
proof (cases "t \<le> 1")
  case False
  then have "1 < unat t" by (simp only: word_le_nat_alt unat_1 not_le)
  then show ?thesis using False unfolding kick_calls_def by (simp only: if_False) auto
next
  case True
  then have t: "\<not> 1 < unat t" by (simp only: word_le_nat_alt unat_1 not_less)
  show ?thesis
  proof (cases "kick_victim llc s")
    case None
    then show ?thesis
      using assms(1) True unfolding kick_calls_def by (simp only: option.case if_True) auto
  next
    case (Some v)
    then have "V \<noteq> {}" using assms(1) by auto
    then show ?thesis
      using assms(2) [OF Some] Some True t unfolding kick_calls_def by (simp only: option.case if_True) auto
  qed
qed

text \<open>
  The enqueue kick: only a task queued at T0 or T1 kicks, it kicks whenever a CPU of the queue's
  LLC is marked as running T3 or T2, and the victim is the lowest such CPU, T3 before T2. A T0 or
  T1 CPU and a CPU of another LLC are never chosen.
\<close>

theorem kick_picks_lowest_bulk_then_frame:
  assumes c: "task_ctx s (ts_id p) = Some c" and pl: "placed K inp" and llc: "llc = home_llc R inp"
    and t: "t = enq_tier K (enq_flags inp) (mbox_flags (get_mbox (enq_smp_id inp AND 63) s)) c"
    and V: "V = (if victims s llc 3 \<noteq> {} then victims s llc 3 else victims s llc 2)"
  shows "\<exists>ins kicks. kcalls (imperator_enqueue R K inp p s) = kcalls s @ ins # kicks
    \<and> length kicks \<le> 1 \<and> (kicks = [] \<longleftrightarrow> 1 < unat t \<or> V = {})
    \<and> (\<forall>k \<in> set kicks. \<exists>v. k = Kick_cpu v (SCX_KICK_PREEMPT K) \<and> unat v \<in> V \<and> (\<forall>i \<in> V. unat v \<le> i))"
proof -
  have s': "imperator_enqueue R K inp p s = enqueue_full R K inp p c llc s"
    using c pl by (simp add: imperator_enqueue_eq llc)
  have l: "llc AND 7 = llc" by (simp add: llc home_llc_idx)
  have none: "kick_victim llc s = None \<longleftrightarrow> V = {}"
    using kick_victim_spec(1) [OF l, of s] by (auto simp: V)
  have some: "kick_victim llc s = Some v \<Longrightarrow> unat v \<in> V \<and> (\<forall>i \<in> V. unat v \<le> i)" for v
    using kick_victim_spec(2) [OF l, of s v] by (simp add: V Let_def)
  show ?thesis
    using enqueue_full_effect(2) [OF s' t] kick_calls_spec [OF none some, of K t] by blast
qed

theorem kick_picks_lowest_bulk_then_frame_witness:
  "let s = example_sched\<lparr>tier_cpu_mask := [0, 0, 0x2, 0x30], llc_cpu_mask := [0xFF, 0, 0, 0, 0, 0, 0, 0]\<rparr>
   in \<exists>ins. kcalls (imperator_enqueue rodata_default example_kabi example_enq example_task s) = [ins, Kick_cpu 4 2]"
proof -
  let ?s = "example_sched\<lparr>tier_cpu_mask := [0, 0, 0x2, 0x30], llc_cpu_mask := [0xFF, 0, 0, 0, 0, 0, 0, 0]\<rparr>"
  have c: "task_ctx ?s (ts_id example_task) = Some example_ctx" by (simp add: example_task_def)
  have pl: "placed example_kabi example_enq" by (simp add: placed_def example_kabi_def example_enq_def)
  have llc: "home_llc rodata_default example_enq = 0" by (simp add: home_llc_def rodata_default_def example_enq_def)
  have m: "mbox_flags (get_mbox (enq_smp_id example_enq AND 63) ?s) = 0"
    using example_sched_sel(5) [of 3] by (simp add: get_mbox_def example_enq_def)
  have irq: "\<not> has_flag CAKE_FLOW_IRQ_WAKE (packed_info example_ctx)"
    by (simp add: flag_simps bit_iff_odd_drop_bit)
  have bits: "bit (0x30 :: u64) i \<longleftrightarrow> i = 4 \<or> i = 5" for i
  proof -
    have "(0x30 :: u64) = push_bit 4 3" by simp
    moreover have "(3 :: u64) = mask 2" by (simp add: mask_eq_exp_minus_1)
    ultimately have "bit (0x30 :: u64) i \<longleftrightarrow> 4 \<le> i \<and> i - 4 < 2 \<and> i < 64"
      by (simp only: bit_push_bit_iff bit_mask_iff) auto
    then show ?thesis by auto
  qed
  have bit4: "bit (0xFF :: u64) 4" "bit (0xFF :: u64) 5" by (simp_all add: bit_iff_odd_drop_bit)
  have "on_cpu ?s 3 i \<longleftrightarrow> i = 4 \<or> i = 5" for i
    unfolding bits [of i, symmetric] by (simp add: on_cpu_def)
  then have V: "victims ?s 0 3 = {4, 5}"
    using bit4 unfolding victims_def by auto
  have t: "unat (enq_tier example_kabi (enq_flags example_enq) 0 example_ctx) = 1"
    using irq by (simp add: unat_enq_tier)
  have n: "kcalls ?s = []" by (simp add: example_sched_def bss_zero_def)
  from kick_picks_lowest_bulk_then_frame [OF c pl refl refl refl, of rodata_default]
  obtain ins kicks where k: "kcalls (imperator_enqueue rodata_default example_kabi example_enq example_task ?s) = ins # kicks"
    "length kicks \<le> 1" "kicks \<noteq> []" "\<forall>k \<in> set kicks. \<exists>v. k = Kick_cpu v 2 \<and> (unat v = 4 \<or> unat v = 5) \<and> unat v \<le> 4 \<and> unat v \<le> 5"
    unfolding llc m t V n by (auto simp: example_kabi_def)
  from k(4) have "\<forall>k \<in> set kicks. k = Kick_cpu 4 2"
    by (auto simp: word_unat_eq_iff)
  with k(2,3) have "kicks = [Kick_cpu 4 2]"
    by (cases kicks) auto
  with k(1) show ?thesis by (simp add: Let_def)
qed

end
