(* ===== verification/Select_Cpu.thy ===== *)
theory Select_Cpu
  imports Enqueue
begin

text \<open>
  \<open>imperator_select_cpu\<close> of \<open>src/src/bpf/imperator.bpf.c\<close>: interrupt detection, the kernel's idle
  selection (\<open>scx_bpf_select_cpu_dfl\<close>, an argument: its reply to each of the two calls), the
  hybrid P-core scan and the direct dispatch. The scan loop is proved equal to a search over the
  affine P-cores in ascending order.
\<close>

section \<open>Slice and tier of a direct dispatch\<close>

definition consume_irq_wake_get_tier_slice ::
    "rodata \<Rightarrow> u32 \<Rightarrow> tid \<Rightarrow> sched \<Rightarrow> u8 \<times> u64 \<times> sched" where
  "consume_irq_wake_get_tier_slice R smp_id p s =
     (case task_ctx s p of
        Some tctx \<Rightarrow>
          (if has_flag CAKE_FLOW_IRQ_WAKE (packed_info tctx)
           then (let s = put_ctx p (tctx\<lparr>packed_info := clear_flag CAKE_FLOW_IRQ_WAKE (packed_info tctx)\<rparr>) s;
                     cfg = tier_configs R ! unat (CAKE_TIER_IDX CAKE_TIER_CRITICAL);
                     slc = drop_bit 10 (quantum_ns R * UNPACK_MULTIPLIER cfg)
                 in (CAKE_TIER_CRITICAL, slc,
                     count_stat R smp_id (\<lambda>st. st\<lparr>nr_irq_wake_boosts := nr_irq_wake_boosts st + 1\<rparr>) s))
           else (ucast (CAKE_TIER_IDX (GET_TIER tctx)), next_slice tctx, s))
      | None \<Rightarrow> (CAKE_TIER_INTERACT, quantum_ns R, s))"

section \<open>The hybrid scan\<close>

definition core_unshared :: "rodata \<Rightarrow> u32 \<Rightarrow> bool option" where
  \<comment> \<open>\<open>full_idle\<close> when the core mask is known, \<open>None\<close> in the no-data branch\<close>
  "core_unshared R pcpu =
     (let core_id = cpu_core_id R ! unat (pcpu AND 63)
      in if core_id < 64 \<and> core_cpu_mask R ! unat core_id \<noteq> 0
         then (let cmask = core_cpu_mask R ! unat core_id;
                   sibling_bits = cmask AND NOT (push_bit (unat pcpu) 1)
               in Some (sibling_bits = 0))
         else None)"

fun pcore_scan :: "rodata \<Rightarrow> (u32 \<Rightarrow> bool) \<Rightarrow> nat \<Rightarrow> u64 \<Rightarrow> s32 \<Rightarrow> s32 \<Rightarrow> s32 \<times> s32" where
  \<comment> \<open>the remaining trips of the loop, the candidate mask, \<open>best_full\<close> and \<open>best_half\<close>\<close>
  "pcore_scan R allowed 0 candidate_mask best_full best_half = (best_full, best_half)"
| "pcore_scan R allowed (Suc n) candidate_mask best_full best_half =
     (if candidate_mask = 0 then (best_full, best_half)
      else
        (let pcpu = BIT_SCAN_FORWARD_U64 candidate_mask;
             candidate_mask = candidate_mask AND (candidate_mask - 1)
         in if \<not> allowed pcpu then pcore_scan R allowed n candidate_mask best_full best_half
            else
              (let (best_full, best_half) =
                     (case core_unshared R pcpu of
                        Some full_idle \<Rightarrow>
                          (if full_idle \<and> sint best_full < 0 then (pcpu, best_half)
                           else if sint best_half < 0 then (best_full, pcpu)
                           else (best_full, best_half))
                      | None \<Rightarrow>
                          (if sint best_half < 0 then (best_full, pcpu) else (best_full, best_half)))
               in if sint best_full \<ge> 0 then (best_full, best_half)
                  else pcore_scan R allowed n candidate_mask best_full best_half)))"

definition pcore_hint :: "rodata \<Rightarrow> (u32 \<Rightarrow> bool) \<Rightarrow> s32" where
  "pcore_hint R allowed =
     (let (best_full, best_half) = pcore_scan R allowed CAKE_MAX_CPUS (big_cpu_mask R) (- 1) (- 1)
      in if sint best_full \<ge> 0 then best_full else best_half)"

section \<open>The handler\<close>

record select_input =
  sel_smp_id :: u32
  sel_hardirq_or_nmi :: bool
  sel_softirq :: bool
  sel_wake_flags :: u64
  sel_waker :: "task_struct option"  \<comment> \<open>\<open>bpf_get_current_task_btf()\<close>\<close>
  sel_dfl :: "s32 \<Rightarrow> s32 \<times> bool"  \<comment> \<open>first \<open>scx_bpf_select_cpu_dfl\<close>: CPU and idle flag by hint\<close>
  sel_dfl2 :: "s32 \<Rightarrow> s32 \<times> bool"  \<comment> \<open>second call, with the P-core hint\<close>

definition irq_context :: "kabi \<Rightarrow> select_input \<Rightarrow> bool" where
  "irq_context K inp =
     (let irq = sel_hardirq_or_nmi inp \<or> sel_softirq inp
      in if \<not> irq \<and> sel_wake_flags inp AND SCX_WAKE_SYNC K = 0
         then (case sel_waker inp of
                 Some waker \<Rightarrow> ts_flags waker AND PF_KTHREAD K \<noteq> 0 \<and> take 10 (ts_comm waker) = ''ksoftirqd/''
               | None \<Rightarrow> False)
         else irq)"

definition mark_irq_wake :: "tid \<Rightarrow> sched \<Rightarrow> sched" where
  "mark_irq_wake p s = upd_ctx p (\<lambda>c. c\<lparr>packed_info := set_flag CAKE_FLOW_IRQ_WAKE (packed_info c)\<rparr>) s"

definition steer_to_pcore :: "rodata \<Rightarrow> select_input \<Rightarrow> task_struct \<Rightarrow> s32 \<Rightarrow> s32" where
  "steer_to_pcore R inp p cpu =
     (if has_hybrid R \<and> big_cpu_mask R \<noteq> 0
         \<and> big_cpu_mask R AND push_bit (unat (cpu AND 63)) 1 = 0
      then (let hint = pcore_hint R (ts_cpus_ptr p)
            in if sint hint \<ge> 0
               then (let (pcpu_result, dummy_idle2) = sel_dfl2 inp hint
                     in if dummy_idle2 then pcpu_result else cpu)
               else cpu)
      else cpu)"

definition imperator_select_cpu ::
    "rodata \<Rightarrow> kabi \<Rightarrow> select_input \<Rightarrow> task_struct \<Rightarrow> s32 \<Rightarrow> sched \<Rightarrow> s32 \<times> sched" where
  "imperator_select_cpu R K inp p prev_cpu s =
     (let s = (if irq_context K inp then mark_irq_wake (ts_id p) s else s);
          tc_id = sel_smp_id inp AND 63;
          (cpu, idle) = sel_dfl inp prev_cpu;
          s = s\<lparr>dummy_idle := (dummy_idle s)[unat tc_id := idle]\<rparr>
      in if dummy_idle s ! unat tc_id
         then (let (tier, slc, s) = consume_irq_wake_get_tier_slice R (sel_smp_id inp) (ts_id p) s;
                   cpu = steer_to_pcore R inp p cpu;
                   s = emit (Dsq_insert (ts_id p) (SCX_DSQ_LOCAL_ON K OR scast cpu) slc 0) s;
                   s = count_stat R (sel_smp_id inp) (dispatch_stat True tier) s
               in (cpu, s))
         else (prev_cpu, s))"

section \<open>The scan as a search\<close>

definition unshared :: "rodata \<Rightarrow> u32 \<Rightarrow> bool" where
  \<comment> \<open>no other logical CPU is registered on the physical core of \<open>pcpu\<close>\<close>
  "unshared R pcpu \<longleftrightarrow> core_unshared R pcpu = Some True"

fun scan_list :: "(u32 \<Rightarrow> bool) \<Rightarrow> u32 list \<Rightarrow> s32 \<Rightarrow> s32 \<times> s32" where
  "scan_list full [] best_half = (- 1, best_half)"
| "scan_list full (c # cs) best_half =
     (if full c then (c, best_half)
      else scan_list full cs (if sint best_half < 0 then c else best_half))"

definition candidates :: "(u32 \<Rightarrow> bool) \<Rightarrow> u64 \<Rightarrow> u32 list" where
  \<comment> \<open>the allowed CPUs of a mask, ascending\<close>
  "candidates allowed m = filter allowed (map word_of_nat (bits_asc m))"

lemma sint_bsf: "m \<noteq> 0 \<Longrightarrow> 0 \<le> sint (BIT_SCAN_FORWARD_U64 m)"
proof -
  assume "m \<noteq> 0"
  then have "unat (BIT_SCAN_FORWARD_U64 m) < 64" using bsf64.scan_less by fastforce
  then have "unat (BIT_SCAN_FORWARD_U64 m) div 2 ^ 31 = 0" by simp
  then have "\<not> bit (unat (BIT_SCAN_FORWARD_U64 m)) 31" by (simp only: bit_iff_odd even_zero not_not)
  then have "\<not> bit (BIT_SCAN_FORWARD_U64 m) 31" by (simp add: bit_unsigned_iff)
  then show ?thesis using bit_last_iff [of "BIT_SCAN_FORWARD_U64 m"] by simp
qed

lemma word_of_nat_bsf: "m \<noteq> 0 \<Longrightarrow> word_of_nat (ctz m) = BIT_SCAN_FORWARD_U64 m"
  by (simp add: word_unat_eq_iff bsf64.scan_ctz [symmetric])

lemma candidates_step:
  "m \<noteq> 0 \<Longrightarrow> candidates allowed m =
     (if allowed (BIT_SCAN_FORWARD_U64 m) then [BIT_SCAN_FORWARD_U64 m] else []) @ candidates allowed (m AND (m - 1))"
  by (simp add: candidates_def bits_asc_Cons word_of_nat_bsf)

lemma pcore_scan_list:
  assumes "length (bits_asc m) \<le> n"
  shows "pcore_scan R allowed n m (- 1) best_half = scan_list (unshared R) (candidates allowed m) best_half"
  using assms
proof (induction n arbitrary: m best_half)
  case 0
  then have "m = 0" by (simp add: bits_asc_Nil)
  then show ?case by (simp add: candidates_def)
next
  case (Suc n)
  show ?case
  proof (cases "m = 0")
    case True
    then show ?thesis by (simp add: candidates_def)
  next
    case False
    let ?b = "BIT_SCAN_FORWARD_U64 m" and ?m = "m AND (m - 1)"
    have len: "length (bits_asc ?m) \<le> n"
      using Suc.prems bits_asc_Cons [OF False] by simp
    have b: "0 \<le> sint ?b" using sint_bsf [OF False] .
    have bx: "sint (- 1 :: s32) = - 1" by simp
    show ?thesis
    proof (cases "allowed ?b")
      case a: False
      then show ?thesis using Suc.IH [OF len] False by (simp add: candidates_step Let_def)
    next
      case True
      consider "core_unshared R ?b = None" | "core_unshared R ?b = Some True" | "core_unshared R ?b = Some False"
        by (metis (full_types) option.exhaust)
      then show ?thesis
        using Suc.IH [OF len] False True b
        by cases (simp_all add: candidates_step Let_def unshared_def bx)
    qed
  qed
qed

lemma scan_list_some: "List.find full cs = Some c \<Longrightarrow> fst (scan_list full cs h) = c"
  by (induction cs arbitrary: h) (auto split: if_splits)

lemma scan_list_none: "List.find full cs = None \<Longrightarrow> fst (scan_list full cs h) = - 1"
  by (induction cs arbitrary: h) (auto split: if_splits)

lemma scan_list_keeps: "List.find full cs = None \<Longrightarrow> 0 \<le> sint h \<Longrightarrow> snd (scan_list full cs h) = h"
  by (induction cs arbitrary: h) (auto split: if_splits)

lemma scan_list_hd:
  "List.find full cs = None \<Longrightarrow> cs \<noteq> [] \<Longrightarrow> 0 \<le> sint (hd cs) \<Longrightarrow> sint h < 0 \<Longrightarrow> snd (scan_list full cs h) = hd cs"
  by (cases cs) (auto simp: scan_list_keeps split: if_splits)

lemma candidates_sint: "c \<in> set (candidates allowed m) \<Longrightarrow> 0 \<le> sint c \<and> allowed c \<and> bit m (unat c)"
proof -
  assume "c \<in> set (candidates allowed m)"
  then obtain i where i: "c = word_of_nat i" "bit m i" "allowed c"
    by (auto simp: candidates_def set_bits_asc)
  have "i < 64" using bit_imp_le_length [OF i(2)] by simp
  then have u: "unat c = i" by (simp add: i(1) unat_of_nat)
  have "unat c div 2 ^ 31 = 0" using \<open>i < 64\<close> u by simp
  then have "\<not> bit (unat c) 31" by (simp only: bit_iff_odd even_zero not_not)
  then have "0 \<le> sint c"
    using bit_last_iff [of c] by (simp add: bit_unsigned_iff)
  with i u show ?thesis by simp
qed

lemma pcore_hint_eq:
  "pcore_hint R allowed =
     (let cs = candidates allowed (big_cpu_mask R)
      in case List.find (unshared R) cs of Some c \<Rightarrow> c | None \<Rightarrow> if cs = [] then - 1 else hd cs)"
proof -
  let ?cs = "candidates allowed (big_cpu_mask R)"
  let ?scan = "scan_list (unshared R) ?cs (- 1)"
  have len: "length (bits_asc (big_cpu_mask R)) \<le> CAKE_MAX_CPUS"
    using length_bits_asc [of "big_cpu_mask R"] by simp
  have s: "0 \<le> sint c" if "c \<in> set ?cs" for c using candidates_sint that by blast
  have m1: "sint (- 1 :: s32) = - 1" by simp
  have hint: "pcore_hint R allowed = (if 0 \<le> sint (fst ?scan) then fst ?scan else snd ?scan)"
    unfolding pcore_hint_def pcore_scan_list [OF len] by (simp add: Let_def split: prod.split)
  show ?thesis
  proof (cases "List.find (unshared R) ?cs")
    case (Some c)
    then have "c \<in> set ?cs" by (auto simp: find_Some_iff)
    with hint Some s [of c] show ?thesis by (simp add: scan_list_some)
  next
    case None
    show ?thesis
    proof (cases "?cs = []")
      case False
      then have "0 \<le> sint (hd ?cs)" using s by simp
      with hint None False m1 show ?thesis by (simp add: scan_list_none scan_list_hd)
    qed (use hint m1 in simp)
  qed
qed

section \<open>Effects on the state\<close>

lemma mark_irq_frame [frame_simps]:
  "kcalls (mark_irq_wake p s) = kcalls s" "mega_mailbox (mark_irq_wake p s) = mega_mailbox s"
  "tier_cpu_mask (mark_irq_wake p s) = tier_cpu_mask s" "llc_cpu_mask (mark_irq_wake p s) = llc_cpu_mask s"
  "llc_nonempty (mark_irq_wake p s) = llc_nonempty s"
  "task_ctx (mark_irq_wake p s) = (task_ctx s)(p := map_option
     (\<lambda>c. c\<lparr>packed_info := set_flag CAKE_FLOW_IRQ_WAKE (packed_info c)\<rparr>) (task_ctx s p))"
  by (simp_all add: mark_irq_wake_def frame_simps) (simp add: upd_ctx_def)

definition stamped :: "kabi \<Rightarrow> select_input \<Rightarrow> imperator_task_ctx \<Rightarrow> imperator_task_ctx" where
  "stamped K inp c =
     (if irq_context K inp then c\<lparr>packed_info := set_flag CAKE_FLOW_IRQ_WAKE (packed_info c)\<rparr> else c)"

lemma ctx_inv_stamped [wf_intros]: "ctx_inv R c \<Longrightarrow> ctx_inv R (stamped K inp c)"
  by (simp add: stamped_def ctx_inv_def wf_intros flag_simps)

lemma ctx_inv_clear_irq [wf_intros]:
  "ctx_inv R c \<Longrightarrow> ctx_inv R (c\<lparr>packed_info := clear_flag CAKE_FLOW_IRQ_WAKE (packed_info c)\<rparr>)"
  by (simp add: ctx_inv_def wf_intros flag_simps)

lemma select_cpu_busy:
  assumes "snd (sel_dfl inp prev_cpu) = False" "length (dummy_idle s) = 64"
  shows "fst (imperator_select_cpu R K inp p prev_cpu s) = prev_cpu"
    "kcalls (snd (imperator_select_cpu R K inp p prev_cpu s)) = kcalls s"
    "task_ctx (snd (imperator_select_cpu R K inp p prev_cpu s)) =
       (task_ctx s)(ts_id p := map_option (stamped K inp) (task_ctx s (ts_id p)))"
    "tier_cpu_mask (snd (imperator_select_cpu R K inp p prev_cpu s)) = tier_cpu_mask s"
    "llc_cpu_mask (snd (imperator_select_cpu R K inp p prev_cpu s)) = llc_cpu_mask s"
    "mega_mailbox (snd (imperator_select_cpu R K inp p prev_cpu s)) = mega_mailbox s"
  using assms unat_and_63 [of "sel_smp_id inp"]
  by (cases "task_ctx s (ts_id p)";
      auto simp: imperator_select_cpu_def Let_def stamped_def mark_irq_wake_def upd_ctx_def fun_upd_idem
        split: prod.splits)+


definition direct_slice :: "rodata \<Rightarrow> bool \<Rightarrow> imperator_task_ctx option \<Rightarrow> u64" where
  \<comment> \<open>the slice of a direct dispatch; \<open>irq\<close> says that this wakeup is stamped\<close>
  "direct_slice R irq tctx =
     (case tctx of
        Some c \<Rightarrow> if irq \<or> has_flag CAKE_FLOW_IRQ_WAKE (packed_info c) then tier_slice R CAKE_TIER_CRITICAL
                  else next_slice c
      | None \<Rightarrow> quantum_ns R)"

definition cleared :: "imperator_task_ctx \<Rightarrow> imperator_task_ctx" where
  "cleared c = c\<lparr>packed_info := clear_flag CAKE_FLOW_IRQ_WAKE (packed_info c)\<rparr>"

lemma ctx_inv_cleared [wf_intros]: "ctx_inv R c \<Longrightarrow> ctx_inv R (cleared c)"
  by (simp add: cleared_def wf_intros)

lemma irq_clear_set: "clear_flag CAKE_FLOW_IRQ_WAKE (set_flag CAKE_FLOW_IRQ_WAKE w) = clear_flag CAKE_FLOW_IRQ_WAKE w"
  by (rule bit_word_eqI) (auto simp: flag_simps)

lemma irq_has_set: "has_flag CAKE_FLOW_IRQ_WAKE (set_flag CAKE_FLOW_IRQ_WAKE w)"
  by (simp add: flag_simps)

lemma consume_effect:
  fixes s :: sched
  assumes "consume_irq_wake_get_tier_slice R smp p s = (tier, slc, s')"
  shows "slc = direct_slice R False (task_ctx s p)"
    "task_ctx s' = (task_ctx s)(p := map_option cleared (task_ctx s p))"
    "kcalls s' = kcalls s" "mega_mailbox s' = mega_mailbox s" "tier_cpu_mask s' = tier_cpu_mask s"
    "llc_cpu_mask s' = llc_cpu_mask s" "llc_nonempty s' = llc_nonempty s"
proof -
  have id: "cleared c = c" if "\<not> has_flag CAKE_FLOW_IRQ_WAKE (packed_info c)" for c
    using that irq_flag.clear_id by (simp add: cleared_def)
  have "slc = direct_slice R False (task_ctx s p)
    \<and> task_ctx s' = (task_ctx s)(p := map_option cleared (task_ctx s p)) \<and> kcalls s' = kcalls s
    \<and> mega_mailbox s' = mega_mailbox s \<and> tier_cpu_mask s' = tier_cpu_mask s
    \<and> llc_cpu_mask s' = llc_cpu_mask s \<and> llc_nonempty s' = llc_nonempty s"
  proof (cases "task_ctx s p")
    case None
    then show ?thesis using assms
      by (auto simp: consume_irq_wake_get_tier_slice_def direct_slice_def fun_upd_idem)
  next
    case (Some c)
    then show ?thesis using assms id [of c]
      by (cases "has_flag CAKE_FLOW_IRQ_WAKE (packed_info c)")
         (auto simp: consume_irq_wake_get_tier_slice_def direct_slice_def Let_def frame_simps
            tier_slice_def tier_cfg_def fun_upd_idem cleared_def)
  qed
  then show "slc = direct_slice R False (task_ctx s p)"
    "task_ctx s' = (task_ctx s)(p := map_option cleared (task_ctx s p))"
    "kcalls s' = kcalls s" "mega_mailbox s' = mega_mailbox s" "tier_cpu_mask s' = tier_cpu_mask s"
    "llc_cpu_mask s' = llc_cpu_mask s" "llc_nonempty s' = llc_nonempty s" by simp_all
qed


lemma select_cpu_idle:
  fixes s :: sched
  assumes idle: "sel_dfl inp prev_cpu = (cpu0, True)" and len: "length (dummy_idle s) = 64"
    and r: "imperator_select_cpu R K inp p prev_cpu s = (cpu, s')"
  shows "cpu = steer_to_pcore R inp p cpu0"
    "kcalls s' = kcalls s @ [Dsq_insert (ts_id p) (SCX_DSQ_LOCAL_ON K OR scast cpu)
        (direct_slice R (irq_context K inp) (task_ctx s (ts_id p))) 0]"
    "task_ctx s' = (task_ctx s)(ts_id p := map_option cleared (task_ctx s (ts_id p)))"
    "tier_cpu_mask s' = tier_cpu_mask s" "llc_cpu_mask s' = llc_cpu_mask s" "mega_mailbox s' = mega_mailbox s"
proof -
  let ?s1 = "if irq_context K inp then mark_irq_wake (ts_id p) s else s"
  let ?s2 = "?s1\<lparr>dummy_idle := (dummy_idle ?s1)[unat (sel_smp_id inp AND 63) := True]\<rparr>"
  have d: "dummy_idle ?s2 ! unat (sel_smp_id inp AND 63)"
    using len unat_and_63 [of "sel_smp_id inp"] by (simp add: mark_irq_wake_def upd_ctx_def)
  obtain tier slc s3 where c: "consume_irq_wake_get_tier_slice R (sel_smp_id inp) (ts_id p) ?s2 = (tier, slc, s3)"
    by (metis prod_cases3)
  have "imperator_select_cpu R K inp p prev_cpu s = (steer_to_pcore R inp p cpu0,
       count_stat R (sel_smp_id inp) (dispatch_stat True tier)
         (emit (Dsq_insert (ts_id p) (SCX_DSQ_LOCAL_ON K OR scast (steer_to_pcore R inp p cpu0)) slc 0) s3))"
    unfolding imperator_select_cpu_def Let_def idle prod.case c if_P [OF d] by (rule refl)
  with r have res: "cpu = steer_to_pcore R inp p cpu0"
    "s' = count_stat R (sel_smp_id inp) (dispatch_stat True tier)
       (emit (Dsq_insert (ts_id p) (SCX_DSQ_LOCAL_ON K OR scast cpu) slc 0) s3)"
    by auto
  note e = consume_effect [OF c]
  have ctx: "task_ctx ?s2 (ts_id p) = map_option (stamped K inp) (task_ctx s (ts_id p))"
    by (cases "task_ctx s (ts_id p)") (simp_all add: stamped_def frame_simps)
  have cl: "cleared (stamped K inp c) = cleared c" for c
    using irq_clear_set by (simp add: cleared_def stamped_def)
  have slc: "slc = direct_slice R (irq_context K inp) (task_ctx s (ts_id p))"
    unfolding e(1) arg_cong [OF ctx, of "direct_slice R False"]
    by (cases "task_ctx s (ts_id p)") (simp_all add: direct_slice_def stamped_def irq_has_set)
  show "cpu = steer_to_pcore R inp p cpu0" by (rule res(1))
  show "kcalls s' = kcalls s @ [Dsq_insert (ts_id p) (SCX_DSQ_LOCAL_ON K OR scast cpu)
        (direct_slice R (irq_context K inp) (task_ctx s (ts_id p))) 0]"
    by (simp add: res(2) e(3) slc frame_simps)
  show "task_ctx s' = (task_ctx s)(ts_id p := map_option cleared (task_ctx s (ts_id p)))"
    using ctx cl by (simp add: res(2) e frame_simps option.map_comp comp_def)
  show "tier_cpu_mask s' = tier_cpu_mask s" "llc_cpu_mask s' = llc_cpu_mask s" "mega_mailbox s' = mega_mailbox s"
    by (simp_all add: res(2) e frame_simps)
qed

section \<open>The chosen P-core\<close>

lemma find_filter_sorted:
  assumes "sorted xs" "distinct xs" "\<And>n. n \<in> set xs \<Longrightarrow> f n = g (h n)"
  shows "List.find g (map h (filter P xs)) =
     (if \<exists>n \<in> set xs. P n \<and> f n then Some (h (LEAST n. n \<in> set xs \<and> P n \<and> f n)) else None)"
  using assms
proof (induction xs)
  case (Cons x xs)
  have IH: "List.find g (map h (filter P xs)) =
     (if \<exists>n \<in> set xs. P n \<and> f n then Some (h (LEAST n. n \<in> set xs \<and> P n \<and> f n)) else None)"
    using Cons by simp
  show ?case
  proof (cases "P x \<and> f x")
    case True
    then have "(LEAST n. n \<in> set (x # xs) \<and> P n \<and> f n) = x"
      using Cons.prems(1) by (intro Least_equality) auto
    then show ?thesis using True Cons.prems(3) [of x] by simp
  next
    case False
    then have "(\<lambda>n. n \<in> set (x # xs) \<and> P n \<and> f n) = (\<lambda>n. n \<in> set xs \<and> P n \<and> f n)" by auto
    moreover have "List.find g (map h (filter P (x # xs))) = List.find g (map h (filter P xs))"
      using False Cons.prems(3) [of x] by simp
    ultimately show ?thesis using IH False by auto
  qed
qed simp

definition pcore_allowed :: "rodata \<Rightarrow> (u32 \<Rightarrow> bool) \<Rightarrow> nat \<Rightarrow> bool" where
  \<comment> \<open>CPU \<open>n\<close> is a P-core CPU in the task's affinity mask\<close>
  "pcore_allowed R allowed n \<longleftrightarrow> bit (big_cpu_mask R) n \<and> allowed (word_of_nat n)"

lemma candidates_find:
  "List.find g (candidates allowed (big_cpu_mask R)) =
     (if \<exists>n. pcore_allowed R allowed n \<and> g (word_of_nat n)
      then Some (word_of_nat (LEAST n. pcore_allowed R allowed n \<and> g (word_of_nat n))) else None)"
  using find_filter_sorted [OF sorted_bits_asc, of "big_cpu_mask R" "\<lambda>n. g (word_of_nat n)" g word_of_nat
      "\<lambda>n. allowed (word_of_nat n)", unfolded set_bits_asc mem_Collect_eq]
  unfolding candidates_def filter_map comp_def pcore_allowed_def conj_assoc bex_simps by (simp only: Bex_def mem_Collect_eq)


lemma hd_find: "(if xs = [] then d else hd xs) = (case List.find (\<lambda>_. True) xs of Some x \<Rightarrow> x | None \<Rightarrow> d)"
  by (cases xs) simp_all

section \<open>Properties\<close>

text \<open>
  C34. Hybrid placement: the scan of the P-core mask returns the lowest allowed P-core CPU that has
  no registered SMT sibling, else the lowest allowed P-core CPU, else -1. The choice reads the
  topology only: whether a sibling is running anything plays no role.
\<close>

theorem pcore_hint_best:
  "pcore_hint R allowed =
     (if \<exists>n. pcore_allowed R allowed n \<and> unshared R (word_of_nat n)
      then word_of_nat (LEAST n. pcore_allowed R allowed n \<and> unshared R (word_of_nat n))
      else if \<exists>n. pcore_allowed R allowed n then word_of_nat (LEAST n. pcore_allowed R allowed n)
      else - 1)"
  unfolding pcore_hint_eq Let_def hd_find candidates_find
  by (simp only: option.case if_distrib [of "case_option _ _"] simp_thms)

definition example_sel :: "bool \<Rightarrow> select_input" where
  \<comment> \<open>a hard-interrupt wakeup; the kernel's idle search finds CPU 5\<close>
  "example_sel idle = \<lparr>sel_smp_id = 3, sel_hardirq_or_nmi = True, sel_softirq = False, sel_wake_flags = 0,
     sel_waker = None, sel_dfl = (\<lambda>prev. (5, idle)), sel_dfl2 = (\<lambda>hint. (hint, True))\<rparr>"

text \<open>
  CPU selection either dispatches or leaves everything to the enqueue path. When the kernel
  finds an idle CPU, the task is inserted exactly once, into the local queue of the CPU that is
  returned, with the T0 slice after an interrupt wakeup and its own slice otherwise, and the
  interrupt flag is consumed. Otherwise the previous CPU is returned, nothing is inserted, and an
  interrupt wakeup is left in the flag for the enqueue path. On a hybrid system the returned CPU
  is the kernel's choice or, if that is not a P-core, the kernel's reply to the P-core hint.
\<close>

theorem select_cpu_dispatches_iff_idle:
  assumes len: "length (dummy_idle s) = 64" and dfl: "sel_dfl inp prev_cpu = (cpu0, idle)"
    and r: "imperator_select_cpu R K inp p prev_cpu s = (cpu, s')"
  shows "if idle
    then kcalls s' = kcalls s @ [Dsq_insert (ts_id p) (SCX_DSQ_LOCAL_ON K OR scast cpu)
           (direct_slice R (irq_context K inp) (task_ctx s (ts_id p))) 0]
      \<and> task_ctx s' = (task_ctx s)(ts_id p := map_option cleared (task_ctx s (ts_id p)))
      \<and> (cpu = cpu0 \<or> has_hybrid R \<and> \<not> bit (big_cpu_mask R) (unat (cpu0 AND 63))
          \<and> sel_dfl2 inp (pcore_hint R (ts_cpus_ptr p)) = (cpu, True))
    else kcalls s' = kcalls s \<and> cpu = prev_cpu
      \<and> task_ctx s' = (task_ctx s)(ts_id p := map_option (stamped K inp) (task_ctx s (ts_id p)))"
proof (cases idle)
  case True
  then have "sel_dfl inp prev_cpu = (cpu0, True)" using dfl by simp
  note e = select_cpu_idle [OF this len r]
  have "(m AND push_bit n 1 = 0) = (\<not> bit m n)" if "n < 64" for m :: u64 and n
    using that by (metis and_exp_eq_0_iff_not_bit push_bit_of_1)
  then have "steer_to_pcore R inp p cpu0 = cpu0 \<or> has_hybrid R \<and> \<not> bit (big_cpu_mask R) (unat (cpu0 AND 63))
          \<and> sel_dfl2 inp (pcore_hint R (ts_cpus_ptr p)) = (steer_to_pcore R inp p cpu0, True)"
    using unat_and_63 [of cpu0] by (auto simp: steer_to_pcore_def Let_def split: prod.splits)
  with True e(1-3) show ?thesis by simp
next
  case False
  with select_cpu_busy [of inp prev_cpu s R K p] dfl len r show ?thesis by simp
qed

theorem select_cpu_dispatches_iff_idle_witness:
  "kcalls (snd (imperator_select_cpu rodata_default example_kabi (example_sel True) example_task 3 example_sched))
     = [Dsq_insert 7 (0xC000000000000005) (tier_slice rodata_default 0) 0]
   \<and> kcalls (snd (imperator_select_cpu rodata_default example_kabi (example_sel False) example_task 3 example_sched)) = []"
proof -
  have len: "length (dummy_idle example_sched) = 64" by (simp add: example_sched_def bss_zero_def)
  obtain c s' where r: "imperator_select_cpu rodata_default example_kabi (example_sel True) example_task 3 example_sched = (c, s')"
    by (metis prod.exhaust)
  obtain d t where r': "imperator_select_cpu rodata_default example_kabi (example_sel False) example_task 3 example_sched = (d, t)"
    by (metis prod.exhaust)
  have irq: "irq_context example_kabi (example_sel i)" for i by (simp add: irq_context_def example_sel_def)
  have nh: "\<not> has_hybrid rodata_default" by (simp add: rodata_default_def)
  have "c = 5 \<and> kcalls s' = [Dsq_insert 7 (0xC000000000000000 OR scast c) (tier_slice rodata_default 0) 0]"
    using select_cpu_dispatches_iff_idle [OF len _ r, of 5 True] irq nh
    by (simp add: example_sel_def direct_slice_def example_task_def example_kabi_def)
  moreover have "kcalls t = []"
    using select_cpu_dispatches_iff_idle [OF len _ r', of 5 False] by (simp add: example_sel_def)
  ultimately show ?thesis using r r' by simp
qed

end
