(* ===== verification/Dispatch.thy ===== *)
theory Dispatch
  imports Select_Cpu "HOL-Library.While_Combinator"
begin

text \<open>
  \<open>imperator_dispatch\<close> of \<open>src/src/bpf/imperator.bpf.c\<close>: the local queue first, then the queues of the
  other LLCs whose flag is set, the cheapest by latency first. The two kernel queries (did the move
  find a task, how many tasks are queued) are arguments. The mask-driven loop is proved equal to
  trying a list of LLCs in order until one delivers.
\<close>

section \<open>The handler\<close>

record dsp_input =
  dsp_raw_cpu :: s32
  dsp_move_ok :: "u64 \<Rightarrow> bool"  \<comment> \<open>\<open>scx_bpf_dsq_move_to_local\<close> found a task this CPU may run\<close>
  dsp_nr_queued :: "u64 \<Rightarrow> s32"

definition llc_dsq :: "u32 \<Rightarrow> u64" where
  "llc_dsq llc = ucast (200 + llc)"

definition store_empty :: "u32 \<Rightarrow> sched \<Rightarrow> sched" where
  "store_empty llc s = s\<lparr>llc_nonempty := (llc_nonempty s)[unat (llc AND 7) := 0]\<rparr>"

definition try_llc :: "dsp_input \<Rightarrow> u32 \<Rightarrow> sched \<Rightarrow> bool \<times> sched" where
  \<comment> \<open>move from one LLC's queue; on failure clear its flag if the queue is really empty\<close>
  "try_llc inp llc s =
     (let s = emit (Dsq_move_to_local (llc_dsq llc)) s
      in if dsp_move_ok inp (llc_dsq llc) then (True, s)
         else (False, if dsp_nr_queued inp (llc_dsq llc) = 0 then store_empty llc s else s))"

definition steal_scan_step ::
    "u32 \<Rightarrow> sched \<Rightarrow> u32 \<Rightarrow> u32 \<times> u32 \<times> u8 \<Rightarrow> u32 \<times> u32 \<times> u8" where
  "steal_scan_step my_llc s i =
     (\<lambda>(steal_mask, cheapest_llc, min_cost).
        if i \<noteq> my_llc \<and> llc_nonempty s ! unat i \<noteq> 0
        then (let steal_mask = steal_mask OR push_bit (unat i) 1;
                  c = llc_etd_cost s ! unat (my_llc AND 7) ! unat (i AND 7)
              in if c > 0 \<and> (min_cost = 0 \<or> c < min_cost) then (steal_mask, i, c)
                 else (steal_mask, cheapest_llc, min_cost))
        else (steal_mask, cheapest_llc, min_cost))"

definition steal_scan :: "rodata \<Rightarrow> u32 \<Rightarrow> sched \<Rightarrow> u32 \<times> u32 \<times> u8" where
  "steal_scan R my_llc s =
     fold (steal_scan_step my_llc s) (map word_of_nat [0..<unat (nr_llcs R)]) (0, nr_llcs R, 0)"

fun steal_loop :: "dsp_input \<Rightarrow> nat \<Rightarrow> u32 \<Rightarrow> sched \<Rightarrow> sched" where
  \<comment> \<open>the remaining trips of the loop and the mask\<close>
  "steal_loop inp 0 steal_mask s = s"
| "steal_loop inp (Suc n) steal_mask s =
     (if steal_mask = 0 then s
      else (let victim = BIT_SCAN_FORWARD_U32 steal_mask;
                steal_mask = steal_mask AND (steal_mask - 1);
                (moved, s) = try_llc inp victim s
            in if moved then s else steal_loop inp n steal_mask s))"

definition imperator_dispatch :: "rodata \<Rightarrow> dsp_input \<Rightarrow> sched \<Rightarrow> sched" where
  "imperator_dispatch R inp s =
     (let my_llc = cpu_llc_id R ! unat (dsp_raw_cpu inp AND 63);
          (moved, s) = try_llc inp my_llc s
      in if moved then s
         else if nr_llcs R \<le> 1 then s
         else (let (steal_mask, cheapest_llc, min_cost) = steal_scan R my_llc s
               in if cheapest_llc < nr_llcs R \<and> min_cost > 0
                  then (let steal_mask = steal_mask AND NOT (push_bit (unat cheapest_llc) 1);
                            (moved, s) = try_llc inp cheapest_llc s
                        in if moved then s else steal_loop inp (unat (nr_llcs R)) steal_mask s)
                  else steal_loop inp (unat (nr_llcs R)) steal_mask s))"

section \<open>Trying a list of LLCs\<close>

fun try_all :: "dsp_input \<Rightarrow> u32 list \<Rightarrow> sched \<Rightarrow> sched" where
  \<comment> \<open>the specification: try each queue in order until one delivers\<close>
  "try_all inp [] s = s"
| "try_all inp (l # ls) s = (let (moved, s) = try_llc inp l s in if moved then s else try_all inp ls s)"

definition attempts :: "(u32 \<Rightarrow> bool) \<Rightarrow> u32 list \<Rightarrow> u32 list" where
  \<comment> \<open>the prefix up to and including the first success\<close>
  "attempts ok ls = takeWhile (\<lambda>l. \<not> ok l) ls @ take 1 (dropWhile (\<lambda>l. \<not> ok l) ls)"

lemma attempts_simps [simp]:
  "attempts ok [] = []" "attempts ok (l # ls) = l # (if ok l then [] else attempts ok ls)"
  by (simp_all add: attempts_def)

lemma set_attempts: "set (attempts ok ls) \<subseteq> set ls"
  by (induction ls) auto

lemma attempts_success: "\<exists>l \<in> set ls. ok l \<Longrightarrow> attempts ok ls \<noteq> [] \<and> ok (last (attempts ok ls))"
  by (induction ls) auto

lemma attempts_failure: "\<forall>l \<in> set ls. \<not> ok l \<Longrightarrow> attempts ok ls = ls"
  by (induction ls) auto

lemma attempts_prefix:
  assumes "ok (f m)" "m < n" "\<And>i. i < m \<Longrightarrow> \<not> ok (f i)"
  shows "attempts ok (map f [0..<n]) = map f [0..<Suc m]"
proof -
  have split: "[0..<n] = [0..<m] @ m # [Suc m..<n]"
    using assms(2) by (metis less_imp_le_nat upt_add_eq_append upt_conv_Cons zero_le le_add_diff_inverse add.left_neutral)
  have "attempts ok (xs @ y # ys) = xs @ [y]" if "\<forall>x \<in> set xs. \<not> ok x" "ok y" for xs y ys
    using that by (induction xs) auto
  from this [of "map f [0..<m]" "f m" "map f [Suc m..<n]"] show ?thesis
    using assms(1,3) by (simp add: split)
qed

abbreviation "moves inp l \<equiv> dsp_move_ok inp (llc_dsq l)"
abbreviation "drained inp l \<equiv> \<not> dsp_move_ok inp (llc_dsq l) \<and> dsp_nr_queued inp (llc_dsq l) = 0"

lemma store_empty_frame [frame_simps]:
  "task_ctx (store_empty l s) = task_ctx s" "mega_mailbox (store_empty l s) = mega_mailbox s"
  "tier_cpu_mask (store_empty l s) = tier_cpu_mask s" "llc_cpu_mask (store_empty l s) = llc_cpu_mask s"
  "kcalls (store_empty l s) = kcalls s" "llc_etd_cost (store_empty l s) = llc_etd_cost s"
  by (simp_all add: store_empty_def)

lemma try_llc_effect:
  assumes "try_llc inp l s = (moved, s')"
  shows "moved = moves inp l" "kcalls s' = kcalls s @ [Dsq_move_to_local (llc_dsq l)]"
    "llc_nonempty s' = (if drained inp l then (llc_nonempty s)[unat (l AND 7) := 0] else llc_nonempty s)"
    "task_ctx s' = task_ctx s" "mega_mailbox s' = mega_mailbox s" "tier_cpu_mask s' = tier_cpu_mask s"
    "llc_cpu_mask s' = llc_cpu_mask s" "llc_etd_cost s' = llc_etd_cost s"
  using assms by (auto simp: try_llc_def Let_def emit_def store_empty_def split: if_splits)

lemma try_all_effect:
  fixes s :: sched
  shows "kcalls (try_all inp ls s) = kcalls s @ map (\<lambda>l. Dsq_move_to_local (llc_dsq l)) (attempts (moves inp) ls)"
    "task_ctx (try_all inp ls s) = task_ctx s" "mega_mailbox (try_all inp ls s) = mega_mailbox s"
    "tier_cpu_mask (try_all inp ls s) = tier_cpu_mask s" "llc_cpu_mask (try_all inp ls s) = llc_cpu_mask s"
    "length (llc_nonempty (try_all inp ls s)) = length (llc_nonempty s)"
proof -
  have "kcalls (try_all inp ls s) = kcalls s @ map (\<lambda>l. Dsq_move_to_local (llc_dsq l)) (attempts (moves inp) ls)
    \<and> task_ctx (try_all inp ls s) = task_ctx s \<and> mega_mailbox (try_all inp ls s) = mega_mailbox s
    \<and> tier_cpu_mask (try_all inp ls s) = tier_cpu_mask s \<and> llc_cpu_mask (try_all inp ls s) = llc_cpu_mask s
    \<and> length (llc_nonempty (try_all inp ls s)) = length (llc_nonempty s)"
  proof (induction ls arbitrary: s)
    case (Cons l ls)
    obtain m t where t: "try_llc inp l s = (m, t)" by (metis prod.exhaust)
    show ?case using Cons.IH [of t] try_llc_effect [OF t] by (simp add: t)
  qed simp
  then show "kcalls (try_all inp ls s) = kcalls s @ map (\<lambda>l. Dsq_move_to_local (llc_dsq l)) (attempts (moves inp) ls)"
    "task_ctx (try_all inp ls s) = task_ctx s" "mega_mailbox (try_all inp ls s) = mega_mailbox s"
    "tier_cpu_mask (try_all inp ls s) = tier_cpu_mask s" "llc_cpu_mask (try_all inp ls s) = llc_cpu_mask s"
    "length (llc_nonempty (try_all inp ls s)) = length (llc_nonempty s)" by simp_all
qed

lemma try_all_flags:
  assumes "length (llc_nonempty s) = 8" "\<forall>l \<in> set ls. unat l < 8" "i < 8"
  shows "llc_nonempty (try_all inp ls s) ! i =
    (if word_of_nat i \<in> set (attempts (moves inp) ls) \<and> drained inp (word_of_nat i) then 0 else llc_nonempty s ! i)"
  using assms
proof (induction ls arbitrary: s)
  case (Cons l ls)
  obtain m t where t: "try_llc inp l s = (m, t)" by (metis prod.exhaust)
  have l: "unat (l AND 7) = unat l" "(word_of_nat i = l) = (i = unat l)"
    using Cons.prems by (auto simp: unat_and_low unat_of_nat word_unat_eq_iff)
  have "length (llc_nonempty t) = 8" using try_llc_effect(3) [OF t] Cons.prems(1) by simp
  from Cons.IH [OF this] Cons.prems try_llc_effect(1,3) [OF t] l show ?case
    by (auto simp: t nth_list_update)
qed simp


section \<open>The mask-driven loop is a list traversal\<close>

lemma steal_loop_try_all:
  "length (bits_asc m) \<le> n \<Longrightarrow> steal_loop inp n m s = try_all inp (map word_of_nat (bits_asc m)) s"
proof (induction n arbitrary: m s)
  case 0
  then have "m = 0" by (simp add: bits_asc_Nil)
  then show ?case by simp
next
  case (Suc n)
  show ?case
  proof (cases "m = 0")
    case False
    have step: "bits_asc m = unat (BIT_SCAN_FORWARD_U32 m) # bits_asc (m AND (m - 1))"
      by (rule bsf32.scan_step [OF False])
    then have "length (bits_asc (m AND (m - 1))) \<le> n" using Suc.prems by simp
    from Suc.IH [OF this] False step show ?thesis by (auto simp: Let_def split: prod.splits)
  qed simp
qed

definition steal_cands :: "rodata \<Rightarrow> u32 \<Rightarrow> sched \<Rightarrow> nat list" where
  \<comment> \<open>the other LLCs whose flag is set, ascending\<close>
  "steal_cands R my_llc s = filter (\<lambda>i. i \<noteq> unat my_llc \<and> llc_nonempty s ! i \<noteq> 0) [0..<unat (nr_llcs R)]"

definition steal_order :: "(nat \<Rightarrow> u8) \<Rightarrow> nat list \<Rightarrow> nat list" where
  \<comment> \<open>the cheapest LLC with a known cost first, the others ascending\<close>
  "steal_order cost cs =
     (let known = filter (\<lambda>i. 0 < cost i) cs
      in if known = [] then cs else arg_min_list cost known # remove1 (arg_min_list cost known) cs)"

definition etd_cost :: "sched \<Rightarrow> u32 \<Rightarrow> nat \<Rightarrow> u8" where
  "etd_cost s my_llc i = llc_etd_cost s ! unat (my_llc AND 7) ! i"

lemma arg_min_list_snoc:
  "arg_min_list f (xs @ [x]) = (if xs = [] then x else if f x < f (arg_min_list f xs) then x else arg_min_list f xs)"
  for f :: "'a \<Rightarrow> 'b::linorder"
proof (induction xs)
  case (Cons y ys)
  then show ?case by (cases ys) (auto simp: Let_def)
qed simp

lemma arg_min_list_least:
  fixes f :: "nat \<Rightarrow> 'b::linorder"
  assumes "sorted xs" "xs \<noteq> []"
  shows "arg_min_list f xs \<in> set xs \<and> (\<forall>j \<in> set xs. f (arg_min_list f xs) \<le> f j
      \<and> (f j = f (arg_min_list f xs) \<longrightarrow> arg_min_list f xs \<le> j))"
  using assms
proof (induction xs)
  case (Cons x xs)
  show ?case
  proof (cases xs)
    case (Cons y ys)
    let ?m = "arg_min_list f xs"
    have m: "?m \<in> set xs" "\<And>j. j \<in> set xs \<Longrightarrow> f ?m \<le> f j" "\<And>j. j \<in> set xs \<Longrightarrow> f j = f ?m \<Longrightarrow> ?m \<le> j"
      using Cons.IH Cons.prems Cons by auto
    have x: "\<And>j. j \<in> set xs \<Longrightarrow> x \<le> j" using Cons.prems by auto
    have split: "arg_min_list f (x # xs) = (if f x \<le> f ?m then x else ?m)"
      using Cons by (simp add: Let_def)
    show ?thesis
    proof (cases "f x \<le> f ?m")
      case True
      then have "f x \<le> f j" if "j \<in> set xs" for j using m(2) [OF that] by (rule order_trans)
      then show ?thesis using True x by (simp add: split)
    next
      case False
      then show ?thesis using m by (auto simp: split)
    qed
  qed simp
qed simp

lemma scan_prefix:
  assumes my: "unat my_llc < 8" and k: "k \<le> 8" and nr: "unat nr \<le> 8"
  shows "\<exists>m. fold (steal_scan_step my_llc s) (map word_of_nat [0..<k]) (0, nr, 0) =
      (let cs = filter (\<lambda>i. i \<noteq> unat my_llc \<and> llc_nonempty s ! i \<noteq> 0) [0..<k];
           known = filter (\<lambda>i. 0 < etd_cost s my_llc i) cs
       in (m, if known = [] then nr else word_of_nat (arg_min_list (etd_cost s my_llc) known),
           if known = [] then 0 else etd_cost s my_llc (arg_min_list (etd_cost s my_llc) known)))
    \<and> (\<forall>j. bit m j \<longleftrightarrow> j < k \<and> j \<noteq> unat my_llc \<and> llc_nonempty s ! j \<noteq> 0)"
  using k
proof (induction k)
  case (Suc k)
  let ?P = "\<lambda>i. i \<noteq> unat my_llc \<and> llc_nonempty s ! i \<noteq> 0"
  let ?known = "filter (\<lambda>i. 0 < etd_cost s my_llc i) (filter ?P [0..<k])"
  obtain m where IH: "fold (steal_scan_step my_llc s) (map word_of_nat [0..<k]) (0, nr, 0) =
      (m, if ?known = [] then nr else word_of_nat (arg_min_list (etd_cost s my_llc) ?known),
          if ?known = [] then 0 else etd_cost s my_llc (arg_min_list (etd_cost s my_llc) ?known))"
    and bits: "\<And>j. bit m j \<longleftrightarrow> j < k \<and> ?P j"
    using Suc by (auto simp: Let_def)
  have u: "unat (word_of_nat k :: u32) = k" "unat (word_of_nat k AND (7 :: u32)) = k"
    "((word_of_nat k :: u32) = my_llc) = (k = unat my_llc)"
    using Suc.prems my by (auto simp: unat_of_nat unat_and_low word_unat_eq_iff)
  have pos: "0 < etd_cost s my_llc (arg_min_list (etd_cost s my_llc) ?known)" if "?known \<noteq> []"
    using that arg_min_list_in [OF that, of "etd_cost s my_llc"] by auto
  have step: "fold (steal_scan_step my_llc s) (map word_of_nat [0..<Suc k]) (0, nr, 0) =
      steal_scan_step my_llc s (word_of_nat k) (fold (steal_scan_step my_llc s) (map word_of_nat [0..<k]) (0, nr, 0))"
    by simp
  have bits': "bit (m OR push_bit k 1) j \<longleftrightarrow> j < Suc k \<and> ?P j" if "?P k" for j
    using bits [of j] that Suc.prems by (auto simp: bit_simps less_Suc_eq)
  show ?case
  proof (cases "?P k")
    case False
    then have "fold (steal_scan_step my_llc s) (map word_of_nat [0..<Suc k]) (0, nr, 0) =
        fold (steal_scan_step my_llc s) (map word_of_nat [0..<k]) (0, nr, 0)"
      unfolding step IH by (auto simp: steal_scan_step_def u)
    with False IH bits show ?thesis
      by (intro exI [of _ m]) (auto simp: Let_def less_Suc_eq)
  next
    case True
    then have "fold (steal_scan_step my_llc s) (map word_of_nat [0..<Suc k]) (0, nr, 0) =
       (let known = ?known @ (if 0 < etd_cost s my_llc k then [k] else [])
        in (m OR push_bit k 1, if known = [] then nr else word_of_nat (arg_min_list (etd_cost s my_llc) known),
           if known = [] then 0 else etd_cost s my_llc (arg_min_list (etd_cost s my_llc) known)))"
      unfolding step IH using pos
      by (auto simp: steal_scan_step_def u Let_def arg_min_list_snoc etd_cost_def)
    with True bits' show ?thesis by (intro exI [of _ "m OR push_bit k 1"]) (simp add: Let_def)
  qed
qed simp


lemma steal_scan_eq:
  assumes my: "unat my_llc < 8" and nr: "unat (nr_llcs R) \<le> 8"
  shows "\<exists>m. steal_scan R my_llc s =
      (let known = filter (\<lambda>i. 0 < etd_cost s my_llc i) (steal_cands R my_llc s);
           best = arg_min_list (etd_cost s my_llc) known
       in (m, if known = [] then nr_llcs R else word_of_nat best, if known = [] then 0 else etd_cost s my_llc best))
    \<and> bits_asc m = steal_cands R my_llc s"
proof -
  obtain m where m: "steal_scan R my_llc s =
      (let known = filter (\<lambda>i. 0 < etd_cost s my_llc i) (steal_cands R my_llc s);
           best = arg_min_list (etd_cost s my_llc) known
       in (m, if known = [] then nr_llcs R else word_of_nat best, if known = [] then 0 else etd_cost s my_llc best))"
    and bits: "\<And>j. bit m j \<longleftrightarrow> j < unat (nr_llcs R) \<and> j \<noteq> unat my_llc \<and> llc_nonempty s ! j \<noteq> 0"
    using scan_prefix [OF my nr nr, of s] unfolding steal_scan_def steal_cands_def Let_def by blast
  have "bits_asc m = steal_cands R my_llc s"
  proof (rule sorted_distinct_set_unique)
    show "sorted (steal_cands R my_llc s)" "distinct (steal_cands R my_llc s)"
      using sorted_wrt_filter [OF sorted_upt] by (simp_all add: steal_cands_def)
    show "set (bits_asc m) = set (steal_cands R my_llc s)"
      by (auto simp: set_bits_asc bits steal_cands_def)
  qed (rule sorted_bits_asc)+
  with m show ?thesis by blast
qed

lemma bits_asc_remove:
  "bits_asc (m AND NOT (push_bit i 1)) = remove1 i (bits_asc m)" for m :: "'a::len word"
proof (rule sorted_distinct_set_unique)
  show "sorted (remove1 i (bits_asc m))" "distinct (remove1 i (bits_asc m))"
    by (simp_all add: sorted_remove1 sorted_bits_asc)
  show "set (bits_asc (m AND NOT (push_bit i 1))) = set (remove1 i (bits_asc m))"
    by (auto simp: sorted_bits_asc set_bits_asc bit_simps dest: bit_imp_le_length)
qed (rule sorted_bits_asc)+

lemma etd_after_local:
  assumes "try_llc inp my_llc s = (m, t)" "unat my_llc < 8"
  shows "etd_cost t = etd_cost s" "steal_cands R my_llc t = steal_cands R my_llc s"
  using try_llc_effect [OF assms(1)] assms(2)
  by (auto simp: etd_cost_def fun_eq_iff steal_cands_def unat_and_low intro!: filter_cong)

definition dispatch_plan :: "rodata \<Rightarrow> u32 \<Rightarrow> sched \<Rightarrow> u32 list" where
  \<comment> \<open>the order in which the queues are tried\<close>
  "dispatch_plan R my_llc s =
     my_llc # (if nr_llcs R \<le> 1 then []
               else map word_of_nat (steal_order (etd_cost s my_llc) (steal_cands R my_llc s)))"

lemma dispatch_try_all:
  assumes my: "my_llc = cpu_llc_id R ! unat (dsp_raw_cpu inp AND 63)" "unat my_llc < 8"
    and nr: "unat (nr_llcs R) \<le> 8"
  shows "imperator_dispatch R inp s = try_all inp (dispatch_plan R my_llc s) s"
proof -
  obtain m0 t where t: "try_llc inp my_llc s = (m0, t)" by (metis prod.exhaust)
  note e = etd_after_local [OF t my(2)]
  let ?cost = "etd_cost s my_llc" and ?cs = "steal_cands R my_llc s"
  let ?known = "filter (\<lambda>i. 0 < ?cost i) ?cs"
  let ?best = "arg_min_list ?cost ?known"
  obtain m where scan: "steal_scan R my_llc t =
      (m, if ?known = [] then nr_llcs R else word_of_nat ?best, if ?known = [] then 0 else ?cost ?best)"
    and m: "bits_asc m = ?cs"
    using steal_scan_eq [OF my(2) nr, of t] unfolding e Let_def by blast
  have "length ?cs \<le> unat (nr_llcs R)"
    unfolding steal_cands_def by (rule order_trans [OF length_filter_le]) simp
  then have loop: "steal_loop inp (unat (nr_llcs R)) m u = try_all inp (map word_of_nat ?cs) u" for u
    using steal_loop_try_all [of m] m by simp
  show ?thesis
  proof (cases "?known = []")
    case True
    then show ?thesis
      unfolding imperator_dispatch_def dispatch_plan_def steal_order_def Let_def my(1) [symmetric] t
        prod.case scan by (simp add: loop t)
  next
    case False
    then have best: "?best \<in> set ?known" by (rule arg_min_list_in)
    then have b: "?best \<in> set ?cs" "0 < ?cost ?best" "?best < unat (nr_llcs R)"
      by (auto simp: steal_cands_def)
    then have lt: "(word_of_nat ?best :: u32) < nr_llcs R" "unat (word_of_nat ?best :: u32) = ?best"
      using nr by (simp_all add: word_less_nat_alt unat_of_nat)
    have "length (remove1 ?best ?cs) \<le> unat (nr_llcs R)"
      using \<open>length ?cs \<le> _\<close> by (auto simp: length_remove1)
    then have loop': "steal_loop inp (unat (nr_llcs R)) (m AND NOT (push_bit ?best 1)) u
        = try_all inp (map word_of_nat (remove1 ?best ?cs)) u" for u
      using steal_loop_try_all [of "m AND NOT (push_bit ?best 1)"] unfolding bits_asc_remove m by blast
    show ?thesis
      using False b(2) lt
      unfolding imperator_dispatch_def dispatch_plan_def steal_order_def Let_def my(1) [symmetric] t
        prod.case scan by (simp add: loop' [unfolded push_bit_of_1] t split: prod.split)
  qed
qed


lemma steal_order_spec:
  assumes "sorted cs" "distinct cs"
  shows "distinct (steal_order cost cs)" "set (steal_order cost cs) = set cs"
    "sorted (if \<exists>i \<in> set cs. 0 < cost i then tl (steal_order cost cs) else steal_order cost cs)"
    "\<exists>i \<in> set cs. 0 < cost i \<Longrightarrow> 0 < cost (hd (steal_order cost cs))
       \<and> (\<forall>i \<in> set cs. 0 < cost i \<longrightarrow> cost (hd (steal_order cost cs)) \<le> cost i)"
proof -
  let ?known = "filter (\<lambda>i. 0 < cost i) cs"
  let ?best = "arg_min_list cost ?known"
  have ne: "?known \<noteq> [] \<longleftrightarrow> (\<exists>i \<in> set cs. 0 < cost i)" by (auto simp: filter_empty_conv)
  have sk: "sorted ?known" using assms(1) by (simp add: sorted_wrt_filter)
  have best: "?best \<in> set cs \<and> 0 < cost ?best \<and> (\<forall>i \<in> set cs. 0 < cost i \<longrightarrow> cost ?best \<le> cost i)" if "?known \<noteq> []"
    using arg_min_list_least [OF sk that, of cost] by simp
  have order: "steal_order cost cs = (if ?known = [] then cs else ?best # remove1 ?best cs)"
    by (simp add: steal_order_def Let_def)
  show "distinct (steal_order cost cs)" "set (steal_order cost cs) = set cs"
    using assms best by (auto simp: order)
  show "sorted (if \<exists>i \<in> set cs. 0 < cost i then tl (steal_order cost cs) else steal_order cost cs)"
    using assms by (simp add: order sorted_remove1 flip: ne)
  show "\<exists>i \<in> set cs. 0 < cost i \<Longrightarrow> 0 < cost (hd (steal_order cost cs))
       \<and> (\<forall>i \<in> set cs. 0 < cost i \<longrightarrow> cost (hd (steal_order cost cs)) \<le> cost i)"
    using best by (simp add: order flip: ne)
qed

lemma steal_order_words:
  fixes cost :: "u32 \<Rightarrow> u8"
  assumes ns: "sorted ns" "distinct ns" "\<And>i. i \<in> set ns \<Longrightarrow> i < 8"
    and c: "\<And>i. i \<in> set ns \<Longrightarrow> cost (word_of_nat i) = c i"
    and plan: "plan = map word_of_nat (steal_order c ns)"
    and known: "known \<longleftrightarrow> (\<exists>l \<in> set plan. 0 < cost l)"
  shows "distinct plan" "set plan = word_of_nat ` set ns" "sorted (if known then tl plan else plan)"
    "known \<Longrightarrow> 0 < cost (hd plan) \<and> (\<forall>l \<in> set plan. 0 < cost l \<longrightarrow> cost (hd plan) \<le> cost l)"
proof -
  let ?o = "steal_order c ns"
  note o = steal_order_spec [OF ns(1,2), of c]
  have u: "unat (word_of_nat i :: u32) = i" if "i \<in> set ns" for i
    using ns(3) [OF that] by (simp add: unat_of_nat)
  have inj: "inj_on (word_of_nat :: nat \<Rightarrow> u32) (set ?o)"
    unfolding o(2) by (rule inj_on_inverseI) (rule u)
  show "distinct plan" unfolding plan distinct_map using o(1) inj by (rule conjI)
  show set: "set plan = word_of_nat ` set ns" by (simp only: plan list.set_map o(2))
  have k: "known \<longleftrightarrow> (\<exists>i \<in> set ns. 0 < c i)"
    unfolding known set using c by simp
  have mono: "sorted (map word_of_nat xs :: u32 list)" if "sorted xs" "set xs \<subseteq> set ns" for xs
    unfolding sorted_map using that(2) u
    by (intro sorted_wrt_mono_rel [OF _ that(1)]) (simp add: word_le_nat_alt subset_iff)
  have "set (tl ?o) \<subseteq> set ns" "set ?o \<subseteq> set ns"
    using o(2) by (cases ?o; force)+
  with o(3) mono show "sorted (if known then tl plan else plan)"
    unfolding k plan by (cases "\<exists>i \<in> set ns. 0 < c i") (simp_all only: if_True if_False simp_thms map_tl [symmetric])
  assume known
  then have k: "\<exists>i \<in> set ns. 0 < c i" by (simp only: k)
  then have ne: "?o \<noteq> []" using o(2) by force
  then have "hd ?o \<in> set ns" using o(2) hd_in_set by blast
  then have "cost (hd plan) = c (hd ?o)" using ne c by (simp add: plan hd_map)
  with o(4) [OF k] c show "0 < cost (hd plan) \<and> (\<forall>l \<in> set plan. 0 < cost l \<longrightarrow> cost (hd plan) \<le> cost l)"
    by (simp add: set)
qed

text \<open>
  The loop the comment describes, driven by the mask alone, without the trip count that is there for
  the program verifier.
\<close>

definition steal_body :: "dsp_input \<Rightarrow> u32 \<times> bool \<times> sched \<Rightarrow> u32 \<times> bool \<times> sched" where
  "steal_body inp = (\<lambda>(steal_mask, moved, s). (steal_mask AND (steal_mask - 1), try_llc inp (BIT_SCAN_FORWARD_U32 steal_mask) s))"

definition steal_while :: "dsp_input \<Rightarrow> u32 \<Rightarrow> sched \<Rightarrow> (u32 \<times> bool \<times> sched) option" where
  "steal_while inp m s = while_option (\<lambda>(steal_mask, moved, s). steal_mask \<noteq> 0 \<and> \<not> moved) (steal_body inp) (m, False, s)"

lemma steal_while_0: "steal_while inp 0 s = Some (0, False, s)"
  unfolding steal_while_def by (subst while_option_unfold) simp

lemma steal_while_eq:
  "length (bits_asc m) \<le> n \<Longrightarrow> \<exists>m' moved. steal_while inp m s = Some (m', moved, steal_loop inp n m s) \<and> (m' = 0 \<or> moved)"
proof (induction n arbitrary: m s)
  case 0
  then have "m = 0" by (simp add: bits_asc_Nil)
  then show ?case using steal_while_0 [of inp s] by simp blast
next
  case (Suc n)
  show ?case
  proof (cases "m = 0")
    case True
    then show ?thesis using steal_while_0 [of inp s] by simp blast
  next
    case False
    let ?m = "m AND (m - 1)"
    have "bits_asc m = unat (BIT_SCAN_FORWARD_U32 m) # bits_asc ?m"
      by (rule bsf32.scan_step [OF False])
    then have len: "length (bits_asc ?m) \<le> n" using Suc.prems by simp
    obtain moved t where t: "try_llc inp (BIT_SCAN_FORWARD_U32 m) s = (moved, t)" by (metis prod.exhaust)
    have unfold: "steal_while inp m s =
        while_option (\<lambda>(steal_mask, moved, s). steal_mask \<noteq> 0 \<and> \<not> moved) (steal_body inp) (?m, moved, t)"
      using False unfolding steal_while_def by (subst while_option_unfold) (simp add: steal_body_def t)
    show ?thesis
    proof (cases moved)
      case True
      then show ?thesis using False unfolding unfold by (subst while_option_unfold) (simp add: t, blast)
    next
      case m: False
      then have "steal_while inp m s = steal_while inp ?m t" by (subst unfold) (simp add: steal_while_def m)
      then show ?thesis using Suc.IH [OF len, of t] False m by (simp add: t)
    qed
  qed
qed

lemma try_llc_ctx: "try_llc inp l s = (b, t) \<Longrightarrow> task_ctx t = task_ctx s"
  by (rule try_llc_effect)

lemma steal_ctx: "task_ctx (steal_loop inp n m s) = task_ctx s"
proof (induction n arbitrary: m s)
  case (Suc n)
  obtain b t where t: "try_llc inp (BIT_SCAN_FORWARD_U32 m) s = (b, t)" by (metis prod.exhaust)
  then show ?case using Suc.IH try_llc_ctx [OF t] by (simp add: Let_def)
qed simp

lemma dispatch_ctx: "task_ctx (imperator_dispatch R inp s) = task_ctx s"
proof -
  let ?my = "cpu_llc_id R ! unat (dsp_raw_cpu inp AND 63)"
  obtain b t where t: "try_llc inp ?my s = (b, t)" by (metis prod.exhaust)
  obtain m c mc where sc: "steal_scan R ?my t = (m, c, mc)" by (metis prod_cases3)
  obtain b2 t2 where t2: "try_llc inp c t = (b2, t2)" by (metis prod.exhaust)
  show ?thesis
    unfolding imperator_dispatch_def Let_def t sc prod.case t2
    using try_llc_ctx [OF t] try_llc_ctx [OF t2] by (simp add: steal_ctx)
qed

section \<open>Properties\<close>

text \<open>
  C35. The steal loop terminates by itself: started on the mask of the scan, the loop without its trip
  count reaches an end, where the mask is used up or a task was moved, and the bounded loop of the
  code, as well as any longer one, computes exactly its result. The bound \<open>nr_llcs\<close> never cuts the search short.
\<close>

theorem steal_loop_terminates:
  assumes "unat my_llc < 8" "unat (nr_llcs R) \<le> 8" "m = fst (steal_scan R my_llc s_scan)"
  shows "(\<exists>m' moved. steal_while inp m s = Some (m', moved, steal_loop inp (unat (nr_llcs R)) m s) \<and> (m' = 0 \<or> moved))
    \<and> (\<forall>n \<ge> unat (nr_llcs R). steal_loop inp n m s = steal_loop inp (unat (nr_llcs R)) m s)"
proof -
  have m: "bits_asc m = steal_cands R my_llc s_scan"
    using steal_scan_eq [OF assms(1,2), of s_scan] assms(3) by (auto simp: Let_def)
  have len: "length (bits_asc m) \<le> unat (nr_llcs R)"
    unfolding m steal_cands_def by (rule order_trans [OF length_filter_le]) simp
  then show ?thesis using steal_while_eq [OF len, of inp s] by (auto simp: steal_loop_try_all)
qed

definition flagged_others :: "rodata \<Rightarrow> u32 \<Rightarrow> sched \<Rightarrow> u32 set" where
  \<comment> \<open>the LLCs worth stealing from\<close>
  "flagged_others R my_llc s =
     (if nr_llcs R \<le> 1 then {} else {l. l < nr_llcs R \<and> l \<noteq> my_llc \<and> llc_nonempty s ! unat l \<noteq> 0})"

lemma set_plan:
  assumes nr: "unat (nr_llcs R) \<le> 8"
  shows "set (dispatch_plan R my_llc s) = insert my_llc (flagged_others R my_llc s)"
proof -
  let ?cs = "steal_cands R my_llc s"
  have cs: "sorted ?cs" "distinct ?cs"
    using sorted_wrt_filter [OF sorted_upt] by (simp_all add: steal_cands_def)
  have u: "unat (word_of_nat i :: u32) = i" if "i < 8" for i using that by (simp add: unat_of_nat)
  have "word_of_nat ` set ?cs = {l. l < nr_llcs R \<and> l \<noteq> my_llc \<and> llc_nonempty s ! unat l \<noteq> 0}"
  proof (intro set_eqI iffI)
    fix l :: u32 assume "l \<in> word_of_nat ` set ?cs"
    then show "l \<in> {l. l < nr_llcs R \<and> l \<noteq> my_llc \<and> llc_nonempty s ! unat l \<noteq> 0}"
      using nr u by (auto simp: steal_cands_def word_less_nat_alt)
  next
    fix l :: u32 assume "l \<in> {l. l < nr_llcs R \<and> l \<noteq> my_llc \<and> llc_nonempty s ! unat l \<noteq> 0}"
    then have "unat l \<in> set ?cs" "l = word_of_nat (unat l)"
      by (auto simp: steal_cands_def word_less_nat_alt word_unat_eq_iff)
    then show "l \<in> word_of_nat ` set ?cs" by blast
  qed
  then show ?thesis
    using steal_order_spec(2) [OF cs, of "etd_cost s my_llc"]
    by (simp add: dispatch_plan_def flagged_others_def)
qed

text \<open>
  C10. Dispatch tries the local queue first and then every other LLC whose flag is set, each at
  most once, until one delivers a task: the LLC of the smallest known latency first, the others
  in ascending order. A flag is cleared exactly when its queue was tried, delivered nothing and
  is empty; every other flag stays as it is.
\<close>

theorem dispatch_order:
  assumes my: "my_llc = cpu_llc_id R ! unat (dsp_raw_cpu inp AND 63)" "unat my_llc < 8"
    and nr: "unat (nr_llcs R) \<le> 8" and len: "length (llc_nonempty s) = 8"
    and s': "s' = imperator_dispatch R inp s"
    and cost: "cost = (\<lambda>l. llc_etd_cost s ! unat (my_llc AND 7) ! unat l)"
    and known: "known \<longleftrightarrow> (\<exists>l \<in> flagged_others R my_llc s. 0 < cost l)"
  shows "\<exists>plan. kcalls s' = kcalls s @ map (\<lambda>l. Dsq_move_to_local (llc_dsq l)) (attempts (moves inp) (my_llc # plan))
    \<and> distinct plan \<and> set plan = flagged_others R my_llc s
    \<and> sorted (if known then tl plan else plan)
    \<and> (known \<longrightarrow> 0 < cost (hd plan) \<and> (\<forall>l \<in> set plan. 0 < cost l \<longrightarrow> cost (hd plan) \<le> cost l))
    \<and> (\<forall>i < 8. llc_nonempty s' ! i =
        (if word_of_nat i \<in> set (attempts (moves inp) (my_llc # plan)) \<and> drained inp (word_of_nat i)
         then 0 else llc_nonempty s ! i))"
proof -
  let ?c = "etd_cost s my_llc"
  define ns where "ns = (if nr_llcs R \<le> 1 then [] else steal_cands R my_llc s)"
  let ?plan = "map word_of_nat (steal_order ?c ns) :: u32 list"
  have ns: "sorted ns" "distinct ns"
    using sorted_wrt_filter [OF sorted_upt] by (simp_all add: ns_def steal_cands_def)
  have lt: "i < 8 \<and> i \<noteq> unat my_llc" if "i \<in> set ns" for i
    using that nr by (auto simp: ns_def steal_cands_def split: if_splits)
  have plan: "dispatch_plan R my_llc s = my_llc # ?plan"
    by (simp add: dispatch_plan_def ns_def steal_order_def)
  have u: "unat (word_of_nat i :: u32) = i" if "i \<in> set ns" for i
    using lt [OF that] by (simp add: unat_of_nat)
  then have c: "cost (word_of_nat i) = ?c i" if "i \<in> set ns" for i
    using that by (simp add: cost etd_cost_def)
  have set_ns: "set ?plan = word_of_nat ` set ns"
    by (simp only: list.set_map steal_order_spec(2) [OF ns])
  then have "my_llc \<notin> set ?plan" using u lt by force
  then have set_o: "set ?plan = flagged_others R my_llc s"
    using set_plan [OF nr, of my_llc s] insert_ident [of my_llc "set ?plan" "flagged_others R my_llc s"]
    unfolding plan by (simp add: flagged_others_def)
  have kn: "known \<longleftrightarrow> (\<exists>l \<in> set ?plan. 0 < cost l)" by (simp only: known set_o)
  note o = steal_order_words [OF ns conjunct1 [OF lt] c refl kn]
  have eq: "s' = try_all inp (my_llc # ?plan) s"
    by (simp only: s' dispatch_try_all [OF my nr] plan)
  have all8: "\<forall>l \<in> set (my_llc # ?plan). unat l < 8"
    using my(2) u lt by (simp add: set_ns del: set_map)
  show ?thesis
    using o(1,3,4) set_o try_all_flags [OF len all8, of _ inp] try_all_effect(1) [of inp "my_llc # ?plan" s]
    unfolding eq by (intro exI [of _ ?plan] conjI) (assumption | rule allI impI | simp only:)+
qed

definition example_rodata :: rodata where
  \<comment> \<open>three LLCs; the dispatching CPU is on LLC 0\<close>
  "example_rodata = rodata_default\<lparr>nr_llcs := 3, cpu_llc_id := replicate 64 0\<rparr>"

definition example_dsp :: dsp_input where
  "example_dsp = \<lparr>dsp_raw_cpu = 3, dsp_move_ok = (\<lambda>d. d = 201), dsp_nr_queued = (\<lambda>d. 0)\<rparr>"

definition example_stealable :: sched where
  \<comment> \<open>LLCs 1 and 2 flagged, at cost 40 and 20 from LLC 0\<close>
  "example_stealable = bss_zero\<lparr>llc_nonempty := [0, 1, 1, 0, 0, 0, 0, 0],
     llc_etd_cost := [0, 40, 20, 0, 0, 0, 0, 0] # replicate 7 (replicate 8 0)\<rparr>"

lemma example_dispatch_sel [simp]:
  "unat (nr_llcs example_rodata) = 3" "nr_llcs example_rodata = 3"
  "cpu_llc_id example_rodata ! unat (dsp_raw_cpu example_dsp AND 63) = 0"
  "length (llc_nonempty example_stealable) = 8" "kcalls example_stealable = []"
  by (simp_all add: example_rodata_def example_dsp_def example_stealable_def bss_zero_def)

lemma u32_less_3_cases: "l < (3 :: u32) \<longleftrightarrow> l = 0 \<or> l = 1 \<or> l = 2"
proof
  assume "l < 3"
  then have "unat l < 3" by (simp add: word_less_nat_alt)
  then have "unat l = 0 \<or> unat l = 1 \<or> unat l = 2" by linarith
  then show "l = 0 \<or> l = 1 \<or> l = 2" by (auto simp: word_unat_eq_iff)
qed auto

lemma example_flagged: "flagged_others example_rodata 0 example_stealable = {1, 2}"
  by (auto simp: flagged_others_def u32_less_3_cases example_stealable_def word_le_nat_alt)

theorem steal_loop_terminates_witness:
  "\<exists>m' moved. steal_while example_dsp (fst (steal_scan example_rodata 0 example_stealable)) example_stealable
      = Some (m', moved, steal_loop example_dsp 3 (fst (steal_scan example_rodata 0 example_stealable)) example_stealable)
    \<and> (m' = 0 \<or> moved)"
proof -
  have "unat (0 :: u32) < 8" "unat (nr_llcs example_rodata) \<le> 8" by simp_all
  from conjunct1 [OF steal_loop_terminates [OF this refl, where s = example_stealable and inp = example_dsp and s_scan = example_stealable]]
  show ?thesis by (simp only: example_dispatch_sel(1))
qed

theorem dispatch_order_witness:
  "\<exists>plan. kcalls (imperator_dispatch example_rodata example_dsp example_stealable)
      = map (\<lambda>l. Dsq_move_to_local (llc_dsq l)) (attempts (moves example_dsp) (0 # plan))
    \<and> set plan = {1, 2} \<and> hd plan = 2"
proof -
  let ?cost = "\<lambda>l. llc_etd_cost example_stealable ! unat ((0 :: u32) AND 7) ! unat (l :: u32)"
  have cost: "?cost 1 = 40" "?cost 2 = 20" by (simp_all add: example_stealable_def)
  have known: "True \<longleftrightarrow> (\<exists>l \<in> flagged_others example_rodata 0 example_stealable. 0 < ?cost l)"
    unfolding example_flagged using cost by simp
  obtain plan where "kcalls (imperator_dispatch example_rodata example_dsp example_stealable)
      = map (\<lambda>l. Dsq_move_to_local (llc_dsq l)) (attempts (moves example_dsp) (0 # plan))"
    and p: "set plan = {1, 2}" "\<forall>l \<in> set plan. 0 < ?cost l \<longrightarrow> ?cost (hd plan) \<le> ?cost l"
    using dispatch_order [of 0 example_rodata example_dsp example_stealable _ ?cost True, OF _ _ _ _ refl refl known]
    unfolding example_flagged by auto
  moreover have "hd plan = 2"
  proof -
    have "hd plan \<in> {1, 2}" using p(1) by (metis hd_in_set insert_not_empty set_empty)
    moreover have "?cost (hd plan) \<le> 20" using p(2) cost unfolding p(1) by simp
    ultimately show ?thesis using cost by auto
  qed
  ultimately show ?thesis by blast
qed

text \<open>
  Work conservation: when the local queue or any flagged queue holds a task this CPU may run,
  dispatch ends with a successful move. When none does, all of them were tried. In both cases a
  queue that still holds tasks keeps its flag, so its work stays visible to other CPUs.
\<close>

theorem dispatch_work_conserving:
  assumes my: "my_llc = cpu_llc_id R ! unat (dsp_raw_cpu inp AND 63)" "unat my_llc < 8"
    and nr: "unat (nr_llcs R) \<le> 8" and len: "length (llc_nonempty s) = 8"
    and s': "s' = imperator_dispatch R inp s"
    and runnable: "runnable \<longleftrightarrow> (\<exists>l \<in> insert my_llc (flagged_others R my_llc s). moves inp l)"
  shows "\<exists>tried. kcalls s' = kcalls s @ map (\<lambda>l. Dsq_move_to_local (llc_dsq l)) tried
    \<and> (if runnable then tried \<noteq> [] \<and> moves inp (last tried)
       else set tried = insert my_llc (flagged_others R my_llc s))
    \<and> (\<forall>i < 8. dsp_nr_queued inp (llc_dsq (word_of_nat i)) \<noteq> 0 \<longrightarrow> llc_nonempty s' ! i = llc_nonempty s ! i)
    \<and> task_ctx s' = task_ctx s"
proof -
  let ?plan = "dispatch_plan R my_llc s"
  have eq: "s' = try_all inp ?plan s" by (simp only: s' dispatch_try_all [OF my nr])
  note set = set_plan [OF nr, of my_llc s]
  have all8: "\<forall>l \<in> set ?plan. unat l < 8"
    unfolding set using my(2) nr by (auto simp: flagged_others_def word_less_nat_alt split: if_splits)
  have "if runnable then attempts (moves inp) ?plan \<noteq> [] \<and> moves inp (last (attempts (moves inp) ?plan))
     else set (attempts (moves inp) ?plan) = insert my_llc (flagged_others R my_llc s)"
    unfolding runnable using attempts_success [of ?plan "moves inp"] attempts_failure [of ?plan "moves inp"] set by auto
  then show ?thesis
    using try_all_effect(1,2) [of inp ?plan s] try_all_flags [OF len all8, of _ inp]
    unfolding eq by (intro exI [of _ "attempts (moves inp) ?plan"] conjI) auto
qed

theorem dispatch_work_conserving_witness:
  "\<exists>tried. kcalls (imperator_dispatch example_rodata example_dsp example_stealable)
      = map (\<lambda>l. Dsq_move_to_local (llc_dsq l)) tried \<and> tried \<noteq> [] \<and> moves example_dsp (last tried)"
proof -
  have "moves example_dsp 1" by (simp add: example_dsp_def llc_dsq_def)
  then have "True \<longleftrightarrow> (\<exists>l \<in> insert 0 (flagged_others example_rodata 0 example_stealable). moves example_dsp l)"
    unfolding example_flagged by blast
  from dispatch_work_conserving [of 0 example_rodata example_dsp example_stealable, OF _ _ _ _ refl this]
  show ?thesis by auto
qed

end
