(* ===== verification/Init.thy ===== *)
theory Init
  imports Dispatch
begin

text \<open>
  \<open>imperator_init\<close> of \<open>src/src/bpf/imperator.bpf.c\<close>: the LLC masks are computed from the CPU table of
  the loader, then one queue per LLC is created; the first failing creation ends the call with
  its error code. The replies of \<open>scx_bpf_create_dsq\<close> are an argument.
\<close>

section \<open>The handler\<close>

definition add_cpu_to_llc :: "rodata \<Rightarrow> u32 \<Rightarrow> sched \<Rightarrow> sched" where
  "add_cpu_to_llc R cpu s =
     (let llc = unat (cpu_llc_id R ! unat cpu AND 7)
      in s\<lparr>llc_cpu_mask := (llc_cpu_mask s)[llc := llc_cpu_mask s ! llc OR cpu_bit cpu]\<rparr>)"

fun create_dsqs :: "(u64 \<Rightarrow> s32) \<Rightarrow> u32 list \<Rightarrow> sched \<Rightarrow> s32 \<times> sched" where
  "create_dsqs create [] s = (0, s)"
| "create_dsqs create (i # is) s =
     (let s = emit (Create_dsq (llc_dsq i) (- 1)) s; ret = create (llc_dsq i)
      in if sint ret < 0 then (ret, s) else create_dsqs create is s)"

definition imperator_init :: "rodata \<Rightarrow> (u64 \<Rightarrow> s32) \<Rightarrow> sched \<Rightarrow> s32 \<times> sched" where
  "imperator_init R create s =
     (let s = fold (add_cpu_to_llc R) (map word_of_nat [0..<min (unat (nr_cpus R)) CAKE_MAX_CPUS]) s
      in create_dsqs create (map word_of_nat [0..<unat (nr_llcs R)]) s)"

section \<open>Effects\<close>

definition llc_of :: "rodata \<Rightarrow> nat \<Rightarrow> nat" where
  \<comment> \<open>the LLC index of a CPU\<close>
  "llc_of R cpu = unat (cpu_llc_id R ! cpu AND 7)"

lemma llc_of_less: "llc_of R cpu < 8"
  by (simp add: llc_of_def unat_and_low)

lemma add_cpu_mask:
  assumes "length (llc_cpu_mask s) = 8" "l < 8" "unat c < 64"
  shows "length (llc_cpu_mask (add_cpu_to_llc R c s)) = 8"
    "bit (llc_cpu_mask (add_cpu_to_llc R c s) ! l) cpu
       \<longleftrightarrow> bit (llc_cpu_mask s ! l) cpu \<or> cpu = unat c \<and> llc_of R cpu = l"
  using assms llc_of_less [of R "unat c"]
  by (auto simp: add_cpu_to_llc_def Let_def nth_list_update bit_or_iff bit_cpu_bit simp flip: llc_of_def)

lemma masks_fold:
  fixes s :: sched
  assumes "n \<le> 64" "length (llc_cpu_mask s) = 8" "l < 8"
  shows "length (llc_cpu_mask (fold (add_cpu_to_llc R) (map word_of_nat [0..<n]) s)) = 8
    \<and> (bit (llc_cpu_mask (fold (add_cpu_to_llc R) (map word_of_nat [0..<n]) s) ! l) cpu
         \<longleftrightarrow> bit (llc_cpu_mask s ! l) cpu \<or> cpu < n \<and> llc_of R cpu = l)"
  using assms(1)
proof (induction n)
  case (Suc n)
  have u: "unat (word_of_nat n :: u32) = n" using Suc.prems by (simp add: unat_of_nat)
  let ?s = "fold (add_cpu_to_llc R) (map word_of_nat [0..<n]) s"
  have IH: "length (llc_cpu_mask ?s) = 8"
    "bit (llc_cpu_mask ?s ! l) cpu \<longleftrightarrow> bit (llc_cpu_mask s ! l) cpu \<or> cpu < n \<and> llc_of R cpu = l"
    using Suc by simp_all
  have "unat (word_of_nat n :: u32) < 64" using Suc.prems by (simp add: u)
  note step = add_cpu_mask [OF IH(1) assms(3) this, of R]
  have "fold (add_cpu_to_llc R) (map word_of_nat [0..<Suc n]) s = add_cpu_to_llc R (word_of_nat n) ?s" by simp
  then show ?case using step IH(2) by (auto simp: u less_Suc_eq)
qed (simp add: assms)

lemma fold_frame: "\<exists>m. fold (add_cpu_to_llc R) cs s = s\<lparr>llc_cpu_mask := m\<rparr>"
proof (induction cs arbitrary: s)
  case Nil
  show ?case by (intro exI [of _ "llc_cpu_mask s"]) simp
next
  case (Cons c cs)
  obtain m where "fold (add_cpu_to_llc R) cs (add_cpu_to_llc R c s) = (add_cpu_to_llc R c s)\<lparr>llc_cpu_mask := m\<rparr>"
    using Cons by blast
  moreover obtain k where "add_cpu_to_llc R c s = s\<lparr>llc_cpu_mask := k\<rparr>"
    unfolding add_cpu_to_llc_def Let_def by blast
  ultimately show ?case by (intro exI [of _ m]) simp
qed

lemma kcalls_fold: "kcalls (fold (add_cpu_to_llc R) cs s) = kcalls s"
  by (induction cs arbitrary: s) (simp_all add: add_cpu_to_llc_def Let_def)

lemma create_dsqs_eq:
  "create_dsqs create is s =
     (let made = attempts (\<lambda>i. sint (create (llc_dsq i)) < 0) is
      in (if made \<noteq> [] \<and> sint (create (llc_dsq (last made))) < 0 then create (llc_dsq (last made)) else 0,
          s\<lparr>kcalls := kcalls s @ map (\<lambda>i. Create_dsq (llc_dsq i) (- 1)) made\<rparr>))"
  by (induction "is" arbitrary: s) (auto simp: Let_def emit_def)

lemma init_effect:
  assumes r: "imperator_init R create s = (ret, s')" and len: "length (llc_cpu_mask s) = 8" and l: "l < 8"
  shows "bit (llc_cpu_mask s' ! l) cpu \<longleftrightarrow>
      bit (llc_cpu_mask s ! l) cpu \<or> cpu < unat (nr_cpus R) \<and> cpu < 64 \<and> llc_of R cpu = l"
    "length (llc_cpu_mask s') = 8"
    "s' = s\<lparr>llc_cpu_mask := llc_cpu_mask s', kcalls := kcalls s'\<rparr>"
proof -
  let ?n = "min (unat (nr_cpus R)) 64"
  let ?s = "fold (add_cpu_to_llc R) (map word_of_nat [0..<?n]) s"
  have s': "\<exists>k. s' = ?s\<lparr>kcalls := k\<rparr>"
    using r by (auto simp: imperator_init_def create_dsqs_eq Let_def)
  with masks_fold [OF _ len l, of ?n R cpu] show
    "bit (llc_cpu_mask s' ! l) cpu \<longleftrightarrow>
      bit (llc_cpu_mask s ! l) cpu \<or> cpu < unat (nr_cpus R) \<and> cpu < 64 \<and> llc_of R cpu = l"
    "length (llc_cpu_mask s') = 8" by auto
  obtain m where "?s = s\<lparr>llc_cpu_mask := m\<rparr>" using fold_frame by blast
  with s' show "s' = s\<lparr>llc_cpu_mask := llc_cpu_mask s', kcalls := kcalls s'\<rparr>" by auto
qed

section \<open>Properties\<close>

text \<open>
  Initialisation gives every LLC the mask of exactly its own CPUs, and creates the queues of
  the LLCs in ascending order. It returns 0 when every creation succeeded, after all of them, and
  otherwise stops at the first failure and returns that error code.
\<close>

theorem init_masks_and_queues:
  assumes r: "imperator_init R create bss_zero = (ret, s')"
    and fails: "fails = (\<lambda>i. sint (create (llc_dsq (word_of_nat i))) < 0)"
  shows "(\<forall>l < 8. \<forall>cpu. bit (llc_cpu_mask s' ! l) cpu \<longleftrightarrow> cpu < unat (nr_cpus R) \<and> cpu < 64 \<and> llc_of R cpu = l)
    \<and> (\<exists>n \<le> unat (nr_llcs R). kcalls s' = map (\<lambda>i. Create_dsq (llc_dsq (word_of_nat i)) (- 1)) [0..<n]
        \<and> (if \<exists>i < unat (nr_llcs R). fails i
           then 0 < n \<and> fails (n - 1) \<and> (\<forall>i < n - 1. \<not> fails i) \<and> ret = create (llc_dsq (word_of_nat (n - 1)))
           else n = unat (nr_llcs R) \<and> ret = 0))"
proof -
  have len: "length (llc_cpu_mask bss_zero) = 8" by (simp add: bss_zero_def)
  have mask: "\<forall>l < 8. \<forall>cpu. bit (llc_cpu_mask s' ! l) cpu \<longleftrightarrow> cpu < unat (nr_cpus R) \<and> cpu < 64 \<and> llc_of R cpu = l"
    using init_effect(1) [OF r len] by (simp add: bss_zero_def)
  let ?N = "unat (nr_llcs R)"
  let ?made = "attempts (\<lambda>i. sint (create (llc_dsq i)) < 0) (map word_of_nat [0..<?N])"
  have out: "kcalls s' = map (\<lambda>i. Create_dsq (llc_dsq i) (- 1)) ?made"
    "ret = (if ?made \<noteq> [] \<and> sint (create (llc_dsq (last ?made))) < 0 then create (llc_dsq (last ?made)) else 0)"
    using r kcalls_fold [of R _ bss_zero] unfolding imperator_init_def create_dsqs_eq Let_def
    by (auto simp: bss_zero_def)
  show ?thesis
  proof (cases "\<exists>i < ?N. fails i")
    case True
    define m where "m = (LEAST i. fails i)"
    have m: "fails m" "m < ?N" "\<And>i. i < m \<Longrightarrow> \<not> fails i"
      using True unfolding m_def by (auto intro: LeastI dest: not_less_Least) (meson Least_le le_less_trans)
    have "?made = map word_of_nat [0..<Suc m]"
      using attempts_prefix [of "\<lambda>i. sint (create (llc_dsq i)) < 0" word_of_nat m ?N] m by (simp add: fails)
    with out m True show ?thesis using mask by (intro conjI exI [of _ "Suc m"]) (auto simp: fails comp_def)
  next
    case False
    then have ok: "\<forall>i \<in> set (map word_of_nat [0..<?N]). \<not> sint (create (llc_dsq i)) < 0"
      by (auto simp: fails)
    then have made: "?made = map word_of_nat [0..<?N]" by (rule attempts_failure)
    have no: "\<not> (?made \<noteq> [] \<and> sint (create (llc_dsq (last ?made))) < 0)"
      unfolding made using ok last_in_set by blast
    have "ret = 0" by (rule trans [OF out(2) if_not_P [OF no]])
    then show ?thesis using mask out(1) False unfolding made
      by (intro conjI exI [of _ ?N]) (auto simp: comp_def)
  qed
qed

theorem init_masks_and_queues_witness:
  "kcalls (snd (imperator_init example_rodata (\<lambda>d. if d = 201 then - 12 else 0) bss_zero))
     = [Create_dsq (llc_dsq 0) (- 1), Create_dsq (llc_dsq 1) (- 1)]
   \<and> fst (imperator_init example_rodata (\<lambda>d. if d = 201 then - 12 else 0) bss_zero) = - 12"
proof -
  let ?c = "\<lambda>d. if d = 201 then - 12 else 0 :: s32"
  obtain ret s' where r: "imperator_init example_rodata ?c bss_zero = (ret, s')" by (metis prod.exhaust)
  have f: "sint (?c (llc_dsq (word_of_nat i))) < 0 \<longleftrightarrow> i = 1" if "i < 3" for i
    using that by (auto simp: llc_dsq_def less_Suc_eq numeral_3_eq_3)
  have ex: "\<exists>i < unat (nr_llcs example_rodata). sint (?c (llc_dsq (word_of_nat i))) < 0"
    using f [of 1] by (intro exI [of _ 1]) simp
  obtain n where n: "n \<le> 3" "kcalls s' = map (\<lambda>i. Create_dsq (llc_dsq (word_of_nat i)) (- 1)) [0..<n]"
    "0 < n" "sint (?c (llc_dsq (word_of_nat (n - 1)))) < 0" "ret = ?c (llc_dsq (word_of_nat (n - 1)))"
    using init_masks_and_queues [OF r refl] ex by auto
  then have "n - 1 < 3" by simp
  then have "n - 1 = 1" using f n(4) by blast
  then have "n = 2" by simp
  with n r show ?thesis by (simp add: upt_rec llc_dsq_def)
qed

end
