(* ===== verification/Invariant.thy ===== *)
theory Invariant
  imports Init
begin

text \<open>
  What every handler of \<open>src/src/bpf/imperator.bpf.c\<close> and \<open>src/src/bpf/lock.bpf.c\<close> keeps of the global state:
  the array shapes, the mailbox encoding and the context invariant (\<open>good\<close>). Handlers that neither
  start nor stop a task also leave tiers and masks alone; that contract is the locale
  \<open>calm_handler\<close>, interpreted for each of them.
\<close>

section \<open>The state invariant\<close>

definition mboxes_ok :: "sched \<Rightarrow> bool" where
  "mboxes_ok s \<longleftrightarrow> (\<forall>m \<in> set (mega_mailbox s). mbox_flags_ok (mbox_flags m))"

definition ctxs_ok :: "rodata \<Rightarrow> sched \<Rightarrow> bool" where
  "ctxs_ok R s \<longleftrightarrow> (\<forall>p c. task_ctx s p = Some c \<longrightarrow> ctx_inv R c)"

definition good :: "rodata \<Rightarrow> sched \<Rightarrow> bool" where
  "good R s \<longleftrightarrow> sched_wf s \<and> mboxes_ok s \<and> ctxs_ok R s"

lemma mboxes_cong: "mega_mailbox s' = mega_mailbox s \<Longrightarrow> mboxes_ok s \<Longrightarrow> mboxes_ok s'"
  by (simp add: mboxes_ok_def)

lemma mboxes_upd:
  assumes "mboxes_ok s"
    and "unat cpu < length (mega_mailbox s) \<Longrightarrow> mbox_flags_ok (mbox_flags (get_mbox cpu s)) \<Longrightarrow> mbox_flags_ok (mbox_flags (f (get_mbox cpu s)))"
  shows "mboxes_ok (upd_mbox cpu f s)"
proof (cases "unat cpu < length (mega_mailbox s)")
  case True
  then have "mbox_flags_ok (mbox_flags (f (get_mbox cpu s)))"
    using assms unfolding mboxes_ok_def get_mbox_def by simp
  then show ?thesis
    using assms(1) set_update_subset_insert [of "mega_mailbox s" "unat cpu"]
    unfolding mboxes_ok_def upd_mbox_def get_mbox_def by fastforce
next
  case False
  then show ?thesis using assms(1) by (simp add: mboxes_ok_def upd_mbox_def list_update_beyond)
qed

lemma mbox_at: "mboxes_ok s \<Longrightarrow> unat cpu < length (mega_mailbox s) \<Longrightarrow> mbox_flags_ok (mbox_flags (get_mbox cpu s))"
  by (simp add: mboxes_ok_def get_mbox_def)

lemma ctxs_upd:
  assumes "ctxs_ok R s" "task_ctx s' = (task_ctx s)(p := x)" "\<And>c. x = Some c \<Longrightarrow> ctx_inv R c"
  shows "ctxs_ok R s'"
  using assms by (simp add: ctxs_ok_def)

lemma ctxs_cong: "task_ctx s' = task_ctx s \<Longrightarrow> ctxs_ok R s \<Longrightarrow> ctxs_ok R s'"
  by (simp add: ctxs_ok_def)

lemma good_zero: "good R bss_zero"
  by (auto simp: good_def sched_wf_def mboxes_ok_def ctxs_ok_def bss_zero_def stats_zero_def mbox_flags_ok_def)

section \<open>Handlers that keep tiers and masks\<close>

definition calm :: "sched \<Rightarrow> sched \<Rightarrow> bool" where
  \<comment> \<open>no task starts, stops, appears or changes tier, and no mask changes\<close>
  "calm s s' \<longleftrightarrow> tier_cpu_mask s' = tier_cpu_mask s \<and> llc_cpu_mask s' = llc_cpu_mask s
     \<and> (\<forall>p. rel_option (\<lambda>c c'. ctx_tier c' = ctx_tier c \<and> (last_run_at c \<noteq> 0 \<longrightarrow> last_run_at c' \<noteq> 0))
              (task_ctx s p) (task_ctx s' p))"

definition task_tier :: "sched \<Rightarrow> tid \<Rightarrow> nat option" where
  "task_tier s p = map_option (\<lambda>c. unat (ctx_tier c)) (task_ctx s p)"

definition tiers_on :: "sched \<Rightarrow> (nat \<rightharpoonup> tid) \<Rightarrow> nat \<rightharpoonup> nat" where
  \<comment> \<open>the tier of the task that runs on each CPU, when it has a context\<close>
  "tiers_on s run = (\<lambda>cpu. Option.bind (run cpu) (task_tier s))"

definition marks_ok :: "sched \<Rightarrow> (nat \<rightharpoonup> tid) \<Rightarrow> bool" where
  "marks_ok s run \<longleftrightarrow> cpu_marks.agrees s (tiers_on s run)
     \<and> (\<forall>cpu p c. run cpu = Some p \<longrightarrow> task_ctx s p = Some c \<longrightarrow> last_run_at c \<noteq> 0)"

lemma calm_refl: "calm s s"
  by (auto simp: calm_def intro!: option.rel_refl)

lemma calm_same:
  "task_ctx s' = task_ctx s \<Longrightarrow> tier_cpu_mask s' = tier_cpu_mask s \<Longrightarrow> llc_cpu_mask s' = llc_cpu_mask s \<Longrightarrow> calm s s'"
  by (auto simp: calm_def intro!: option.rel_refl)

lemma calm_upd:
  assumes "task_ctx s' = (task_ctx s)(p := x)" "tier_cpu_mask s' = tier_cpu_mask s" "llc_cpu_mask s' = llc_cpu_mask s"
    and "rel_option (\<lambda>c c'. ctx_tier c' = ctx_tier c \<and> (last_run_at c \<noteq> 0 \<longrightarrow> last_run_at c' \<noteq> 0)) (task_ctx s p) x"
  shows "calm s s'"
  using assms by (auto simp: calm_def intro!: option.rel_refl)

locale calm_handler =
  fixes R :: rodata and h :: "sched \<Rightarrow> sched"
  assumes keeps_good: "good R s \<Longrightarrow> good R (h s)"
    and keeps_calm: "good R s \<Longrightarrow> calm s (h s)"
begin

lemma tiers_kept: "good R s \<Longrightarrow> task_tier (h s) p = task_tier s p"
proof -
  assume "good R s"
  then have "rel_option (\<lambda>c c'. ctx_tier c' = ctx_tier c \<and> (last_run_at c \<noteq> 0 \<longrightarrow> last_run_at c' \<noteq> 0))
      (task_ctx s p) (task_ctx (h s) p)"
    using keeps_calm by (simp add: calm_def)
  then show ?thesis by (cases rule: option.rel_cases) (simp_all add: task_tier_def)
qed

lemma marks_kept:
  assumes "good R s" "marks_ok s run"
  shows "marks_ok (h s) run"
proof -
  have c: "calm s (h s)" using assms(1) by (rule keeps_calm)
  have "task_tier (h s) = task_tier s" by (rule ext) (rule tiers_kept [OF assms(1)])
  then have "tiers_on (h s) run = tiers_on s run" by (simp only: tiers_on_def)
  moreover have "on_cpu (h s) = on_cpu s" using c by (simp add: fun_eq_iff on_cpu_def calm_def)
  ultimately have "cpu_marks.agrees (h s) (tiers_on (h s) run)"
    using assms(2) by (simp add: marks_ok_def cpu_marks.agrees_def)
  moreover have "last_run_at c' \<noteq> 0" if "run cpu = Some p" "task_ctx (h s) p = Some c'" for cpu p c'
  proof -
    have "rel_option (\<lambda>c c'. ctx_tier c' = ctx_tier c \<and> (last_run_at c \<noteq> 0 \<longrightarrow> last_run_at c' \<noteq> 0))
        (task_ctx s p) (task_ctx (h s) p)" using c unfolding calm_def by blast
    from this [unfolded that(2)] obtain d where "task_ctx s p = Some d" "last_run_at d \<noteq> 0 \<longrightarrow> last_run_at c' \<noteq> 0"
      by (auto simp: option_rel_Some2)
    then show ?thesis using assms(2) that(1) by (simp add: marks_ok_def)
  qed
  ultimately show ?thesis by (simp add: marks_ok_def)
qed

lemma masks_kept: "good R s \<Longrightarrow> llc_cpu_mask (h s) = llc_cpu_mask s"
  using keeps_calm by (simp add: calm_def)

end

section \<open>Enqueue\<close>

lemma ctx_tier_clear: "ctx_tier (c\<lparr>packed_info := clear_flag CAKE_FLOW_IRQ_WAKE (packed_info c)\<rparr>) = ctx_tier c"
  by (simp add: ctx_tier_def)

lemma enq_ctx_sel:
  "ctx_tier (enq_ctx R K inp c) = ctx_tier c" "last_run_at (enq_ctx R K inp c) = last_run_at c"
proof -
  obtain sl d where sp: "burst_spend R (next_slice c) (credited R K inp c) = (sl, d)" by (metis prod.exhaust)
  then have "packed_info d = packed_info c" "last_run_at d = last_run_at c"
    using burst_spend_sel(1,5) [of R "next_slice c" "credited R K inp c"] by simp_all
  then show "ctx_tier (enq_ctx R K inp c) = ctx_tier c" "last_run_at (enq_ctx R K inp c) = last_run_at c"
    by (simp_all add: enq_ctx_def sp irq_override_def ctx_tier_def)
qed

lemma good_insert: "good R s \<Longrightarrow> good R (insert_llc p l sl v f s)"
  by (auto simp: good_def wf_intros frame_simps intro: mboxes_cong ctxs_cong)

lemma enqueue_calm: "good R s \<Longrightarrow> good R (imperator_enqueue R K inp p s) \<and> calm s (imperator_enqueue R K inp p s)"
proof -
  assume g: "good R s"
  have early: "good R (insert_llc (ts_id p) l sl v f s) \<and> calm s (insert_llc (ts_id p) l sl v f s)" for l sl v f
    using good_insert [OF g] by (simp add: calm_same frame_simps)
  have full: "good R s' \<and> calm s s'"
    if c: "task_ctx s (ts_id p) = Some c" and s': "s' = enqueue_full R K inp p c l s" for c l s'
  proof -
    note e = enqueue_full_effect [OF s' refl]
    have "sched_wf s'"
      using enqueue_full_decomp [OF refl, of R K inp p c l s] g
      by (auto simp: s' good_def intro!: wf_intros)
    moreover have "ctx_inv R c" using g c by (simp add: good_def ctxs_ok_def)
    ultimately have "good R s'"
      using g e(1,3) by (auto simp: good_def intro: mboxes_cong ctxs_upd wf_intros)
    moreover have "calm s s'"
      using e(1,4,5) by (rule calm_upd) (simp add: c enq_ctx_sel)
    ultimately show ?thesis ..
  qed
  show ?thesis
    using early full [OF _ refl] unfolding imperator_enqueue_eq by (auto split: option.split)
qed

interpretation enqueue_handler: calm_handler R "imperator_enqueue R K inp p" for R K inp p
  by unfold_locales (simp_all add: enqueue_calm)

section \<open>Tick\<close>

lemma good_emit: "good R s \<Longrightarrow> good R (emit k s)"
  by (auto simp: good_def wf_intros frame_simps intro: mboxes_cong ctxs_cong)

lemma good_count: "good R s \<Longrightarrow> keeps_stat_shape f \<Longrightarrow> good R (count_stat R' c f s)"
  by (auto simp: good_def wf_intros frame_simps intro: mboxes_cong ctxs_cong)

lemma good_put: "good R s \<Longrightarrow> ctx_inv R c \<Longrightarrow> good R (put_ctx p c s)"
  by (auto simp: good_def wf_intros frame_simps intro: mboxes_cong ctxs_upd)

lemma good_upd_mbox:
  assumes "good R s" "\<And>m. mbox_flags_ok (mbox_flags m) \<Longrightarrow> mbox_flags_ok (mbox_flags (f m))"
  shows "good R (upd_mbox c f s)"
  using assms by (auto simp: good_def wf_intros frame_simps intro: mboxes_upd ctxs_cong)

lemma good_publish_tick: "good R s \<Longrightarrow> good R (publish_tick_tier c t s)"
  by (auto simp: publish_tick_tier_def Let_def mbox_encode_ok intro: good_upd_mbox)

lemma good_request: "good R s \<Longrightarrow> good R (request_perf c t s)"
  by (auto simp: request_perf_def Let_def intro!: good_upd_mbox good_emit)

lemma good_dvfs: "good R s \<Longrightarrow> good R (mailbox_dvfs_max K c t s)" "good R s \<Longrightarrow> good R (mailbox_dvfs R' cap c t s)"
  by (auto simp: mailbox_dvfs_max_def mailbox_dvfs_def Let_def intro!: good_request good_publish_tick)

lemma good_counter: "good R s \<Longrightarrow> good R (set_tick_counter c v s)"
  by (auto simp: set_tick_counter_def intro: good_upd_mbox)

lemma good_preempt: "good R s \<Longrightarrow> good R (starvation_preempt R' K sm c t s)"
  by (auto simp: starvation_preempt_def Let_def keeps_stat_shape_def intro!: good_publish_tick good_count good_emit)

lemma good_phase2:
  assumes "good R s" "ctx_inv R c"
  shows "good R (after_phase2 R' K cap cpu t (tick_phase2 R' K inp p c cpu t rt s))"
proof -
  have inv: "ctx_inv R (c\<lparr>lock_skip_count := 0\<rparr>)"
    "lock_skip_count c < 4 \<Longrightarrow> ctx_inv R (c\<lparr>lock_skip_count := lock_skip_count c + 1\<rparr>)"
    using assms(2) by (auto simp: ctx_inv_def word_less_nat_alt unat_word_ariths)
  have sh: "keeps_stat_shape (\<lambda>st. st\<lparr>nr_lock_holder_skips := f st\<rparr>)" for f
    by (simp add: keeps_stat_shape_def)
  show ?thesis
    using assms(1) inv sh unfolding tick_phase2_def after_phase2_def Let_def
    by (auto intro!: good_dvfs good_preempt good_counter good_count good_put split: option.split)
qed

lemma tick_calm: "good R s \<Longrightarrow> good R (imperator_tick R K inp p s) \<and> calm s (imperator_tick R K inp p s)"
proof -
  assume g: "good R s"
  let ?s' = "imperator_tick R K inp p s"
  show ?thesis
  proof (cases "task_ctx s p")
    case None
    then show ?thesis using g by (simp add: tick_unstamped calm_refl)
  next
    case (Some c)
    have ci: "ctx_inv R c" using g Some by (simp add: good_def ctxs_ok_def)
    show ?thesis
    proof (cases "last_run_at c = 0")
      case True
      note t = tick_unstamped(2) [OF Some True, of R K inp]
      have "ctx_inv R (c\<lparr>last_run_at := ucast (in_now inp)\<rparr>)" using ci by (simp add: ctx_inv_def)
      then have "good R ?s'" unfolding t by (rule good_put [OF g])
      moreover have "calm s ?s'"
        by (rule calm_upd [where p = p and x = "Some (c\<lparr>last_run_at := ucast (in_now inp)\<rparr>)"])
           (simp_all add: t frame_simps Some True ctx_tier_def)
      ultimately show ?thesis ..
    next
      case False
      have len: "unat (in_smp_id inp AND 63) < length (mega_mailbox s)"
        using g unat_and_63 by (simp add: good_def sched_wf_def)
      note e = tick_effect [OF len Some False refl refl refl, of R K]
      have "calm s ?s'"
        using e(3-5) by (rule calm_upd) (simp add: Some ctx_tier_def)
      moreover have "good R ?s'"
        unfolding imperator_tick_eq [OF Some False] Let_def
        using g good_phase2 [OF g ci, of R K "in_cpuperf_cap inp" "in_smp_id inp AND 63" "ctx_tier c" inp p]
        by (auto simp: False after_phase2_def slice_expiry_kick_def intro!: good_emit good_publish_tick)
      ultimately show ?thesis by blast
    qed
  qed
qed

interpretation tick_handler: calm_handler R "imperator_tick R K inp p" for R K inp p
  by unfold_locales (simp_all add: tick_calm)

section \<open>Select CPU and dispatch\<close>

lemma sched_wf_mark_irq [wf_intros]: "sched_wf s \<Longrightarrow> sched_wf (mark_irq_wake p s)"
  by (simp add: mark_irq_wake_def wf_intros)

lemma sched_wf_consume:
  assumes "consume_irq_wake_get_tier_slice R smp p s = (tier, slc, s')" "sched_wf s"
  shows "sched_wf s'"
  using assms
  by (auto simp: consume_irq_wake_get_tier_slice_def Let_def keeps_stat_shape_def intro!: wf_intros
      split: option.splits if_splits)

lemma sched_wf_select: "sched_wf s \<Longrightarrow> sched_wf (snd (imperator_select_cpu R K inp p prev_cpu s))"
proof -
  assume wf: "sched_wf s"
  obtain cpu0 idle where d: "sel_dfl inp prev_cpu = (cpu0, idle)" by (metis prod.exhaust)
  let ?s1 = "if irq_context K inp then mark_irq_wake (ts_id p) s else s"
  let ?s2 = "?s1\<lparr>dummy_idle := (dummy_idle ?s1)[unat (sel_smp_id inp AND 63) := idle]\<rparr>"
  obtain tier slc s3 where c: "consume_irq_wake_get_tier_slice R (sel_smp_id inp) (ts_id p) ?s2 = (tier, slc, s3)"
    by (metis prod_cases3)
  have "sched_wf ?s1" using wf by (simp add: wf_intros)
  then have "sched_wf ?s2" by (simp add: sched_wf_def)
  with sched_wf_consume [OF c] show ?thesis
    unfolding imperator_select_cpu_def Let_def d prod.case c by (simp add: wf_intros)
qed

lemma stamped_sel: "ctx_tier (stamped K inp c) = ctx_tier c" "last_run_at (stamped K inp c) = last_run_at c"
  by (simp_all add: stamped_def ctx_tier_def)

lemma select_calm:
  "good R s \<Longrightarrow> good R (snd (imperator_select_cpu R K inp p prev s)) \<and> calm s (snd (imperator_select_cpu R K inp p prev s))"
proof -
  assume g: "good R s"
  obtain cpu0 idle where d: "sel_dfl inp prev = (cpu0, idle)" by (metis prod.exhaust)
  obtain cpu s' where r: "imperator_select_cpu R K inp p prev s = (cpu, s')" by (metis prod.exhaust)
  have len: "length (dummy_idle s) = 64" using g by (simp add: good_def sched_wf_def)
  have wf: "sched_wf s'" using sched_wf_select [of s R K inp p prev] g r by (simp add: good_def)
  obtain f where f: "task_ctx s' = (task_ctx s)(ts_id p := map_option f (task_ctx s (ts_id p)))"
    "\<And>c. ctx_inv R c \<Longrightarrow> ctx_inv R (f c)" "\<And>c. ctx_tier (f c) = ctx_tier c \<and> last_run_at (f c) = last_run_at c"
    and same: "tier_cpu_mask s' = tier_cpu_mask s" "llc_cpu_mask s' = llc_cpu_mask s" "mega_mailbox s' = mega_mailbox s"
  proof (cases idle)
    case True
    note e = select_cpu_idle [OF d [unfolded eqTrueI [OF True]] len r]
    show thesis
      using e(3-6) by (intro that [of cleared]) (simp_all add: wf_intros cleared_def ctx_tier_def)
  next
    case False
    note e = select_cpu_busy [of inp prev s R K p, unfolded d r snd_conv fst_conv, OF _ len]
    show thesis
      using e(3-6) False by (intro that [of "stamped K inp"]) (simp_all add: wf_intros stamped_sel)
  qed
  have "good R s'"
    using g wf f(2) mboxes_cong [OF same(3)] ctxs_upd [OF _ f(1), of R]
    by (auto simp: good_def ctxs_ok_def)
  moreover have "calm s s'"
    using f(1) same(1,2) by (rule calm_upd) (cases "task_ctx s (ts_id p)"; simp add: f(3))
  ultimately show ?thesis by (simp add: r)
qed

interpretation select_handler: calm_handler R "\<lambda>s. snd (imperator_select_cpu R K inp p prev s)" for R K inp p prev
  by unfold_locales (simp_all add: select_calm)

lemma try_llc_wf: "try_llc inp l s = (m, s') \<Longrightarrow> sched_wf s \<Longrightarrow> sched_wf s'"
  by (auto simp: try_llc_def Let_def emit_def store_empty_def sched_wf_def split: if_splits)

lemma calm_trans: "calm s t \<Longrightarrow> calm t u \<Longrightarrow> calm s u"
  unfolding calm_def by (intro conjI allI; (simp; fail)?) (fastforce elim!: allE dest: option.rel_mono_strong simp: option.rel_sel)

lemma try_llc_calm:
  assumes "try_llc inp l s = (m, t)" "good R s"
  shows "good R t" "calm s t"
  using try_llc_effect [OF assms(1)] try_llc_wf [OF assms(1)] assms(2)
  by (auto simp: good_def calm_same intro: mboxes_cong ctxs_cong)

lemma steal_loop_calm:
  "good R s \<Longrightarrow> good R (steal_loop inp n m s) \<and> calm s (steal_loop inp n m s)"
proof (induction n arbitrary: m s)
  case (Suc n)
  obtain b t where t: "try_llc inp (BIT_SCAN_FORWARD_U32 m) s = (b, t)" by (metis prod.exhaust)
  note e = try_llc_calm [OF t Suc.prems]
  show ?case
    using Suc.IH [OF e(1)] e Suc.prems calm_trans [OF e(2)] by (simp add: t Let_def calm_refl)
qed (simp add: calm_refl)

lemma dispatch_calm: "good R s \<Longrightarrow> good R (imperator_dispatch R' inp s) \<and> calm s (imperator_dispatch R' inp s)"
proof -
  assume g: "good R s"
  let ?my = "cpu_llc_id R' ! unat (dsp_raw_cpu inp AND 63)"
  obtain b t where t: "try_llc inp ?my s = (b, t)" by (metis prod.exhaust)
  note e = try_llc_calm [OF t g]
  obtain m c mc where sc: "steal_scan R' ?my t = (m, c, mc)" by (metis prod_cases3)
  obtain b2 t2 where t2: "try_llc inp c t = (b2, t2)" by (metis prod.exhaust)
  note e2 = try_llc_calm [OF t2 e(1)]
  note l = steal_loop_calm [OF e(1), of inp "unat (nr_llcs R')" m]
    steal_loop_calm [OF e2(1), of inp "unat (nr_llcs R')" "m AND NOT (push_bit (unat c) 1)"]
  show ?thesis
    unfolding imperator_dispatch_def Let_def t sc prod.case t2
    using e e2 l calm_trans [OF e(2)] calm_trans [OF e2(2)] by auto
qed

interpretation dispatch_handler: calm_handler R "imperator_dispatch R' inp" for R R' inp
  by unfold_locales (simp_all add: dispatch_calm)

section \<open>Futex probes\<close>

datatype lock_event =
    Fexit_wait s32 | Fexit_wait_requeue_pi s32 | Fexit_lock_pi s32 | Fexit_trylock_pi s32
  | Fexit_wake s32 | Fexit_wake_op s32 | Fexit_unlock_pi s32
  | Tp_enter_futex s32 | Tp_exit_futex "64 word" | Tp_exit_futex_wait "64 word" | Tp_exit_futex_wake "64 word"

fun lock_handler :: "tid option \<Rightarrow> lock_event \<Rightarrow> sched \<Rightarrow> sched" where
  "lock_handler cur (Fexit_wait ret) s = imperator_fexit_futex_wait cur ret s"
| "lock_handler cur (Fexit_wait_requeue_pi ret) s = imperator_fexit_futex_wait_requeue_pi cur ret s"
| "lock_handler cur (Fexit_lock_pi ret) s = imperator_fexit_futex_lock_pi cur ret s"
| "lock_handler cur (Fexit_trylock_pi ret) s = imperator_fexit_futex_trylock_pi cur ret s"
| "lock_handler cur (Fexit_wake ret) s = imperator_fexit_futex_wake cur ret s"
| "lock_handler cur (Fexit_wake_op ret) s = imperator_fexit_futex_wake_op cur ret s"
| "lock_handler cur (Fexit_unlock_pi ret) s = imperator_fexit_futex_unlock_pi cur ret s"
| "lock_handler cur (Tp_enter_futex fop) s = imperator_tp_enter_futex cur fop s"
| "lock_handler cur (Tp_exit_futex ret) s = imperator_tp_exit_futex cur ret s"
| "lock_handler cur (Tp_exit_futex_wait ret) s = imperator_tp_exit_futex_wait cur ret s"
| "lock_handler cur (Tp_exit_futex_wake ret) s = imperator_tp_exit_futex_wake cur ret s"

lemma lock_handler_upd:
  "(lock_handler cur e s = s) \<or> (\<exists>p f. cur = Some p \<and> lock_handler cur e s = upd_ctx p f s
     \<and> f \<in> {hold, release} \<union> range enter_ctx \<union> range exit_ctx)"
  by (cases cur; cases e)
     (auto simp: imperator_fexit_futex_wait_def imperator_fexit_futex_wait_requeue_pi_def
        imperator_fexit_futex_lock_pi_def imperator_fexit_futex_trylock_pi_def imperator_fexit_futex_wake_def
        imperator_fexit_futex_wake_op_def imperator_fexit_futex_unlock_pi_def imperator_tp_exit_futex_wait_def
        imperator_tp_exit_futex_wake_def set_lock_holder_eq clear_lock_holder_eq tp_enter_eq tp_exit_eq)

lemma lock_ctx_sel:
  "ctx_tier (hold c) = ctx_tier c" "ctx_tier (release c) = ctx_tier c" "ctx_tier (enter_ctx fop c) = ctx_tier c"
  "ctx_tier (exit_ctx ret c) = ctx_tier c"
  "last_run_at (hold c) = last_run_at c" "last_run_at (release c) = last_run_at c"
  "last_run_at (enter_ctx fop c) = last_run_at c" "last_run_at (exit_ctx ret c) = last_run_at c"
proof -
  show 1: "ctx_tier (hold c) = ctx_tier c" "ctx_tier (release c) = ctx_tier c" "ctx_tier (enter_ctx fop c) = ctx_tier c"
    "last_run_at (hold c) = last_run_at c" "last_run_at (release c) = last_run_at c"
    "last_run_at (enter_ctx fop c) = last_run_at c"
    by (simp_all add: hold_def release_def enter_ctx_def ctx_tier_def)
  have "ctx_tier (apply_effect e r c\<lparr>pending_futex_op := x\<rparr>) = ctx_tier c
    \<and> last_run_at (apply_effect e r c\<lparr>pending_futex_op := x\<rparr>) = last_run_at c" for e r x
    using 1 by (cases e) (simp_all add: ctx_tier_def)
  then show "ctx_tier (exit_ctx ret c) = ctx_tier c" "last_run_at (exit_ctx ret c) = last_run_at c"
    by (simp_all add: exit_ctx_def)
qed

lemma upd_ctx_calm:
  assumes "good R s" "\<And>c. ctx_inv R c \<Longrightarrow> ctx_inv R (f c)"
    "\<And>c. ctx_tier (f c) = ctx_tier c \<and> last_run_at (f c) = last_run_at c"
  shows "good R (upd_ctx p f s) \<and> calm s (upd_ctx p f s)"
proof
  have "task_ctx (upd_ctx p f s) = (task_ctx s)(p := map_option f (task_ctx s p))" by (simp add: upd_ctx_def)
  with assms(1,2) show "good R (upd_ctx p f s)"
    by (auto simp: good_def wf_intros frame_simps ctxs_ok_def intro: mboxes_cong split: if_splits)
  show "calm s (upd_ctx p f s)"
    by (rule calm_upd [where p = p and x = "map_option f (task_ctx s p)"])
       (simp_all add: upd_ctx_def assms(3) option.rel_map option.rel_refl)
qed

lemma lock_calm: "good R s \<Longrightarrow> good R (lock_handler cur e s) \<and> calm s (lock_handler cur e s)"
proof -
  assume g: "good R s"
  from lock_handler_upd [of cur e s] show ?thesis
  proof
    assume "lock_handler cur e s = s"
    then show ?thesis using g calm_refl by simp
  next
    assume "\<exists>p f. cur = Some p \<and> lock_handler cur e s = upd_ctx p f s
     \<and> f \<in> {hold, release} \<union> range enter_ctx \<union> range exit_ctx"
    then show ?thesis using upd_ctx_calm [OF g] by (auto simp: lock_ctx_sel wf_intros)
  qed
qed

interpretation lock_events: calm_handler R "lock_handler cur e" for R cur e
  by unfold_locales (simp_all add: lock_calm)

section \<open>Writes from user space\<close>

text \<open>
  The loader maps \<open>.bss\<close> and writes it while the scheduler runs: one byte of the cost table at a
  time (\<open>try_write_etd_costs\<close> of \<open>src/src/main.rs\<close>), and one statistics block at a time when the user resets
  the counters (\<open>run_tui\<close> of \<open>src/src/tui.rs\<close>).
\<close>

definition store_etd_cost :: "nat \<Rightarrow> nat \<Rightarrow> u8 \<Rightarrow> sched \<Rightarrow> sched" where
  "store_etd_cost llc_a llc_b cost s =
     s\<lparr>llc_etd_cost := (llc_etd_cost s)[llc_a := (llc_etd_cost s ! llc_a)[llc_b := cost]]\<rparr>"

definition reset_stats_block :: "nat \<Rightarrow> sched \<Rightarrow> sched" where
  "reset_stats_block cpu s = s\<lparr>global_stats := (global_stats s)[cpu := stats_zero]\<rparr>"

lemma user_write_frame [frame_simps]:
  "task_ctx (store_etd_cost a b v s) = task_ctx s" "llc_cpu_mask (store_etd_cost a b v s) = llc_cpu_mask s"
  "mega_mailbox (store_etd_cost a b v s) = mega_mailbox s" "llc_nonempty (store_etd_cost a b v s) = llc_nonempty s"
  "tier_cpu_mask (store_etd_cost a b v s) = tier_cpu_mask s" "dummy_idle (store_etd_cost a b v s) = dummy_idle s"
  "global_stats (store_etd_cost a b v s) = global_stats s" "kcalls (store_etd_cost a b v s) = kcalls s"
  "task_ctx (reset_stats_block i s) = task_ctx s" "llc_cpu_mask (reset_stats_block i s) = llc_cpu_mask s"
  "mega_mailbox (reset_stats_block i s) = mega_mailbox s" "llc_nonempty (reset_stats_block i s) = llc_nonempty s"
  "tier_cpu_mask (reset_stats_block i s) = tier_cpu_mask s" "dummy_idle (reset_stats_block i s) = dummy_idle s"
  "llc_etd_cost (reset_stats_block i s) = llc_etd_cost s" "kcalls (reset_stats_block i s) = kcalls s"
  by (simp_all add: store_etd_cost_def reset_stats_block_def)

lemma in_set_update: "x \<in> set (xs[i := y]) \<Longrightarrow> x \<in> set xs \<or> x = y"
  using set_update_subset_insert [of xs i y] by auto

lemma sched_wf_store_cost [wf_intros]:
  assumes "sched_wf s"
  shows "sched_wf (store_etd_cost a b v s)"
proof (cases "a < length (llc_etd_cost s)")
  case True
  then have "length (llc_etd_cost s ! a) = 8" using assms by (simp add: sched_wf_def)
  then show ?thesis
    using assms by (auto simp: sched_wf_def store_etd_cost_def dest!: in_set_update)
next
  case False
  then show ?thesis using assms by (simp add: sched_wf_def store_etd_cost_def list_update_beyond)
qed

lemma sched_wf_reset [wf_intros]: "sched_wf s \<Longrightarrow> sched_wf (reset_stats_block i s)"
  by (auto simp: sched_wf_def reset_stats_block_def stats_zero_def dest!: in_set_update)

lemma good_user_write: "good R s \<Longrightarrow> good R (store_etd_cost a b v s)" "good R s \<Longrightarrow> good R (reset_stats_block i s)"
  by (auto simp: good_def wf_intros frame_simps intro: mboxes_cong ctxs_cong)

interpretation cost_store: calm_handler R "store_etd_cost a b v" for R a b v
  by unfold_locales (auto intro: good_user_write calm_same simp: frame_simps)

interpretation stats_reset: calm_handler R "reset_stats_block i" for R i
  by unfold_locales (auto intro: good_user_write calm_same simp: frame_simps)

end
