(* ===== verification/System.thy ===== *)
theory System
  imports Invariant
begin

text \<open>
  The scheduler as a state machine: the callbacks of \<open>imperator_ops\<close>, the futex probes, the end of a
  task (the kernel frees its storage) and the loader's writes as the steps of one relation, with what the kernel knows (which task runs where, how many tasks wait in
  each LLC's queue) as ghost components. Invariants are proved by rule induction over the
  reachable states and give the properties that span components.
\<close>

section \<open>Steps\<close>

record machine =
  kern :: sched
  on_run :: "nat \<rightharpoonup> tid"  \<comment> \<open>the task running on each CPU\<close>
  waiting :: "nat \<Rightarrow> nat"  \<comment> \<open>the number of tasks in each LLC's queue\<close>

definition smp_cpu :: "u32 \<Rightarrow> nat" where
  "smp_cpu smp = unat (smp AND 63)"

inductive sched_step :: "rodata \<Rightarrow> kabi \<Rightarrow> machine \<Rightarrow> machine \<Rightarrow> bool" for R K where
  select_cpu: "sched_step R K m (m\<lparr>kern := snd (imperator_select_cpu R K inp p prev_cpu (kern m))\<rparr>)"
| enqueue: "l = unat (home_llc R inp) \<Longrightarrow>
    sched_step R K m (m\<lparr>kern := imperator_enqueue R K inp p (kern m), waiting := (waiting m)(l := Suc (waiting m l))\<rparr>)"
| dispatch: "(\<forall>l < 8. dsp_nr_queued inp (llc_dsq (word_of_nat l)) = 0 \<longrightarrow> waiting m l = 0) \<Longrightarrow>
    (\<forall>l. w l \<le> waiting m l) \<Longrightarrow>
    sched_step R K m (m\<lparr>kern := imperator_dispatch R inp (kern m), waiting := w\<rparr>)"
| dequeued: "(\<forall>l. w l \<le> waiting m l) \<Longrightarrow> sched_step R K m (m\<lparr>waiting := w\<rparr>)"
| running: "on_run m (smp_cpu smp) = None \<Longrightarrow> p \<notin> ran (on_run m) \<Longrightarrow> (ucast now :: u32) \<noteq> 0 \<Longrightarrow>
    sched_step R K m (m\<lparr>kern := imperator_running R smp now p (kern m), on_run := (on_run m)(smp_cpu smp \<mapsto> p)\<rparr>)"
| tick: "sched_step R K m (m\<lparr>kern := imperator_tick R K tinp p (kern m)\<rparr>)"
| stopping: "on_run m (smp_cpu smp) = Some p \<Longrightarrow>
    sched_step R K m (m\<lparr>kern := imperator_stopping R smp now now2 p runnable (kern m),
                        on_run := (on_run m)(smp_cpu smp := None)\<rparr>)"
| enable: "ts_id t \<notin> ran (on_run m) \<Longrightarrow>
    sched_step R K m (m\<lparr>kern := snd (imperator_enable R alloc_ok t (kern m))\<rparr>)"
| init_task: "ts_id t \<notin> ran (on_run m) \<Longrightarrow>
    sched_step R K m (m\<lparr>kern := snd (imperator_init_task R t fork (kern m))\<rparr>)"
| futex: "sched_step R K m (m\<lparr>kern := lock_handler cur e (kern m)\<rparr>)"
| task_freed: "p \<notin> ran (on_run m) \<Longrightarrow>
    sched_step R K m (m\<lparr>kern := (kern m)\<lparr>task_ctx := (task_ctx (kern m))(p := None)\<rparr>\<rparr>)"
| cost_written: "sched_step R K m (m\<lparr>kern := store_etd_cost a b v (kern m)\<rparr>)"
| stats_reset: "sched_step R K m (m\<lparr>kern := reset_stats_block i (kern m)\<rparr>)"

inductive reachable :: "rodata \<Rightarrow> kabi \<Rightarrow> machine \<Rightarrow> bool" for R K where
  loaded: "imperator_init R create bss_zero = (0, s) \<Longrightarrow>
    reachable R K \<lparr>kern = s, on_run = Map.empty, waiting = (\<lambda>_. 0)\<rparr>"
| step: "reachable R K m \<Longrightarrow> sched_step R K m m' \<Longrightarrow> reachable R K m'"

definition config_ok :: "rodata \<Rightarrow> bool" where
  \<comment> \<open>what the loader writes: at most eight LLCs, and every CPU belongs to one of them\<close>
  "config_ok R \<longleftrightarrow> unat (nr_llcs R) \<le> 8 \<and> (\<forall>cpu < 64. cpu_llc_id R ! cpu < nr_llcs R)"

section \<open>Context switches and task creation\<close>

lemma smp_cpu_less [simp]: "smp_cpu smp < 64"
  by (simp add: smp_cpu_def unat_and_63)

lemma good_running: "good R s \<Longrightarrow> good R (imperator_running R' smp now p s)"
proof -
  assume g: "good R s"
  show ?thesis
  proof (cases "task_ctx s p")
    case None
    then show ?thesis using g by (simp add: imperator_running_def)
  next
    case (Some c)
    note st = running_state [OF Some, of R' smp now]
    have "sched_wf (imperator_running R' smp now p s)"
      using g Some
      by (auto simp: imperator_running_def Let_def publish_running_tier_def good_def keeps_stat_shape_def intro!: wf_intros)
    moreover have "mboxes_ok (imperator_running R' smp now p s)"
    proof -
      have len: "unat (smp AND 63) < length (mega_mailbox s)"
        using g unat_and_63 by (simp add: good_def sched_wf_def)
      then have "publish_running_tier (smp AND 63) (ctx_tier c) s
          = upd_mbox (smp AND 63) (\<lambda>m. m\<lparr>mbox_flags := mbox_encode (ctx_tier c)\<rparr>) s"
        using g by (intro publish_eq mbox_at unat_ctx_tier) (simp_all add: good_def)
      moreover have "mboxes_ok (upd_mbox (smp AND 63) (\<lambda>m. m\<lparr>mbox_flags := mbox_encode (ctx_tier c)\<rparr>) s)"
        using g by (intro mboxes_upd) (simp_all add: good_def mbox_encode_ok)
      ultimately show ?thesis using mboxes_cong [OF st(4)] by simp
    qed
    moreover have "ctxs_ok R (imperator_running R' smp now p s)"
      using g Some by (intro ctxs_upd [OF _ st(1)]) (auto simp: good_def ctxs_ok_def wf_intros)
    ultimately show ?thesis by (simp add: good_def)
  qed
qed

lemma good_stopping: "good R s \<Longrightarrow> good R (imperator_stopping R smp now now2 p runnable s)"
proof -
  assume g: "good R s"
  consider "task_ctx s p = None" | c where "task_ctx s p = Some c" "last_run_at c = 0"
    | c where "task_ctx s p = Some c" "last_run_at c \<noteq> 0" by (cases "task_ctx s p") auto
  then show ?thesis
  proof cases
    case (3 c)
    have "good R (clear_tier_cpu (ctx_tier c) (smp AND 63) s)"
      using g by (auto simp: good_def wf_intros frame_simps intro: mboxes_cong ctxs_cong)
    moreover have "ctx_inv R (stop_ctx R now now2 runnable c)"
      using g 3 by (auto simp: good_def ctxs_ok_def wf_intros)
    ultimately show ?thesis unfolding stopping_state [OF 3] by (rule good_put)
  qed (use g in \<open>simp_all add: stopping_unstamped\<close>)
qed

text \<open>Creation, exec and fork rewrite at most the context of a task that is not running.\<close>

lemma enable_upd:
  "\<exists>x. snd (imperator_enable R ok t s) = s\<lparr>task_ctx := (task_ctx s)(ts_id t := x)\<rparr> \<and> (\<forall>c. x = Some c \<longrightarrow> task_ctx s (ts_id t) = Some c \<or> ctx_inv R c)"
proof (cases "task_ctx s (ts_id t) = None \<and> ok")
  case True
  obtain r s' where a: "alloc_task_ctx_cold R True t s = (r, s')" by (metis prod.exhaust)
  from alloc_seeded [OF this] True a show ?thesis
    by (auto simp: imperator_enable_def get_task_ctx_def seeded_def)
next
  case False
  then have "snd (imperator_enable R ok t s) = s"
    by (auto simp: imperator_enable_def get_task_ctx_def alloc_task_ctx_cold_def split: option.split)
  then show ?thesis by (intro exI [of _ "task_ctx s (ts_id t)"]) simp
qed

lemma init_task_upd:
  "\<exists>f. snd (imperator_init_task R t fork s) = s\<lparr>task_ctx := (task_ctx s)(ts_id t := map_option f (task_ctx s (ts_id t)))\<rparr>
    \<and> (\<forall>c. ctx_inv R c \<longrightarrow> ctx_inv R (f c))"
proof -
  have id: "s = s\<lparr>task_ctx := (task_ctx s)(ts_id t := map_option (\<lambda>c. c) (task_ctx s (ts_id t)))\<rparr>"
    by (simp add: option.map_ident)
  show ?thesis
  proof (cases "fork")
    case False
    then show ?thesis
      by (intro exI [of _ "exec_reset R (ts_static_prio t)"])
         (auto simp: imperator_init_task_def upd_ctx_def wf_intros fun_upd_idem split: option.split)
  next
    case True
    show ?thesis
    proof (cases "Option.bind (ts_real_parent t) (task_ctx s)")
      case None
      then have "snd (imperator_init_task R t fork s) = s" using True by (simp add: imperator_init_task_def)
      then show ?thesis using id by (intro exI [of _ "\<lambda>c. c"]) simp
    next
      case (Some pc)
      then show ?thesis using True
        by (intro exI [of _ "fork_inherit R pc"])
           (auto simp: imperator_init_task_def upd_ctx_def wf_intros fun_upd_idem split: option.split)
    qed
  qed
qed

section \<open>The masks follow the running tasks\<close>

lemma agrees_cong:
  "tier_cpu_mask s' = tier_cpu_mask s \<Longrightarrow> cpu_marks.agrees s' r = cpu_marks.agrees s r"
  by (simp add: cpu_marks.agrees_def on_cpu_def)

lemma tiers_on_upd:
  assumes "task_ctx s' = (task_ctx s)(p := x)" "p \<notin> ran run"
  shows "tiers_on s' run = tiers_on s run"
proof (rule ext)
  fix cpu
  show "tiers_on s' run cpu = tiers_on s run cpu"
  proof (cases "run cpu")
    case (Some q)
    then have "q \<noteq> p" using assms(2) by (auto simp: ran_def)
    then show ?thesis by (simp add: tiers_on_def Some task_tier_def assms(1))
  qed (simp add: tiers_on_def)
qed

lemma marks_idle_upd:
  assumes "marks_ok s run" "task_ctx s' = (task_ctx s)(p := x)" "tier_cpu_mask s' = tier_cpu_mask s" "p \<notin> ran run"
  shows "marks_ok s' run"
proof -
  have "last_run_at c \<noteq> 0" if "run cpu = Some q" "task_ctx s' q = Some c" for cpu q c
  proof -
    have "q \<noteq> p" using that(1) assms(4) by (auto simp: ran_def)
    then show ?thesis using that assms(1,2) by (simp add: marks_ok_def)
  qed
  then show ?thesis
    using assms(1) by (simp add: marks_ok_def tiers_on_upd [OF assms(2,4)] agrees_cong [OF assms(3)])
qed

lemma marks_running:
  assumes g: "good R s" and m: "marks_ok s run" and idle: "run (smp_cpu smp) = None" "p \<notin> ran run"
    and now: "(ucast now :: u32) \<noteq> 0"
  shows "marks_ok (imperator_running R' smp now p s) (run(smp_cpu smp \<mapsto> p))"
proof (cases "task_ctx s p")
  case None
  then have s': "imperator_running R' smp now p s = s" by (simp add: imperator_running_def)
  have "tiers_on s (run(smp_cpu smp \<mapsto> p)) = tiers_on s run"
    using idle(1) None by (auto simp: tiers_on_def task_tier_def fun_eq_iff)
  then show ?thesis using m None by (auto simp: s' marks_ok_def split: if_splits)
next
  case (Some c)
  let ?s' = "imperator_running R' smp now p s" and ?cpu = "smp_cpu smp"
  note st = running_state [OF Some, of R' smp now]
  have sel: "ctx_tier (run_ctx now c) = ctx_tier c" "last_run_at (run_ctx now c) = ucast now"
    by (simp_all add: run_ctx_def ctx_tier_def)
  have len: "length (tier_cpu_mask s) = 4" using g by (simp add: good_def sched_wf_def)
  have "tiers_on s run ?cpu = None" by (simp add: tiers_on_def idle)
  then have "cpu_marks.agrees (set_tier_cpu (ctx_tier c) (smp AND 63) s) ((tiers_on s run)(?cpu \<mapsto> unat (ctx_tier c)))"
    using m cpu_marks.agrees_start [OF len unat_ctx_tier unat_and_63, of "tiers_on s run" smp c]
    by (simp add: marks_ok_def smp_cpu_def)
  moreover have "tiers_on ?s' (run(?cpu \<mapsto> p)) = (tiers_on s run)(?cpu \<mapsto> unat (ctx_tier c))"
  proof
    fix d
    show "tiers_on ?s' (run(?cpu \<mapsto> p)) d = ((tiers_on s run)(?cpu \<mapsto> unat (ctx_tier c))) d"
      using fun_cong [OF tiers_on_upd [OF st(1) idle(2)], of d]
      by (simp add: tiers_on_def task_tier_def st(1) sel)
  qed
  moreover have "last_run_at c' \<noteq> 0" if "(run(?cpu \<mapsto> p)) d = Some q" "task_ctx ?s' q = Some c'" for d q c'
  proof (cases "q = p")
    case True
    then have "c' = run_ctx now c" using that(2) by (simp add: st(1))
    then show ?thesis using now by (simp add: sel)
  next
    case False
    then show ?thesis using that m by (auto simp: st(1) marks_ok_def split: if_splits)
  qed
  ultimately show ?thesis by (simp add: marks_ok_def agrees_cong [OF st(2)])
qed

lemma marks_stopping:
  assumes g: "good R s" and m: "marks_ok s run" and p: "run (smp_cpu smp) = Some p"
    and inj: "\<And>d. run d = Some p \<Longrightarrow> d = smp_cpu smp"
  shows "marks_ok (imperator_stopping R' smp now now2 p runnable s) (run(smp_cpu smp := None))"
proof (cases "task_ctx s p")
  case None
  then have s': "imperator_stopping R' smp now now2 p runnable s = s" by (simp add: stopping_unstamped)
  have "tiers_on s (run(smp_cpu smp := None)) = tiers_on s run"
    using p None by (auto simp: tiers_on_def task_tier_def fun_eq_iff)
  then show ?thesis using m by (auto simp: s' marks_ok_def split: if_splits)
next
  case (Some c)
  let ?cpu = "smp_cpu smp"
  have nz: "last_run_at c \<noteq> 0" using m p Some by (auto simp: marks_ok_def)
  define s' where "s' = imperator_stopping R' smp now now2 p runnable s"
  have s': "s' = put_ctx p (stop_ctx R' now now2 runnable c) (clear_tier_cpu (ctx_tier c) (smp AND 63) s)"
    unfolding s'_def by (rule stopping_state [OF Some nz])
  have len: "length (tier_cpu_mask s) = 4" using g by (simp add: good_def sched_wf_def)
  have "tiers_on s run ?cpu = Some (unat (ctx_tier c))" by (simp add: tiers_on_def p task_tier_def Some)
  then have a: "cpu_marks.agrees (clear_tier_cpu (ctx_tier c) (smp AND 63) s) ((tiers_on s run)(?cpu := None))"
    using m cpu_marks.agrees_stop [OF len unat_ctx_tier unat_and_63, of "tiers_on s run" smp c]
    by (simp add: marks_ok_def smp_cpu_def)
  have ctx: "task_ctx s' = (task_ctx s)(p \<mapsto> stop_ctx R' now now2 runnable c)"
    and mask: "tier_cpu_mask s' = tier_cpu_mask (clear_tier_cpu (ctx_tier c) (smp AND 63) s)"
    by (simp_all add: s' frame_simps)
  have notin: "p \<notin> ran (run(?cpu := None))"
    using inj by (auto simp: ran_def split: if_splits)
  have "tiers_on s' (run(?cpu := None)) = tiers_on s (run(?cpu := None))"
    by (rule tiers_on_upd [OF ctx notin])
  also have "\<dots> = (tiers_on s run)(?cpu := None)" by (auto simp: tiers_on_def fun_eq_iff)
  finally have "cpu_marks.agrees s' (tiers_on s' (run(?cpu := None)))"
    using a by (simp add: agrees_cong [OF mask])
  moreover have "last_run_at c' \<noteq> 0" if "(run(?cpu := None)) d = Some q" "task_ctx s' q = Some c'" for d q c'
  proof -
    have "q \<noteq> p" using that(1) notin by (auto simp: ran_def)
    then show ?thesis using that m by (auto simp: ctx marks_ok_def split: if_splits)
  qed
  ultimately show ?thesis unfolding s'_def [symmetric] by (simp add: marks_ok_def)
qed

section \<open>Flags and masks under every handler\<close>

lemma select_flags: "llc_nonempty (snd (imperator_select_cpu R K inp p prev s)) = llc_nonempty s"
proof -
  obtain cpu0 idle where d: "sel_dfl inp prev = (cpu0, idle)" by (metis prod.exhaust)
  let ?s1 = "if irq_context K inp then mark_irq_wake (ts_id p) s else s"
  let ?s2 = "?s1\<lparr>dummy_idle := (dummy_idle ?s1)[unat (sel_smp_id inp AND 63) := idle]\<rparr>"
  obtain tier slc s3 where c: "consume_irq_wake_get_tier_slice R (sel_smp_id inp) (ts_id p) ?s2 = (tier, slc, s3)"
    by (metis prod_cases3)
  have "llc_nonempty ?s2 = llc_nonempty s" by (simp add: frame_simps)
  with consume_effect(7) [OF c] show ?thesis
    unfolding imperator_select_cpu_def Let_def d prod.case c by (simp add: frame_simps)
qed

lemma tick_flags: "good R' s \<Longrightarrow> llc_nonempty (imperator_tick R K inp p s) = llc_nonempty s"
proof -
  assume g: "good R' s"
  then have len: "unat (in_smp_id inp AND 63) < length (mega_mailbox s)"
    using unat_and_63 by (simp add: good_def sched_wf_def)
  show ?thesis
  proof (cases "task_ctx s p")
    case (Some c)
    then show ?thesis
      using tick_effect(6) [OF len Some _ refl refl refl, of R K]
      by (cases "last_run_at c = 0") (simp_all add: tick_unstamped frame_simps)
  qed (simp add: tick_unstamped)
qed

lemma lock_flags: "llc_nonempty (lock_handler cur e s) = llc_nonempty s"
  using lock_handler_upd [of cur e s] by (auto simp: frame_simps)

lemma switch_frame:
  "llc_nonempty (imperator_running R smp now p s) = llc_nonempty s"
  "llc_cpu_mask (imperator_running R smp now p s) = llc_cpu_mask s"
  "llc_nonempty (imperator_stopping R smp now now2 p runnable s) = llc_nonempty s"
  "llc_cpu_mask (imperator_stopping R smp now now2 p runnable s) = llc_cpu_mask s"
  by (auto simp: imperator_running_def imperator_stopping_def Let_def frame_simps split: option.split)

lemma insert_flags:
  assumes "length (llc_nonempty s) = 8"
  shows "llc_nonempty (insert_llc p l sl v f s) ! i =
    (if i = unat (l AND 7) \<and> llc_nonempty s ! i = 0 then 1 else llc_nonempty s ! i)"
  using assms by (auto simp: insert_llc_def llc_mark_nonempty_def Let_def emit_def nth_list_update unat_and_low)

lemma enqueue_flags:
  assumes "good R' s"
  shows "llc_nonempty (imperator_enqueue R K inp p s) ! i =
    (if i = unat (home_llc R inp) \<and> llc_nonempty s ! i = 0 then 1 else llc_nonempty s ! i)"
proof -
  have len: "length (llc_nonempty s) = 8" using assms by (simp add: good_def sched_wf_def)
  note ins = insert_flags [OF len, of _ "home_llc R inp", unfolded home_llc_idx]
  have "llc_nonempty (enqueue_full R K inp p c (home_llc R inp) s) ! i =
    (if i = unat (home_llc R inp) \<and> llc_nonempty s ! i = 0 then 1 else llc_nonempty s ! i)" for c
  proof -
    obtain u v where u: "enqueue_full R K inp p c (home_llc R inp) s = preemption_kick K
        (enq_tier K (enq_flags inp) (mbox_flags (get_mbox (enq_smp_id inp AND 63) s)) c) (home_llc R inp)
        (insert_llc (ts_id p) (home_llc R inp) (enq_slice R K inp c) v (enq_flags inp) u)"
      "llc_nonempty u = llc_nonempty s"
      using enqueue_full_decomp [OF refl, of R K inp p c "home_llc R inp" s] by blast
    show ?thesis
      using insert_flags [of u _ "home_llc R inp", unfolded home_llc_idx] len
      by (auto simp: u frame_simps)
  qed
  then show ?thesis
    using ins unfolding imperator_enqueue_eq by (auto split: option.split)
qed

lemma dispatch_flags:
  assumes "good R' s" "config_ok R" "i < 8" "llc_nonempty (imperator_dispatch R inp s) ! i = 0"
  shows "llc_nonempty s ! i = 0 \<or> dsp_nr_queued inp (llc_dsq (word_of_nat i)) = 0"
proof -
  let ?my = "cpu_llc_id R ! unat (dsp_raw_cpu inp AND 63)"
  have nr: "unat (nr_llcs R) \<le> 8" and my: "?my < nr_llcs R"
    using assms(2) unat_and_63 by (auto simp: config_ok_def)
  then have my8: "unat ?my < 8" by (simp add: word_less_nat_alt)
  have len: "length (llc_nonempty s) = 8" using assms(1) by (simp add: good_def sched_wf_def)
  have all8: "\<forall>l \<in> set (dispatch_plan R ?my s). unat l < 8"
    unfolding set_plan [OF nr] using my8 nr by (auto simp: flagged_others_def word_less_nat_alt split: if_splits)
  show ?thesis
    using try_all_flags [OF len all8 assms(3), of inp] assms(4)
    unfolding dispatch_try_all [OF refl my8 nr] by (auto split: if_splits)
qed

section \<open>The invariant of the machine\<close>

definition masks_ok :: "rodata \<Rightarrow> sched \<Rightarrow> bool" where
  "masks_ok R s \<longleftrightarrow> (\<forall>l < 8. \<forall>cpu. bit (llc_cpu_mask s ! l) cpu \<longleftrightarrow>
     cpu < unat (nr_cpus R) \<and> cpu < 64 \<and> llc_of R cpu = l)"

definition visible :: "machine \<Rightarrow> bool" where
  "visible m \<longleftrightarrow> (\<forall>l < 8. 0 < waiting m l \<longrightarrow> llc_nonempty (kern m) ! l \<noteq> 0)"

definition run_ok :: "machine \<Rightarrow> bool" where
  "run_ok m \<longleftrightarrow> (\<forall>c d p. on_run m c = Some p \<longrightarrow> on_run m d = Some p \<longrightarrow> c = d)"

definition machine_inv :: "rodata \<Rightarrow> machine \<Rightarrow> bool" where
  "machine_inv R m \<longleftrightarrow> good R (kern m) \<and> masks_ok R (kern m) \<and> marks_ok (kern m) (on_run m)
     \<and> visible m \<and> run_ok m"

lemma machine_invD:
  assumes "machine_inv R m"
  shows "good R (kern m)" "masks_ok R (kern m)" "marks_ok (kern m) (on_run m)" "visible m" "run_ok m"
  using assms by (simp_all only: machine_inv_def)

lemma run_ok_frame [simp]: "run_ok (m\<lparr>kern := s\<rparr>) = run_ok m" "run_ok (m\<lparr>waiting := w\<rparr>) = run_ok m"
  unfolding run_ok_def by simp_all

lemma visible_frame [simp]: "visible (m\<lparr>on_run := r\<rparr>) = visible m"
  by (simp add: visible_def)

lemma visible_kern: "llc_nonempty s = llc_nonempty (kern m) \<Longrightarrow> visible (m\<lparr>kern := s\<rparr>) = visible m"
  by (simp add: visible_def)

lemma visible_same:
  "visible m \<Longrightarrow> llc_nonempty (kern m') = llc_nonempty (kern m) \<Longrightarrow> (\<And>l. waiting m' l \<le> waiting m l) \<Longrightarrow> visible m'"
  unfolding visible_def by (metis bot_nat_0.not_eq_extremum le_zero_eq)

lemma masks_same: "masks_ok R s \<Longrightarrow> llc_cpu_mask s' = llc_cpu_mask s \<Longrightarrow> masks_ok R s'"
  by (simp add: masks_ok_def)

context calm_handler
begin

lemma inv_kept_visible:
  assumes inv: "machine_inv R m" and v: "visible (m\<lparr>kern := h (kern m), waiting := w\<rparr>)"
  shows "machine_inv R (m\<lparr>kern := h (kern m), waiting := w\<rparr>)"
  unfolding machine_inv_def using machine_invD [OF inv] v
  by (simp add: keeps_good marks_kept masks_same [OF _ masks_kept])

lemma inv_kept:
  assumes "machine_inv R m" "llc_nonempty (h (kern m)) = llc_nonempty (kern m)"
  shows "machine_inv R (m\<lparr>kern := h (kern m)\<rparr>)"
  using inv_kept_visible [OF assms(1), of "waiting m"] visible_kern [OF assms(2)] machine_invD(4) [OF assms(1)]
  by simp

end

lemma idle_task_inv:
  assumes inv: "machine_inv R m" and p: "p \<notin> ran (on_run m)"
    and s: "s = (kern m)\<lparr>task_ctx := (task_ctx (kern m))(p := x)\<rparr>" and x: "\<And>c. x = Some c \<Longrightarrow> ctx_inv R c"
  shows "machine_inv R (m\<lparr>kern := s\<rparr>)"
proof -
  note i = machine_invD [OF inv]
  have ctx: "task_ctx s = (task_ctx (kern m))(p := x)" "tier_cpu_mask s = tier_cpu_mask (kern m)"
    "llc_cpu_mask s = llc_cpu_mask (kern m)" "llc_nonempty s = llc_nonempty (kern m)"
    "mega_mailbox s = mega_mailbox (kern m)"
    by (simp_all add: s)
  have "sched_wf s" using i(1) by (simp add: s good_def sched_wf_def)
  moreover have "mboxes_ok s" "ctxs_ok R s"
    using i(1) x mboxes_cong [OF ctx(5)] ctxs_upd [OF _ ctx(1)] by (simp_all add: good_def)
  ultimately have "good R s" by (simp add: good_def)
  moreover have "marks_ok s (on_run m)" by (rule marks_idle_upd [OF i(3) ctx(1,2) p])
  ultimately show ?thesis
    unfolding machine_inv_def using i(2,4,5) by (simp add: masks_same [OF _ ctx(3)] visible_kern [OF ctx(4)])
qed

lemma running_inv:
  assumes inv: "machine_inv R m" and idle: "on_run m (smp_cpu smp) = None" "p \<notin> ran (on_run m)"
    and now: "(ucast now :: u32) \<noteq> 0"
  shows "machine_inv R (m\<lparr>kern := imperator_running R smp now p (kern m), on_run := (on_run m)(smp_cpu smp \<mapsto> p)\<rparr>)"
proof -
  note i = machine_invD [OF inv]
  have "run_ok (m\<lparr>kern := s, on_run := (on_run m)(smp_cpu smp \<mapsto> p)\<rparr>)" for s
    using i(5) idle by (auto simp: run_ok_def ran_def)
  then show ?thesis
    unfolding machine_inv_def using i marks_running [OF i(1,3) idle now] good_running [OF i(1)]
    by (simp add: masks_same [OF _ switch_frame(2)] visible_kern [OF switch_frame(1)])
qed

lemma stopping_inv:
  assumes inv: "machine_inv R m" and p: "on_run m (smp_cpu smp) = Some p"
  shows "machine_inv R (m\<lparr>kern := imperator_stopping R smp now now2 p runnable (kern m),
    on_run := (on_run m)(smp_cpu smp := None)\<rparr>)"
proof -
  note i = machine_invD [OF inv]
  have inj: "on_run m d = Some p \<Longrightarrow> d = smp_cpu smp" for d
    using i(5) p unfolding run_ok_def by blast
  have "run_ok (m\<lparr>kern := s, on_run := (on_run m)(smp_cpu smp := None)\<rparr>)" for s
    using i(5) by (auto simp: run_ok_def split: if_splits)
  moreover have "marks_ok (imperator_stopping R smp now now2 p runnable (kern m)) ((on_run m)(smp_cpu smp := None))"
    by (rule marks_stopping [OF i(1,3) p]) (rule inj)
  ultimately show ?thesis
    unfolding machine_inv_def using i good_stopping [OF i(1)]
    by (simp add: masks_same [OF _ switch_frame(4)] visible_kern [OF switch_frame(3)])
qed

lemma enqueue_visible:
  assumes "machine_inv R m" "l = unat (home_llc R inp)"
  shows "visible (m\<lparr>kern := imperator_enqueue R K inp p (kern m), waiting := (waiting m)(l := Suc (waiting m l))\<rparr>)"
  using machine_invD(4) [OF assms(1)] enqueue_flags [OF machine_invD(1) [OF assms(1)], of R K inp p] assms(2)
  unfolding visible_def by (auto split: if_splits)

lemma dispatch_visible:
  assumes "machine_inv R m" "config_ok R"
    and "\<forall>l < 8. dsp_nr_queued inp (llc_dsq (word_of_nat l)) = 0 \<longrightarrow> waiting m l = 0" "\<forall>l. w l \<le> waiting m l"
  shows "visible (m\<lparr>kern := imperator_dispatch R inp (kern m), waiting := w\<rparr>)"
  unfolding visible_def
proof (intro allI impI)
  fix l assume l: "l < (8 :: nat)" "0 < waiting (m\<lparr>kern := imperator_dispatch R inp (kern m), waiting := w\<rparr>) l"
  then have "0 < w l" by simp
  also have "w l \<le> waiting m l" using assms(4) by (rule spec)
  finally have w: "0 < waiting m l" .
  then have "dsp_nr_queued inp (llc_dsq (word_of_nat l)) \<noteq> 0" using assms(3) l(1) by auto
  moreover have "llc_nonempty (kern m) ! l \<noteq> 0"
    using machine_invD(4) [OF assms(1)] w l(1) unfolding visible_def by blast
  ultimately have "llc_nonempty (imperator_dispatch R inp (kern m)) ! l \<noteq> 0"
    using dispatch_flags [OF machine_invD(1) [OF assms(1)] assms(2) l(1), of inp] by blast
  then show "llc_nonempty (kern (m\<lparr>kern := imperator_dispatch R inp (kern m), waiting := w\<rparr>)) ! l \<noteq> 0" by simp
qed

lemma step_inv:
  assumes "sched_step R K m m'" "config_ok R" "machine_inv R m"
  shows "machine_inv R m'"
  using assms(1)
proof cases
  case (select_cpu inp p prev_cpu)
  show ?thesis unfolding select_cpu by (rule select_handler.inv_kept [OF assms(3) select_flags])
next
  case (enqueue l inp p)
  show ?thesis
    unfolding enqueue(1) by (rule enqueue_handler.inv_kept_visible [OF assms(3) enqueue_visible [OF assms(3) enqueue(2)]])
next
  case (dispatch inp w)
  show ?thesis
    unfolding dispatch(1)
    by (rule dispatch_handler.inv_kept_visible [OF assms(3) dispatch_visible [OF assms(3,2) dispatch(2,3)]])
next
  case (dequeued w)
  have "visible (m\<lparr>waiting := w\<rparr>)"
    by (rule visible_same [OF machine_invD(4) [OF assms(3)]]) (simp_all add: dequeued(2))
  then show ?thesis unfolding dequeued(1) machine_inv_def using machine_invD [OF assms(3)] by simp
next
  case (running smp p now)
  show ?thesis unfolding running(1) by (rule running_inv [OF assms(3) running(2-4)])
next
  case (tick tinp p)
  from tick_flags [OF machine_invD(1) [OF assms(3)]] show ?thesis unfolding tick by (rule tick_handler.inv_kept [OF assms(3)])
next
  case (stopping smp p now now2 runnable)
  show ?thesis unfolding stopping(1) by (rule stopping_inv [OF assms(3) stopping(2)])
next
  case (enable t alloc_ok)
  obtain x where x: "snd (imperator_enable R alloc_ok t (kern m)) = (kern m)\<lparr>task_ctx := (task_ctx (kern m))(ts_id t := x)\<rparr>"
    "\<forall>c. x = Some c \<longrightarrow> task_ctx (kern m) (ts_id t) = Some c \<or> ctx_inv R c"
    using enable_upd by blast
  have "ctx_inv R c" if "x = Some c" for c
    using x(2) that machine_invD(1) [OF assms(3)] by (auto simp: good_def ctxs_ok_def)
  then show ?thesis unfolding enable(1) by (rule idle_task_inv [OF assms(3) enable(2) x(1)])
next
  case (init_task t fork)
  obtain f where x: "snd (imperator_init_task R t fork (kern m))
      = (kern m)\<lparr>task_ctx := (task_ctx (kern m))(ts_id t := map_option f (task_ctx (kern m) (ts_id t)))\<rparr>"
    "\<forall>c. ctx_inv R c \<longrightarrow> ctx_inv R (f c)"
    using init_task_upd by blast
  have "ctx_inv R c" if "map_option f (task_ctx (kern m) (ts_id t)) = Some c" for c
    using x(2) that machine_invD(1) [OF assms(3)] by (auto simp: good_def ctxs_ok_def)
  then show ?thesis unfolding init_task(1) by (rule idle_task_inv [OF assms(3) init_task(2) x(1)])
next
  case (futex cur e)
  show ?thesis unfolding futex by (rule lock_events.inv_kept [OF assms(3) lock_flags])
next
  case (task_freed p)
  show ?thesis unfolding task_freed(1) by (rule idle_task_inv [OF assms(3) task_freed(2) refl]) simp
next
  case (cost_written a b v)
  show ?thesis unfolding cost_written by (rule cost_store.inv_kept [OF assms(3)]) (simp add: frame_simps)
next
  case (stats_reset i)
  show ?thesis unfolding stats_reset by (rule stats_reset.inv_kept [OF assms(3)]) (simp add: frame_simps)
qed

lemma loaded_inv:
  assumes "imperator_init R create bss_zero = (0, s)"
  shows "machine_inv R \<lparr>kern = s, on_run = Map.empty, waiting = (\<lambda>_. 0)\<rparr>"
proof -
  have len: "length (llc_cpu_mask bss_zero) = 8" by (simp add: bss_zero_def)
  note e = init_effect [OF assms len]
  have s: "s = bss_zero\<lparr>llc_cpu_mask := llc_cpu_mask s, kcalls := kcalls s\<rparr>" using e(3) [of 0] by simp
  have l: "length (llc_cpu_mask s) = 8" using e(2) [of 0] by simp
  have z: "\<not> bit (llc_cpu_mask bss_zero ! l) cpu" if "l < 8" for l cpu
    using that by (simp add: bss_zero_def)
  have "good R s"
    using good_zero [of R] l
    by (subst s) (auto simp: good_def sched_wf_def mboxes_ok_def ctxs_ok_def)
  moreover have "masks_ok R s" using e(1) z by (simp add: masks_ok_def)
  moreover have "tier_cpu_mask s = replicate 4 0" by (subst s) (simp add: bss_zero_def)
  then have "marks_ok s Map.empty"
    by (simp add: marks_ok_def cpu_marks.agrees_def on_cpu_def tiers_on_def)
  ultimately show ?thesis by (simp add: machine_inv_def visible_def run_ok_def)
qed

lemma reachable_inv: "reachable R K m \<Longrightarrow> config_ok R \<Longrightarrow> machine_inv R m"
proof (induction rule: reachable.induct)
  case (loaded create s)
  then show ?case using loaded_inv by blast
next
  case (step m m')
  then show ?case using step_inv by blast
qed

section \<open>An example run\<close>

definition bulk_task :: task_struct where
  \<comment> \<open>a task of nice value 19, seeded at T3\<close>
  "bulk_task = example_task\<lparr>ts_id := 9, ts_static_prio := 139\<rparr>"

lemma enable_new:
  assumes "task_ctx s (ts_id t) = None"
  shows "\<exists>c. snd (imperator_enable R True t s) = s\<lparr>task_ctx := (task_ctx s)(ts_id t \<mapsto> c)\<rparr> \<and> seeded R (ts_static_prio t) c"
proof -
  obtain r s' where a: "alloc_task_ctx_cold R True t s = (r, s')" by (metis prod.exhaust)
  from alloc_seeded [OF this] assms a show ?thesis
    by (auto simp: imperator_enable_def get_task_ctx_def)
qed

text \<open>A T3 task runs on CPU 4, a T1 task is about to be queued, and one task waits in LLC 0.\<close>

lemma example_machine:
  "\<exists>m c b. reachable example_rodata example_kabi m \<and> on_run m 4 = Some 9 \<and> waiting m 0 = 1
     \<and> task_ctx (kern m) 7 = Some c \<and> ctx_tier c = 1 \<and> \<not> has_flag CAKE_FLOW_IRQ_WAKE (packed_info c)
     \<and> task_ctx (kern m) 9 = Some b \<and> ctx_tier b = 3"
proof -
  let ?R = example_rodata and ?K = example_kabi
  let ?init = "imperator_init ?R (\<lambda>_. 0) bss_zero"
  have "fst ?init = 0" by (simp add: imperator_init_def Let_def create_dsqs_eq)
  then obtain s where s: "?init = (0, s)" by (metis prod.collapse)
  define m0 where "m0 = \<lparr>kern = s, on_run = Map.empty, waiting = (\<lambda>_. 0)\<rparr>"
  have r0: "reachable ?R ?K m0" unfolding m0_def by (rule reachable.loaded [OF s])
  have len: "length (llc_cpu_mask bss_zero) = 8" by (simp add: bss_zero_def)
  have "s = bss_zero\<lparr>llc_cpu_mask := llc_cpu_mask s, kcalls := kcalls s\<rparr>"
    using init_effect(3) [OF s len, of 0] by simp
  from arg_cong [OF this, of task_ctx] have "task_ctx s = Map.empty" by (simp add: bss_zero_def)
  then have k0: "task_ctx (kern m0) = Map.empty" by (simp add: m0_def)
  obtain b where b: "snd (imperator_enable ?R True bulk_task (kern m0)) = (kern m0)\<lparr>task_ctx := [9 \<mapsto> b]\<rparr>"
    "seeded ?R 139 b"
    using enable_new [of "kern m0" bulk_task ?R] k0 by (auto simp: bulk_task_def)
  define m1 where "m1 = m0\<lparr>kern := (kern m0)\<lparr>task_ctx := [9 \<mapsto> b]\<rparr>\<rparr>"
  have r1: "reachable ?R ?K m1"
    unfolding m1_def b(1) [symmetric] by (rule reachable.step [OF r0 sched_step.enable]) (simp add: m0_def)
  obtain c where c: "snd (imperator_enable ?R True example_task (kern m1)) = (kern m1)\<lparr>task_ctx := [9 \<mapsto> b, 7 \<mapsto> c]\<rparr>"
    "seeded ?R 120 c"
    using enable_new [of "kern m1" example_task ?R] by (auto simp: m1_def example_task_def)
  define m2 where "m2 = m1\<lparr>kern := (kern m1)\<lparr>task_ctx := [9 \<mapsto> b, 7 \<mapsto> c]\<rparr>\<rparr>"
  have r2: "reachable ?R ?K m2"
    unfolding m2_def c(1) [symmetric] by (rule reachable.step [OF r1 sched_step.enable]) (simp add: m0_def m1_def)
  have b2: "task_ctx (kern m2) 9 = Some b" by (simp add: m2_def)
  define m3 where "m3 = m2\<lparr>kern := imperator_running ?R 4 1024 9 (kern m2), on_run := (on_run m2)(smp_cpu 4 \<mapsto> 9)\<rparr>"
  have r3: "reachable ?R ?K m3"
    unfolding m3_def by (rule reachable.step [OF r2 sched_step.running]) (simp_all add: m0_def m1_def m2_def)
  note run = running_state(1) [OF b2, of ?R 4 1024]
  define m4 where "m4 = m3\<lparr>kern := imperator_enqueue ?R ?K (example_enq\<lparr>enq_flags := 0\<rparr>) (example_task\<lparr>ts_id := 5\<rparr>) (kern m3),
     waiting := (waiting m3)(0 := Suc (waiting m3 0))\<rparr>"
  have r4: "reachable ?R ?K m4"
    unfolding m4_def by (rule reachable.step [OF r3 sched_step.enqueue])
      (simp add: home_llc_def example_enq_def example_rodata_def)
  have k3: "task_ctx (kern m3) = (task_ctx (kern m2))(9 \<mapsto> run_ctx 1024 b)" by (simp add: m3_def run)
  then have "task_ctx (kern m3) 5 = None" by (simp add: m2_def)
  then have "task_ctx (kern m4) = task_ctx (kern m3)"
    by (simp add: m4_def imperator_enqueue_eq frame_simps)
  then have "task_ctx (kern m4) 9 = Some (run_ctx 1024 b)" "task_ctx (kern m4) 7 = Some c"
    by (simp_all add: k3) (simp add: m2_def)
  moreover have "ctx_tier (run_ctx 1024 b) = 3" "ctx_tier c = 1" "\<not> has_flag CAKE_FLOW_IRQ_WAKE (packed_info c)"
    using b(2) c(2) by (simp_all add: seeded_def run_ctx_def ctx_tier_def init_tier_of_prio_def)
  moreover have "on_run m4 4 = Some 9" "waiting m4 0 = 1"
    by (simp_all add: m4_def m3_def smp_cpu_def m2_def m1_def m0_def)
  ultimately show ?thesis using r4 by blast
qed

lemma example_config: "config_ok example_rodata"
  by (simp add: config_ok_def example_rodata_def)

section \<open>Properties\<close>

text \<open>
  C7. Every state the callbacks can reach is well formed: all arrays have their declared lengths (so
  no masked index is out of range), every mailbox is unwritten or holds the valid bit and a tier,
  the mask of each LLC holds exactly the CPUs below \<open>nr_cpus\<close> that the configuration assigns to it, the
  tier masks hold only CPUs that run a task, and every stored context has a slice within the configured slices, no pending burst credit, at
  most four lock skips, fewer than four remembered overruns and zero reserved bits.
\<close>

theorem reachable_states_well_formed:
  assumes "reachable R K m" "config_ok R"
  shows "sched_wf (kern m)
    \<and> (\<forall>mb \<in> set (mega_mailbox (kern m)). mbox_flags mb \<in> {0, 0x80, 0x81, 0x82, 0x83})
    \<and> (\<forall>l < 8. \<forall>cpu. bit (llc_cpu_mask (kern m) ! l) cpu \<longleftrightarrow> cpu < unat (nr_cpus R) \<and> cpu < 64 \<and> llc_of R cpu = l)
    \<and> (\<forall>t < 4. \<forall>cpu. bit (tier_cpu_mask (kern m) ! t) cpu \<longrightarrow> cpu < 64 \<and> on_run m cpu \<noteq> None)
    \<and> (\<forall>p c. task_ctx (kern m) p = Some c \<longrightarrow> next_slice c \<le> slice_bound R \<and> burst_credit c = 0
         \<and> unat (lock_skip_count c) \<le> 4 \<and> popcount (overrun_count c) < 4 \<and> rsvd_zero (packed_info c))"
proof -
  note inv = machine_invD [OF reachable_inv [OF assms]]
  have marks: "cpu < 64 \<and> on_run m cpu \<noteq> None" if "t < 4" "bit (tier_cpu_mask (kern m) ! t) cpu" for t cpu
  proof -
    have "cpu_marks.agrees (kern m) (tiers_on (kern m) (on_run m))" using inv(3) by (simp add: marks_ok_def)
    moreover have "on_cpu (kern m) t cpu" using that by (simp add: on_cpu_def)
    ultimately have "tiers_on (kern m) (on_run m) cpu = Some t" by (simp add: cpu_marks.agrees_def)
    then show ?thesis
      using bit_imp_le_length [OF that(2)] by (auto simp: tiers_on_def bind_eq_Some_conv)
  qed
  have "good R (kern m)" "masks_ok R (kern m)" by (rule inv)+
  then show ?thesis
    using marks unfolding good_def mboxes_ok_def ctxs_ok_def mbox_flags_ok_def masks_ok_def by (auto simp: ctx_inv_def)
qed

theorem reachable_states_well_formed_witness:
  "\<exists>m. reachable example_rodata example_kabi m \<and> on_run m 4 = Some 9 \<and> sched_wf (kern m)"
proof -
  obtain m where "reachable example_rodata example_kabi m" "on_run m 4 = Some 9"
    using example_machine by blast
  with reachable_states_well_formed [OF this(1) example_config] show ?thesis by blast
qed

text \<open>
  C1. The invariant stated at \<open>tier_cpu_mask\<close> holds in every reachable state: bit \<open>cpu\<close> of
  \<open>tier_cpu_mask[t]\<close> is set exactly when that CPU is running a task whose tier is \<open>t\<close>, provided
  the 32-bit clock never reads 0 when a task starts.
\<close>

theorem tier_masks_exact:
  assumes "reachable R K m" "config_ok R"
  shows "(t < 4 \<and> bit (tier_cpu_mask (kern m) ! t) cpu) \<longleftrightarrow>
    (\<exists>p c. on_run m cpu = Some p \<and> task_ctx (kern m) p = Some c \<and> unat (ctx_tier c) = t)"
proof -
  have "cpu_marks.agrees (kern m) (tiers_on (kern m) (on_run m))"
    using machine_invD(3) [OF reachable_inv [OF assms]] by (simp add: marks_ok_def)
  then have "on_cpu (kern m) t cpu \<longleftrightarrow> tiers_on (kern m) (on_run m) cpu = Some t"
    by (simp add: cpu_marks.agrees_def)
  then show ?thesis
    by (auto simp: on_cpu_def tiers_on_def task_tier_def bind_eq_Some_conv)
qed

theorem tier_masks_exact_witness:
  "\<exists>m. reachable example_rodata example_kabi m \<and> bit (tier_cpu_mask (kern m) ! 3) 4"
proof -
  obtain m b where m: "reachable example_rodata example_kabi m" "on_run m 4 = Some 9"
    "task_ctx (kern m) 9 = Some b" "ctx_tier b = 3"
    using example_machine by blast
  with tier_masks_exact [OF m(1) example_config, of 3 4] show ?thesis by auto
qed

lemma kick_target:
  assumes inv: "machine_inv R m"
    and v: "kick_victim (home_llc R inp) (kern m) = Some v"
  shows "\<exists>q c. on_run m (unat v) = Some q \<and> task_ctx (kern m) q = Some c
    \<and> unat v < unat (nr_cpus R) \<and> llc_of R (unat v) = unat (home_llc R inp)
    \<and> (ctx_tier c = 3 \<or> ctx_tier c = 2 \<and> victims (kern m) (home_llc R inp) 3 = {})"
proof -
  let ?l = "home_llc R inp"
  have l8: "unat ?l < 8" by (simp add: home_llc_def unat_and_low)
  obtain t where t: "t = 3 \<or> t = 2 \<and> victims (kern m) ?l 3 = {}" and vt: "unat v \<in> victims (kern m) ?l t"
    using kick_victim_spec(2) [OF home_llc_idx v] by (auto simp: Let_def split: if_splits)
  have on: "on_cpu (kern m) t (unat v)" and mask: "bit (llc_cpu_mask (kern m) ! unat ?l) (unat v)"
    using vt by (simp_all add: victims_def)
  have "tiers_on (kern m) (on_run m) (unat v) = Some t"
    using machine_invD(3) [OF inv] on cpu_marks.agrees_tier by (auto simp: marks_ok_def)
  then obtain q c where q: "on_run m (unat v) = Some q" "task_ctx (kern m) q = Some c" "unat (ctx_tier c) = t"
    by (auto simp: tiers_on_def task_tier_def bind_eq_Some_conv)
  moreover have "unat v < unat (nr_cpus R) \<and> llc_of R (unat v) = unat ?l"
    using machine_invD(2) [OF inv] mask l8 unfolding masks_ok_def by blast
  moreover have "ctx_tier c = 3 \<or> ctx_tier c = 2 \<and> victims (kern m) ?l 3 = {}"
    using t q(3) by (auto simp: word_unat_eq_iff)
  ultimately show ?thesis by blast
qed

lemma enqueue_kicks:
  fixes s :: sched
  assumes "Kick_cpu v f \<in> set (drop (length (kcalls s)) (kcalls (imperator_enqueue R K inp p s)))"
  shows "kick_victim (home_llc R inp) s = Some v \<and> f = SCX_KICK_PREEMPT K"
proof -
  let ?l = "home_llc R inp"
  have kc: "kick_victim ?l s = Some v \<and> f = SCX_KICK_PREEMPT K" if "Kick_cpu v f \<in> set (kick_calls K t ?l s)" for t
  proof -
    have "set (kick_calls K t ?l s) \<subseteq> set (case kick_victim ?l s of Some w \<Rightarrow> [Kick_cpu w (SCX_KICK_PREEMPT K)] | None \<Rightarrow> [])"
      unfolding kick_calls_def by (rule if_split [THEN iffD2]) simp
    with that show ?thesis by (cases "kick_victim ?l s") auto
  qed
  show ?thesis
  proof (cases "\<exists>c. task_ctx s (ts_id p) = Some c \<and> placed K inp")
    case True
    then obtain c where "imperator_enqueue R K inp p s = enqueue_full R K inp p c ?l s"
      by (auto simp: imperator_enqueue_eq)
    from assms kc show ?thesis
      unfolding \<open>imperator_enqueue R K inp p s = _\<close> enqueue_full_effect(2) [OF refl refl] by simp
  next
    case False
    then obtain sl vt where "imperator_enqueue R K inp p s = insert_llc (ts_id p) ?l sl vt (enq_flags inp) s"
      by (cases "task_ctx s (ts_id p)") (simp_all add: imperator_enqueue_eq)
    with assms show ?thesis by (simp add: frame_simps)
  qed
qed

text \<open>
  C3. In every reachable state, a preemption kick of the enqueue path hits a task that really runs,
  on an existing CPU of the queued task's own LLC, and really is of lower priority: it is at T3, or
  at T2 when no CPU of that LLC runs a T3 task.
\<close>

theorem kick_hits_lower_tier_task:
  assumes "reachable R K m" "config_ok R"
    and "Kick_cpu v f \<in> set (drop (length (kcalls (kern m))) (kcalls (imperator_enqueue R K inp p (kern m))))"
  shows "f = SCX_KICK_PREEMPT K \<and> unat v < unat (nr_cpus R) \<and> llc_of R (unat v) = unat (home_llc R inp)
    \<and> (\<exists>q c. on_run m (unat v) = Some q \<and> task_ctx (kern m) q = Some c
        \<and> (ctx_tier c = 3 \<or> ctx_tier c = 2
             \<and> (\<forall>cpu q' c'. llc_of R cpu = unat (home_llc R inp) \<longrightarrow> cpu < unat (nr_cpus R) \<longrightarrow> on_run m cpu = Some q'
                  \<longrightarrow> task_ctx (kern m) q' = Some c' \<longrightarrow> ctx_tier c' \<noteq> 3)))"
proof -
  note inv = reachable_inv [OF assms(1,2)]
  note k = enqueue_kicks [OF assms(3)]
  have l8: "unat (home_llc R inp) < 8" by (simp add: home_llc_def unat_and_low)
  obtain q c where q: "on_run m (unat v) = Some q" "task_ctx (kern m) q = Some c"
    "unat v < unat (nr_cpus R)" "llc_of R (unat v) = unat (home_llc R inp)"
    "ctx_tier c = 3 \<or> ctx_tier c = 2 \<and> victims (kern m) (home_llc R inp) 3 = {}"
    using kick_target [OF inv conjunct1 [OF k]] by blast
  have "ctx_tier c' \<noteq> 3"
    if "victims (kern m) (home_llc R inp) 3 = {}" "llc_of R cpu = unat (home_llc R inp)" "cpu < unat (nr_cpus R)"
      "on_run m cpu = Some q'" "task_ctx (kern m) q' = Some c'" for cpu q' c'
  proof
    assume "ctx_tier c' = 3"
    then have "tiers_on (kern m) (on_run m) cpu = Some 3" using that by (simp add: tiers_on_def task_tier_def)
    then have on: "on_cpu (kern m) 3 cpu"
      using machine_invD(3) [OF inv] by (simp add: marks_ok_def cpu_marks.agrees_def)
    then have "cpu < 64" using bit_imp_le_length [of "tier_cpu_mask (kern m) ! 3" cpu] by (simp add: on_cpu_def)
    then have "bit (llc_cpu_mask (kern m) ! unat (home_llc R inp)) cpu"
      using machine_invD(2) [OF inv] that(2,3) l8 by (simp add: masks_ok_def)
    with on that(1) show False by (auto simp: victims_def)
  qed
  with q k show ?thesis by blast
qed

theorem kick_hits_lower_tier_task_witness:
  "\<exists>m v q c. reachable example_rodata example_kabi m
     \<and> Kick_cpu v 2 \<in> set (drop (length (kcalls (kern m)))
         (kcalls (imperator_enqueue example_rodata example_kabi example_enq example_task (kern m))))
     \<and> on_run m (unat v) = Some q \<and> task_ctx (kern m) q = Some c"
proof -
  let ?R = example_rodata and ?K = example_kabi
  obtain m c b where m: "reachable ?R ?K m" "on_run m 4 = Some 9"
    "task_ctx (kern m) 7 = Some c" "ctx_tier c = 1" "\<not> has_flag CAKE_FLOW_IRQ_WAKE (packed_info c)"
    "task_ctx (kern m) 9 = Some b" "ctx_tier b = 3"
    using example_machine by blast
  note inv = reachable_inv [OF m(1) example_config]
  have llc: "home_llc ?R example_enq = 0" by (simp add: home_llc_def example_enq_def example_rodata_def)
  have "tiers_on (kern m) (on_run m) 4 = Some 3" by (simp add: tiers_on_def task_tier_def m)
  then have "on_cpu (kern m) 3 4" using machine_invD(3) [OF inv] by (simp add: marks_ok_def cpu_marks.agrees_def)
  moreover have "bit (llc_cpu_mask (kern m) ! 0) 4"
    using machine_invD(2) [OF inv] by (simp add: masks_ok_def llc_of_def example_rodata_def rodata_default_def)
  ultimately have "victims (kern m) 0 3 \<noteq> {}" by (auto simp: victims_def)
  then obtain v where v: "kick_victim 0 (kern m) = Some v"
    using kick_victim_spec(1) [of 0 "kern m"] by fastforce
  have pl: "placed ?K example_enq" by (simp add: placed_def example_kabi_def example_enq_def)
  have s': "imperator_enqueue ?R ?K example_enq example_task (kern m) = enqueue_full ?R ?K example_enq example_task c 0 (kern m)"
    using m(3) pl llc by (simp add: imperator_enqueue_eq example_task_def)
  let ?t = "enq_tier ?K (enq_flags example_enq) (mbox_flags (get_mbox (enq_smp_id example_enq AND 63) (kern m))) c"
  have "unat ?t \<le> 1" using m(4,5) by (simp add: unat_enq_tier)
  then have "?t \<le> CAKE_TIER_INTERACT" by (simp add: word_le_nat_alt)
  then have "kick_calls ?K ?t 0 (kern m) = [Kick_cpu v 2]"
    using v by (simp add: kick_calls_def example_kabi_def)
  then have k: "Kick_cpu v 2 \<in> set (drop (length (kcalls (kern m)))
      (kcalls (imperator_enqueue ?R ?K example_enq example_task (kern m))))"
    unfolding s' enqueue_full_effect(2) [OF refl refl] by simp
  from kick_hits_lower_tier_task [OF m(1) example_config k] k m(1) show ?thesis by blast
qed

text \<open>
  C2. No queued work is hidden from an idle CPU: in every reachable state a queue that holds tasks
  is flagged, so when any LLC's queue holds a task the dispatching CPU may run, on whatever LLC,
  dispatch ends with a successful move.
\<close>

theorem queued_work_is_dispatched:
  assumes "reachable R K m" "config_ok R" "l < nr_llcs R" "0 < waiting m (unat l)" "moves inp l"
  shows "llc_nonempty (kern m) ! unat l \<noteq> 0
    \<and> (\<exists>new k. kcalls (imperator_dispatch R inp (kern m)) = kcalls (kern m) @ new \<and> new \<noteq> []
        \<and> last new = Dsq_move_to_local (llc_dsq k) \<and> moves inp k)"
proof
  let ?my = "cpu_llc_id R ! unat (dsp_raw_cpu inp AND 63)"
  have nr: "unat (nr_llcs R) \<le> 8" and my: "?my < nr_llcs R"
    using assms(2) unat_and_63 by (auto simp: config_ok_def)
  then have my8: "unat ?my < 8" and l8: "unat l < 8" using assms(3) by (simp_all add: word_less_nat_alt)
  show flag: "llc_nonempty (kern m) ! unat l \<noteq> 0"
    using machine_invD(4) [OF reachable_inv [OF assms(1,2)]] l8 assms(4) unfolding visible_def by blast
  let ?plan = "dispatch_plan R ?my (kern m)"
  have "l \<in> set ?plan"
    unfolding set_plan [OF nr] using flag my assms(3)
    by (auto simp: flagged_others_def word_le_nat_alt word_less_nat_alt word_unat_eq_iff)
  then have a: "attempts (moves inp) ?plan \<noteq> []" "moves inp (last (attempts (moves inp) ?plan))"
    using attempts_success [of ?plan "moves inp"] assms(5) by blast+
  let ?new = "map (\<lambda>l. Dsq_move_to_local (llc_dsq l)) (attempts (moves inp) ?plan)"
  have "kcalls (imperator_dispatch R inp (kern m)) = kcalls (kern m) @ ?new"
    unfolding dispatch_try_all [OF refl my8 nr] by (rule try_all_effect(1))
  moreover have "?new \<noteq> [] \<and> last ?new = Dsq_move_to_local (llc_dsq (last (attempts (moves inp) ?plan)))"
    using a(1) by (simp add: last_map)
  ultimately show "\<exists>new k. kcalls (imperator_dispatch R inp (kern m)) = kcalls (kern m) @ new \<and> new \<noteq> []
        \<and> last new = Dsq_move_to_local (llc_dsq k) \<and> moves inp k"
    using a(2) by blast
qed

theorem queued_work_is_dispatched_witness:
  "\<exists>m new k. reachable example_rodata example_kabi m \<and> waiting m 0 = 1
     \<and> kcalls (imperator_dispatch example_rodata (example_dsp\<lparr>dsp_move_ok := (\<lambda>d. d = 200)\<rparr>) (kern m)) = kcalls (kern m) @ new
     \<and> last new = Dsq_move_to_local (llc_dsq k)"
proof -
  obtain m where m: "reachable example_rodata example_kabi m" "waiting m 0 = 1"
    using example_machine by blast
  have "moves (example_dsp\<lparr>dsp_move_ok := (\<lambda>d. d = 200)\<rparr>) 0" by (simp add: llc_dsq_def)
  from queued_work_is_dispatched [OF m(1) example_config _ _ this] m show ?thesis by force
qed

text \<open>
  C30. The interrupt hand-over between CPU selection and enqueue: when an interrupt wakes a task and
  no CPU is idle, the task is queued at T0 with a T0 deadline whatever its own tier, the stored tier
  does not change, and the one-shot flag is consumed, so the next wakeup is an ordinary one.
\<close>

theorem irq_wakeup_reaches_tier0:
  assumes c: "task_ctx s (ts_id p) = Some c" and len: "length (dummy_idle s) = 64"
    and busy: "sel_dfl sinp prev = (cpu0, False)" and irq: "irq_context K sinp" and pl: "placed K einp"
    and s1: "s1 = snd (imperator_select_cpu R K sinp p prev s)" and s2: "s2 = imperator_enqueue R K einp p s1"
  shows "\<exists>slc adv kicks c'. kcalls s2 = kcalls s @ Dsq_insert_vtime (ts_id p) (LLC_DSQ_BASE + ucast (home_llc R einp)) slc
        (tier_deadline R (enq_now einp) CAKE_TIER_CRITICAL adv) (enq_flags einp) # kicks
    \<and> adv = vtime_advance R (packed_info c)
    \<and> task_ctx s2 (ts_id p) = Some c' \<and> ctx_tier c' = ctx_tier c \<and> \<not> has_flag CAKE_FLOW_IRQ_WAKE (packed_info c')"
proof -
  note e = select_cpu_busy [of sinp prev s R K p, unfolded busy snd_conv, OF refl len, folded s1]
  let ?c = "stamped K sinp c"
  have c1: "task_ctx s1 (ts_id p) = Some ?c" using e(3) c by simp
  have fl: "has_flag CAKE_FLOW_IRQ_WAKE (packed_info ?c)"
    "vtime_advance R (packed_info ?c) = vtime_advance R (packed_info c)"
    using irq by (simp_all add: stamped_def irq_has_set vtime_advance_def flag_simps)
  have s2': "s2 = enqueue_full R K einp p ?c (home_llc R einp) s1"
    using c1 pl by (simp add: s2 imperator_enqueue_eq)
  note f = enqueue_full_effect [OF s2' refl]
  have t: "enq_tier K (enq_flags einp) mb ?c = 0" for mb
    using fl(1) by (simp add: word_unat_eq_iff unat_enq_tier)
  have "\<not> has_flag CAKE_FLOW_IRQ_WAKE (packed_info (enq_ctx R K einp ?c))"
    by (simp add: enq_ctx_def irq_override_def flag_simps)
  then show ?thesis
    using f(1,2) e(2) by (auto simp: t fl(2) enq_ctx_sel stamped_sel)
qed

theorem irq_wakeup_reaches_tier0_witness:
  "\<exists>slc adv kicks. kcalls (imperator_enqueue rodata_default example_kabi example_enq example_task
      (snd (imperator_select_cpu rodata_default example_kabi (example_sel False) example_task 3 example_sched)))
    = Dsq_insert_vtime 7 200 slc (tier_deadline rodata_default 70000000 0 adv) 1 # kicks"
proof -
  let ?R = rodata_default and ?K = example_kabi
  have irq: "irq_context ?K (example_sel False)" by (simp add: irq_context_def example_sel_def)
  have pl: "placed ?K example_enq" by (simp add: placed_def example_kabi_def example_enq_def)
  have c: "task_ctx example_sched (ts_id example_task) = Some example_ctx" by (simp add: example_task_def)
  have len: "length (dummy_idle example_sched) = 64" by (simp add: example_sched_def bss_zero_def)
  have busy: "sel_dfl (example_sel False) 3 = (5, False)" by (simp add: example_sel_def)
  have eq: "ts_id example_task = 7" "home_llc ?R example_enq = 0" "enq_now example_enq = 70000000"
    "enq_flags example_enq = 1" "kcalls example_sched = []"
    by (simp_all add: example_task_def home_llc_def example_enq_def rodata_default_def)
  have dsq: "(200 :: u64) + ucast (0 :: u32) = 200" by simp
  show ?thesis
    using irq_wakeup_reaches_tier0 [OF c len busy irq pl refl refl, of ?R] unfolding eq dsq append_Nil by blast
qed

end
