(* ===== verification/Interleaving.thy ===== *)
theory Interleaving
  imports System
begin

text \<open>
  The flag \<open>llc_nonempty[llc]\<close> under concurrency. \<open>llc_mark_nonempty\<close> after an insertion and the
  move-or-clear block of \<open>imperator_dispatch\<close> run on different CPUs without a lock; here each is a
  sequence of single accesses to the flag and to the kernel's queue, and the accesses of one
  enqueuing and one dispatching CPU interleave. Run alone, the accesses are exactly \<open>insert_llc\<close>
  and \<open>try_llc\<close>, the atomic blocks of the other theories.
\<close>

section \<open>Single accesses\<close>

datatype enq_pc = E_insert | E_load | E_store u8 | E_done

datatype dsp_pc = D_move | D_query | D_store nat | D_done

record access_state =
  mem :: sched
  depth :: nat  \<comment> \<open>tasks in the LLC's queue\<close>
  enq :: enq_pc
  dsp :: dsp_pc

inductive access_step :: "kcall \<Rightarrow> u32 \<Rightarrow> access_state \<Rightarrow> access_state \<Rightarrow> bool" for ins llc where
  insert: "enq z = E_insert \<Longrightarrow>
    access_step ins llc z (z\<lparr>mem := emit ins (mem z), depth := Suc (depth z), enq := E_load\<rparr>)"
| load_flag: "enq z = E_load \<Longrightarrow>
    access_step ins llc z (z\<lparr>enq := E_store (llc_nonempty (mem z) ! unat (llc AND 7))\<rparr>)"
| store_set: "enq z = E_store v \<Longrightarrow>
    access_step ins llc z (z\<lparr>mem := (if v = 0 then (mem z)\<lparr>llc_nonempty := (llc_nonempty (mem z))[unat (llc AND 7) := 1]\<rparr>
                                     else mem z), enq := E_done\<rparr>)"
| move_ok: "dsp z = D_move \<Longrightarrow> 0 < depth z \<Longrightarrow>
    access_step ins llc z (z\<lparr>mem := emit (Dsq_move_to_local (llc_dsq llc)) (mem z), depth := depth z - 1, dsp := D_done\<rparr>)"
| move_fails: "dsp z = D_move \<Longrightarrow> \<comment> \<open>no task, or none that may run on the CPU\<close>
    access_step ins llc z (z\<lparr>mem := emit (Dsq_move_to_local (llc_dsq llc)) (mem z), dsp := D_query\<rparr>)"
| query: "dsp z = D_query \<Longrightarrow> access_step ins llc z (z\<lparr>dsp := D_store (depth z)\<rparr>)"
| store_clear: "dsp z = D_store n \<Longrightarrow>
    access_step ins llc z (z\<lparr>mem := (if n = 0 then store_empty llc (mem z) else mem z), dsp := D_done\<rparr>)"

section \<open>Uninterrupted runs are the atomic blocks\<close>

lemma serial_mark:
  assumes "ins = Dsq_insert_vtime p (LLC_DSQ_BASE + ucast llc) slc vtime flags"
  shows "(access_step ins llc)\<^sup>*\<^sup>* \<lparr>mem = emit ins s, depth = n, enq = E_load, dsp = d\<rparr>
    \<lparr>mem = insert_llc p llc slc vtime flags s, depth = n, enq = E_done, dsp = d\<rparr>"
proof -
  let ?s = "emit ins s" and ?i = "unat (llc AND 7)"
  let ?z = "\<lambda>m e. \<lparr>mem = m, depth = n, enq = e, dsp = d\<rparr>"
  define v where "v = llc_nonempty ?s ! ?i"
  have fin: "insert_llc p llc slc vtime flags s =
      (if v = 0 then ?s\<lparr>llc_nonempty := (llc_nonempty ?s)[?i := 1]\<rparr> else ?s)"
    by (simp add: insert_llc_def llc_mark_nonempty_def assms v_def)
  have "access_step ins llc (?z ?s E_load) (?z ?s (E_store v))"
    using access_step.load_flag [of "?z ?s E_load" ins llc] by (simp add: v_def)
  moreover have "access_step ins llc (?z ?s (E_store v)) (?z (insert_llc p llc slc vtime flags s) E_done)"
    using access_step.store_set [of "?z ?s (E_store v)" v ins llc] unfolding fin by (cases "v = 0") simp_all
  ultimately show ?thesis by (auto intro: rtranclp.rtrancl_into_rtrancl)
qed

lemma serial_enqueue:
  assumes "ins = Dsq_insert_vtime p (LLC_DSQ_BASE + ucast llc) slc vtime flags"
  shows "(access_step ins llc)\<^sup>*\<^sup>* \<lparr>mem = s, depth = n, enq = E_insert, dsp = d\<rparr>
    \<lparr>mem = insert_llc p llc slc vtime flags s, depth = Suc n, enq = E_done, dsp = d\<rparr>"
proof -
  have "access_step ins llc \<lparr>mem = s, depth = n, enq = E_insert, dsp = d\<rparr> \<lparr>mem = emit ins s, depth = Suc n, enq = E_load, dsp = d\<rparr>"
    using access_step.insert [of "\<lparr>mem = s, depth = n, enq = E_insert, dsp = d\<rparr>" ins llc] by simp
  then show ?thesis using serial_mark [OF assms] by (rule converse_rtranclp_into_rtranclp)
qed

lemma serial_dispatch:
  assumes "dsp_move_ok inp (llc_dsq llc) \<Longrightarrow> 0 < n" "dsp_nr_queued inp (llc_dsq llc) = 0 \<longleftrightarrow> n = 0"
  shows "(access_step ins llc)\<^sup>*\<^sup>* \<lparr>mem = s, depth = n, enq = e, dsp = D_move\<rparr>
    \<lparr>mem = snd (try_llc inp llc s), depth = (if dsp_move_ok inp (llc_dsq llc) then n - 1 else n), enq = e, dsp = D_done\<rparr>"
proof (cases "dsp_move_ok inp (llc_dsq llc)")
  case True
  then show ?thesis
    using access_step.move_ok [of "\<lparr>mem = s, depth = n, enq = e, dsp = D_move\<rparr>" ins llc] assms
    by (intro r_into_rtranclp) (simp add: try_llc_def Let_def)
next
  case False
  let ?s = "emit (Dsq_move_to_local (llc_dsq llc)) s"
  let ?z = "\<lambda>m d. \<lparr>mem = m, depth = n, enq = e, dsp = d\<rparr>"
  have "access_step ins llc (?z s D_move) (?z ?s D_query)"
    using access_step.move_fails [of "?z s D_move" ins llc] by simp
  moreover have "access_step ins llc (?z ?s D_query) (?z ?s (D_store n))"
    using access_step.query [of "?z ?s D_query" ins llc] by simp
  moreover have "access_step ins llc (?z ?s (D_store n)) (?z (snd (try_llc inp llc s)) D_done)"
    using access_step.store_clear [of "?z ?s (D_store n)" n ins llc] assms(2) False
    by (cases "n = 0") (simp_all add: try_llc_def Let_def)
  ultimately show ?thesis using False by (auto intro: rtranclp.rtrancl_into_rtrancl)
qed

section \<open>An insertion before the depth query stays visible\<close>

inductive_cases access_stepE: "access_step ins llc z z'"

definition flag_of :: "u32 \<Rightarrow> access_state \<Rightarrow> u8" where
  "flag_of llc z = llc_nonempty (mem z) ! unat (llc AND 7)"

definition window_closed :: "u32 \<Rightarrow> access_state \<Rightarrow> bool" where
  \<comment> \<open>the task is inserted, the dispatcher has not seen an empty queue, and the flag is set or about to be\<close>
  "window_closed llc z \<longleftrightarrow> length (llc_nonempty (mem z)) = 8
     \<and> (case enq z of E_insert \<Rightarrow> False | E_load \<Rightarrow> True | E_store v \<Rightarrow> v \<noteq> 0 \<longrightarrow> flag_of llc z \<noteq> 0 | E_done \<Rightarrow> flag_of llc z \<noteq> 0)
     \<and> (case dsp z of D_move \<Rightarrow> 0 < depth z | D_query \<Rightarrow> 0 < depth z | D_store n \<Rightarrow> 0 < n | D_done \<Rightarrow> True)"

lemma window_closed_step:
  assumes "access_step ins llc z z'" "window_closed llc z"
  shows "window_closed llc z'"
proof -
  have "unat (llc AND 7) < 8" by (simp add: unat_and_low)
  then show ?thesis
    using assms(2)
    by (cases rule: access_stepE [OF assms(1)])
       (auto simp: window_closed_def flag_of_def store_empty_def frame_simps split: enq_pc.splits dsp_pc.splits)
qed

lemma window_closed_run:
  "(access_step ins llc)\<^sup>*\<^sup>* z z' \<Longrightarrow> window_closed llc z \<Longrightarrow> window_closed llc z'"
  by (induction rule: rtranclp_induct) (auto intro: window_closed_step)

section \<open>Properties\<close>

text \<open>
  C25. The clear can hide work. Whatever the flag was, an insertion that falls between the
  dispatcher's depth query and its clearing store ends with one task in the queue and the flag
  clear: no CPU of another LLC considers this queue any more, only the CPUs of its own LLC still
  try it. The atomic blocks never reach such a state; the interleaving of their accesses does.
\<close>

theorem stale_clear_hides_work:
  assumes len: "length (llc_nonempty s) = 8" and llc: "unat llc < 8"
  shows "\<exists>s'. (access_step ins llc)\<^sup>*\<^sup>* \<lparr>mem = s, depth = 0, enq = E_insert, dsp = D_move\<rparr>
        \<lparr>mem = s', depth = 1, enq = E_done, dsp = D_done\<rparr>
    \<and> llc_nonempty s' ! unat llc = 0 \<and> (\<forall>R my_llc. llc \<notin> flagged_others R my_llc s')
    \<and> (\<forall>R. hd (dispatch_plan R llc s') = llc)"
proof -
  let ?i = "unat (llc AND 7)"
  let ?s1 = "emit (Dsq_move_to_local (llc_dsq llc)) s"
  let ?s2 = "emit ins ?s1"
  define v where "v = llc_nonempty ?s2 ! ?i"
  define s3 where "s3 = (if v = 0 then ?s2\<lparr>llc_nonempty := (llc_nonempty ?s2)[?i := 1]\<rparr> else ?s2)"
  let ?z = "\<lambda>m n e d. \<lparr>mem = m, depth = n, enq = e, dsp = d\<rparr>"
  have 1: "access_step ins llc (?z s 0 E_insert D_move) (?z ?s1 0 E_insert D_query)"
    using access_step.move_fails [of "?z s 0 E_insert D_move" ins llc] by simp
  have 2: "access_step ins llc (?z ?s1 0 E_insert D_query) (?z ?s1 0 E_insert (D_store 0))"
    using access_step.query [of "?z ?s1 0 E_insert D_query" ins llc] by simp
  have 3: "access_step ins llc (?z ?s1 0 E_insert (D_store 0)) (?z ?s2 1 E_load (D_store 0))"
    using access_step.insert [of "?z ?s1 0 E_insert (D_store 0)" ins llc] by simp
  have 4: "access_step ins llc (?z ?s2 1 E_load (D_store 0)) (?z ?s2 1 (E_store v) (D_store 0))"
    using access_step.load_flag [of "?z ?s2 1 E_load (D_store 0)" ins llc] by (simp add: v_def)
  have 5: "access_step ins llc (?z ?s2 1 (E_store v) (D_store 0)) (?z s3 1 E_done (D_store 0))"
    using access_step.store_set [of "?z ?s2 1 (E_store v) (D_store 0)" v ins llc]
    unfolding s3_def by (cases "v = 0") simp_all
  have 6: "access_step ins llc (?z s3 1 E_done (D_store 0)) (?z (store_empty llc s3) 1 E_done D_done)"
    using access_step.store_clear [of "?z s3 1 E_done (D_store 0)" 0 ins llc] by simp
  have "(access_step ins llc)\<^sup>*\<^sup>* (?z s 0 E_insert D_move) (?z (store_empty llc s3) 1 E_done D_done)"
    by (rule converse_rtranclp_into_rtranclp [OF 1 converse_rtranclp_into_rtranclp [OF 2
          converse_rtranclp_into_rtranclp [OF 3 converse_rtranclp_into_rtranclp [OF 4
          converse_rtranclp_into_rtranclp [OF 5 r_into_rtranclp [of "access_step ins llc", OF 6]]]]]])
  moreover have "length (llc_nonempty s3) = 8" using len by (simp add: s3_def frame_simps)
  then have "llc_nonempty (store_empty llc s3) ! unat llc = 0"
    using llc by (simp add: store_empty_def unat_and_low)
  ultimately show ?thesis
    by (intro exI [of _ "store_empty llc s3"]) (simp add: flagged_others_def dispatch_plan_def)
qed

theorem stale_clear_hides_work_witness:
  "\<exists>s'. (access_step (Dsq_insert_vtime 7 201 0 0 1) 1)\<^sup>*\<^sup>*
      \<lparr>mem = example_stealable, depth = 0, enq = E_insert, dsp = D_move\<rparr> \<lparr>mem = s', depth = 1, enq = E_done, dsp = D_done\<rparr>
    \<and> llc_nonempty s' ! 1 = 0"
  using stale_clear_hides_work [of example_stealable 1 "Dsq_insert_vtime 7 201 0 0 1"] by auto

text \<open>
  The window of that race is exactly the time between the depth query and the clearing store: once
  the insertion comes before the query, the flag is set when the enqueue is over, whatever its value
  was, in every interleaving of the remaining accesses of both CPUs.
\<close>

theorem insert_before_query_stays_visible:
  assumes "(access_step ins llc)\<^sup>*\<^sup>* \<lparr>mem = s, depth = n, enq = E_load, dsp = d\<rparr> \<lparr>mem = s', depth = n', enq = E_done, dsp = d'\<rparr>"
    and "d = D_move \<or> d = D_query" "0 < n" "length (llc_nonempty s) = 8" "unat llc < 8"
  shows "llc_nonempty s' ! unat llc \<noteq> 0"
proof -
  have "window_closed llc \<lparr>mem = s, depth = n, enq = E_load, dsp = d\<rparr>"
    using assms(2-4) by (auto simp: window_closed_def)
  from window_closed_run [OF assms(1) this] show ?thesis
    using assms(5) by (simp add: window_closed_def flag_of_def unat_and_low)
qed

theorem insert_before_query_stays_visible_witness:
  "llc_nonempty (insert_llc 7 1 0 0 1 example_stealable) ! unat (1 :: u32) \<noteq> 0"
proof (rule insert_before_query_stays_visible)
  show "(access_step (Dsq_insert_vtime 7 (LLC_DSQ_BASE + ucast (1 :: u32)) 0 0 1) 1)\<^sup>*\<^sup>*
      \<lparr>mem = emit (Dsq_insert_vtime 7 (LLC_DSQ_BASE + ucast (1 :: u32)) 0 0 1) example_stealable,
        depth = 1, enq = E_load, dsp = D_move\<rparr>
      \<lparr>mem = insert_llc 7 1 0 0 1 example_stealable, depth = 1, enq = E_done, dsp = D_move\<rparr>"
    by (rule serial_mark [OF refl])
qed (simp_all add: frame_simps)

end
