(* ===== verification/Many_Cpus.thy ===== *)
theory Many_Cpus
  imports Interleaving
begin

text \<open>
  The flag of an LLC under any number of CPUs. Every CPU may insert into the queue and dispatch from
  it, again and again; the accesses of theory \<open>Interleaving\<close> of all of them interleave. The only way to
  lose the flag of a queue with tasks is a clearing store whose depth query is out of date, and the next
  insertion repairs it.
\<close>

section \<open>A family of CPUs over one queue\<close>

record many_state =
  shared :: sched
  queued :: nat  \<comment> \<open>tasks in the LLC's queue\<close>
  enqs :: "nat \<Rightarrow> enq_pc"
  dsps :: "nat \<Rightarrow> dsp_pc"

definition view :: "many_state \<Rightarrow> nat \<Rightarrow> access_state" where
  \<comment> \<open>what one CPU sees\<close>
  "view z cpu = \<lparr>mem = shared z, depth = queued z, enq = enqs z cpu, dsp = dsps z cpu\<rparr>"

definition install :: "many_state \<Rightarrow> nat \<Rightarrow> access_state \<Rightarrow> many_state" where
  "install z cpu v = \<lparr>shared = mem v, queued = depth v, enqs = (enqs z)(cpu := enq v), dsps = (dsps z)(cpu := dsp v)\<rparr>"

inductive many_step :: "u32 \<Rightarrow> many_state \<Rightarrow> many_state \<Rightarrow> bool" for llc where
  access: "access_step ins llc (view z cpu) v \<Longrightarrow> many_step llc z (install z cpu v)"
| next_enqueue: "enqs z cpu = E_done \<Longrightarrow> many_step llc z (z\<lparr>enqs := (enqs z)(cpu := E_insert)\<rparr>)"
| next_dispatch: "dsps z cpu = D_done \<Longrightarrow> many_step llc z (z\<lparr>dsps := (dsps z)(cpu := D_move)\<rparr>)"

definition flag_set :: "u32 \<Rightarrow> many_state \<Rightarrow> bool" where
  "flag_set llc z \<longleftrightarrow> llc_nonempty (shared z) ! unat (llc AND 7) \<noteq> 0"

definition stale_clear :: "many_state \<Rightarrow> many_state \<Rightarrow> bool" where
  \<comment> \<open>a store that clears the flag although the queue holds a task again\<close>
  "stale_clear z z' \<longleftrightarrow> 0 < queued z \<and> (\<exists>cpu. dsps z cpu = D_store 0 \<and> dsps z' cpu = D_done)"

definition fresh_step :: "u32 \<Rightarrow> many_state \<Rightarrow> many_state \<Rightarrow> bool" where
  "fresh_step llc z z' \<longleftrightarrow> many_step llc z z' \<and> \<not> stale_clear z z'"

definition marking :: "enq_pc \<Rightarrow> bool" where
  \<comment> \<open>inside \<open>llc_mark_nonempty\<close> and not yet sure to leave the flag alone\<close>
  "marking e \<longleftrightarrow> e = E_load \<or> e = E_store 0"

definition tracked :: "u32 \<Rightarrow> many_state \<Rightarrow> bool" where
  "tracked llc z \<longleftrightarrow> length (llc_nonempty (shared z)) = 8
     \<and> (0 < queued z \<longrightarrow> flag_set llc z \<or> (\<exists>cpu. marking (enqs z cpu)))"

definition between_enqueues :: "enq_pc \<Rightarrow> bool" where
  "between_enqueues e \<longleftrightarrow> e = E_insert \<or> e = E_done"

lemma view_sel [simp]:
  "mem (view z cpu) = shared z" "depth (view z cpu) = queued z" "enq (view z cpu) = enqs z cpu" "dsp (view z cpu) = dsps z cpu"
  by (simp_all add: view_def)

lemma install_sel [simp]:
  "shared (install z cpu v) = mem v" "queued (install z cpu v) = depth v"
  "enqs (install z cpu v) = (enqs z)(cpu := enq v)" "dsps (install z cpu v) = (dsps z)(cpu := dsp v)"
  by (simp_all add: install_def)

section \<open>Work is tracked\<close>

lemma tracked_marked:
  assumes "length (llc_nonempty (shared z)) = 8" "marking (enqs z cpu)"
  shows "tracked llc z"
  using assms by (auto simp: tracked_def)

lemma tracked_flag:
  assumes "length (llc_nonempty (shared z)) = 8" "flag_set llc z"
  shows "tracked llc z"
  using assms by (simp add: tracked_def)

text \<open>An insertion makes the queue tracked, whatever the state before it.\<close>

lemma insertion_tracks:
  assumes "length (llc_nonempty (shared z)) = 8" "enqs z cpu = E_insert"
    and "v = (view z cpu)\<lparr>mem := emit ins (shared z), depth := Suc (queued z), enq := E_load\<rparr>"
  shows "many_step llc z (install z cpu v)" "tracked llc (install z cpu v)"
proof -
  show "many_step llc z (install z cpu v)"
    using access_step.insert [of "view z cpu" ins llc] assms(2,3) by (auto intro: many_step.access)
  show "tracked llc (install z cpu v)"
    using assms by (intro tracked_marked [of _ cpu]) (simp_all add: frame_simps marking_def)
qed

lemma llc_index: "unat (llc AND 7 :: u32) < 8"
  by (simp add: unat_and_low)

lemma tracked_keep:
  assumes "tracked llc z" "llc_nonempty (shared z') = llc_nonempty (shared z)" "0 < queued z' \<Longrightarrow> 0 < queued z"
    and "\<And>i. marking (enqs z i) \<Longrightarrow> marking (enqs z' i)"
  shows "tracked llc z'"
  using assms by (auto simp: tracked_def flag_set_def)

lemma tracked_access:
  assumes a: "access_step ins llc (view z cpu) v" and t: "tracked llc z" and f: "\<not> stale_clear z (install z cpu v)"
  shows "tracked llc (install z cpu v)"
proof -
  have len: "length (llc_nonempty (shared z)) = 8" using t by (simp add: tracked_def)
  show ?thesis
    using a
  proof cases
    case insert
    then show ?thesis using len by (intro tracked_marked [of _ cpu]) (simp_all add: frame_simps marking_def)
  next
    case load_flag
    show ?thesis
    proof (cases "flag_set llc z")
      case True
      then show ?thesis using load_flag len by (intro tracked_flag) (simp_all add: flag_set_def)
    next
      case False
      then show ?thesis
        using load_flag len by (intro tracked_marked [of _ cpu]) (simp_all add: flag_set_def marking_def)
    qed
  next
    case (store_set x)
    show ?thesis
    proof (cases "x = 0")
      case True
      then show ?thesis
        using store_set len llc_index [of llc] by (intro tracked_flag) (simp_all add: flag_set_def)
    next
      case False
      then show ?thesis using store_set t by (intro tracked_keep [OF t]) (auto simp: marking_def)
    qed
  next
    case (store_clear n)
    show ?thesis
    proof (cases "n = 0")
      case True
      then have "queued z = 0" using store_clear f by (auto simp: stale_clear_def)
      then show ?thesis using store_clear len by (simp add: tracked_def store_empty_def)
    next
      case False
      then show ?thesis using store_clear by (intro tracked_keep [OF t]) auto
    qed
  qed (intro tracked_keep [OF t]; auto simp: frame_simps)+
qed

lemma tracked_step:
  assumes "fresh_step llc z z'" "tracked llc z"
  shows "tracked llc z'"
proof -
  have step: "many_step llc z z'" and fresh: "\<not> stale_clear z z'"
    using assms(1) by (simp_all add: fresh_step_def)
  from step show ?thesis
  proof cases
    case (access ins cpu v)
    from fresh show ?thesis unfolding access(1) by (rule tracked_access [OF access(2) assms(2)])
  next
    case (next_enqueue cpu)
    show ?thesis
      unfolding next_enqueue(1) by (rule tracked_keep [OF assms(2)]) (auto simp: next_enqueue(2) marking_def)
  next
    case (next_dispatch cpu)
    show ?thesis unfolding next_dispatch(1) by (rule tracked_keep [OF assms(2)]) simp_all
  qed
qed

lemma tracked_run: "(fresh_step llc)\<^sup>*\<^sup>* z z' \<Longrightarrow> tracked llc z \<Longrightarrow> tracked llc z'"
  by (induction rule: rtranclp_induct) (auto intro: tracked_step)

section \<open>One CPU's run inside the family\<close>

lemma install_view [simp]:
  "install z cpu (view z cpu) = z" "view (install z cpu v) cpu = v" "install (install z cpu v) cpu w = install z cpu w"
  by (simp_all add: view_def install_def)

lemma enqueue_step_lifts:
  assumes "access_step ins llc (view z cpu) v" "dsps z cpu = D_done"
  shows "fresh_step llc z (install z cpu v) \<and> dsp v = D_done"
proof -
  have "dsp v = D_done" using assms by cases simp_all
  then have "\<not> stale_clear z (install z cpu v)" using assms(2) by (auto simp: stale_clear_def)
  then show ?thesis
    using \<open>dsp v = D_done\<close> many_step.access [OF assms(1)] by (simp add: fresh_step_def)
qed

lemma enqueue_run_lifts:
  assumes "(access_step ins llc)\<^sup>*\<^sup>* (view z cpu) v" "dsps z cpu = D_done"
  shows "(fresh_step llc)\<^sup>*\<^sup>* z (install z cpu v) \<and> dsp v = D_done"
  using assms(1)
proof (induction rule: rtranclp_induct)
  case (step v w)
  have "fresh_step llc (install z cpu v) (install (install z cpu v) cpu w) \<and> dsp w = D_done"
    using step.hyps(2) step.IH by (intro enqueue_step_lifts) simp_all
  then show ?case using step.IH by (auto intro: rtranclp.rtrancl_into_rtrancl)
qed (simp add: assms(2))

section \<open>Properties\<close>

text \<open>
  C26. Only a stale clear hides work. Take any number of CPUs that enqueue to and dispatch from one LLC,
  with all their accesses interleaved, from a moment when the queue is empty, its flag is set, or
  a task was just inserted (the state before may be anything, so an earlier loss is repaired by the next
  insertion). Until a dispatcher clears the flag on an outdated depth query, whenever no enqueue is
  in the middle of its accesses, a queue that holds a task is flagged.
\<close>

theorem only_stale_clears_hide_work:
  assumes "length (llc_nonempty (shared z)) = 8" "unat llc < 8"
    and "queued z = 0 \<or> flag_set llc z \<or> enqs z cpu = E_load"
    and "(fresh_step llc)\<^sup>*\<^sup>* z z'" "\<forall>i. between_enqueues (enqs z' i)" "0 < queued z'"
  shows "llc_nonempty (shared z') ! unat llc \<noteq> 0"
proof -
  have "tracked llc z"
    using assms(1,3) tracked_marked [of z cpu llc] by (auto simp: tracked_def marking_def)
  from tracked_run [OF assms(4) this] have t: "tracked llc z'" .
  have "\<not> marking (enqs z' i)" for i
    using assms(5) [rule_format, of i] by (auto simp: marking_def between_enqueues_def)
  with t assms(2,6) show ?thesis by (simp add: tracked_def flag_set_def unat_and_low)
qed

theorem only_stale_clears_hide_work_witness:
  "llc_nonempty (insert_llc 7 1 0 0 1 example_stealable) ! unat (1 :: u32) \<noteq> 0"
proof -
  let ?z = "\<lparr>shared = example_stealable, queued = 0, enqs = (\<lambda>_. E_insert), dsps = (\<lambda>_. D_done)\<rparr>"
  let ?v = "\<lparr>mem = insert_llc 7 1 0 0 1 example_stealable, depth = Suc 0, enq = E_done, dsp = D_done\<rparr>"
  have "(access_step (Dsq_insert_vtime 7 (LLC_DSQ_BASE + ucast (1 :: u32)) 0 0 1) 1)\<^sup>*\<^sup>* (view ?z 3) ?v"
    using serial_enqueue [OF refl, of 7 1 0 0 1 example_stealable 0 D_done] by (simp add: view_def)
  from enqueue_run_lifts [OF this] have "(fresh_step 1)\<^sup>*\<^sup>* ?z (install ?z 3 ?v)" by simp
  from only_stale_clears_hide_work [OF _ _ _ this] show ?thesis
    by (simp add: between_enqueues_def)
qed

end
