(* ===== verification/Concurrency.thy ===== *)
theory Concurrency
  imports Run_Stop
begin

text \<open>
  Context switches on different CPUs. \<open>imperator_running\<close> and \<open>imperator_stopping\<close> run at the same
  time on every CPU without a lock. Each touches the context of its own task, the mailbox and the
  statistics block of its own CPU, and one bit of a shared word of \<open>tier_cpu_mask\<close>, by an
  atomic OR or AND. Hence the handlers of different CPUs commute, and the order in which the
  switches of different CPUs fall does not matter.
\<close>

section \<open>Footprints\<close>

datatype switch =
    Run u32 u64 tid  \<comment> \<open>CPU, clock, task\<close>
  | Stop u32 u64 u64 tid bool  \<comment> \<open>CPU, the two clock reads, task, runnable\<close>

fun switch_step :: "rodata \<Rightarrow> switch \<Rightarrow> sched \<Rightarrow> sched" where
  "switch_step R (Run cpu now p) = imperator_running R cpu now p"
| "switch_step R (Stop cpu now now2 p runnable) = imperator_stopping R cpu now now2 p runnable"

fun switch_cpu :: "switch \<Rightarrow> u32" where
  "switch_cpu (Run cpu now p) = cpu AND 63"
| "switch_cpu (Stop cpu now now2 p runnable) = cpu AND 63"

fun switch_task :: "switch \<Rightarrow> tid" where
  "switch_task (Run cpu now p) = p"
| "switch_task (Stop cpu now now2 p runnable) = p"

definition independent :: "switch \<Rightarrow> switch \<Rightarrow> bool" where
  "independent a b \<longleftrightarrow> switch_cpu a \<noteq> switch_cpu b \<and> switch_task a \<noteq> switch_task b"

text \<open>What a switch does to each shared array, as a function of the context of its task alone.\<close>

fun switch_ctx :: "rodata \<Rightarrow> switch \<Rightarrow> imperator_task_ctx \<Rightarrow> imperator_task_ctx" where
  "switch_ctx R (Run cpu now p) c = dispatch_latency (c\<lparr>last_run_at := ucast now\<rparr>)"
| "switch_ctx R (Stop cpu now now2 p runnable) c =
     (if last_run_at c = 0 then c
      else reclassify_task_cold R now2 runnable
             (c\<lparr>sleep_entry_time := (if \<not> runnable then ucast now else 0)\<rparr>))"

fun switch_stat :: "rodata \<Rightarrow> switch \<Rightarrow> imperator_task_ctx \<Rightarrow> imperator_stats \<Rightarrow> imperator_stats" where
  "switch_stat R (Run cpu now p) c st =
     (if enable_stats R \<and> enqueue_time c \<noteq> 0
      then st\<lparr>nr_jitter_ewma_sum := nr_jitter_ewma_sum st
                 + ucast (jitter_ewma_us (dispatch_latency (c\<lparr>last_run_at := ucast now\<rparr>))),
              nr_jitter_ewma_count := nr_jitter_ewma_count st + 1\<rparr>
      else st)"
| "switch_stat R (Stop cpu now now2 p runnable) c st = st"

fun switch_mbox :: "switch \<Rightarrow> imperator_task_ctx \<Rightarrow> mega_mailbox_entry \<Rightarrow> mega_mailbox_entry" where
  "switch_mbox (Run cpu now p) c m =
     m\<lparr>mbox_flags := MBOX_VALID_FLAG OR (mbox_flags m AND NOT MBOX_TIER_MASK) OR ctx_tier c\<rparr>"
| "switch_mbox (Stop cpu now now2 p runnable) c m = m"

fun switch_mask :: "switch \<Rightarrow> imperator_task_ctx \<Rightarrow> u64 \<Rightarrow> u64" where
  "switch_mask (Run cpu now p) c w = w OR cpu_bit (cpu AND 63)"
| "switch_mask (Stop cpu now now2 p runnable) c w =
     (if last_run_at c = 0 then w else w AND NOT (cpu_bit (cpu AND 63)))"

definition switch_effect :: "rodata \<Rightarrow> switch \<Rightarrow> imperator_task_ctx \<Rightarrow> sched \<Rightarrow> sched" where
  "switch_effect R e c s =
     (let i = unat (switch_cpu e); t = unat (ctx_tier c)
      in s\<lparr>task_ctx := (task_ctx s)(switch_task e \<mapsto> switch_ctx R e c),
           global_stats := (global_stats s)[i := switch_stat R e c (global_stats s ! i)],
           mega_mailbox := (mega_mailbox s)[i := switch_mbox e c (mega_mailbox s ! i)],
           tier_cpu_mask := (tier_cpu_mask s)[t := switch_mask e c (tier_cpu_mask s ! t)]\<rparr>)"

lemma ctx_tier_less: "unat (ctx_tier c) < 4"
  by (simp add: ctx_tier_def unat_packed_tier)

lemma tier_of_running: "ucast (CAKE_TIER_IDX (GET_TIER c)) = ctx_tier c"
  by (simp add: ctx_tier_def)

lemma ctx_tier_latency [simp]: "ctx_tier (dispatch_latency c) = ctx_tier c"
    "ctx_tier (c\<lparr>last_run_at := x\<rparr>) = ctx_tier c"
  by (simp_all add: ctx_tier_def)

lemma publish_running_tier_upd:
  "publish_running_tier cpu t s
   = upd_mbox cpu (\<lambda>m. m\<lparr>mbox_flags := MBOX_VALID_FLAG OR (mbox_flags m AND NOT MBOX_TIER_MASK) OR t\<rparr>) s"
proof (cases "mbox_flags (get_mbox cpu s) = MBOX_VALID_FLAG OR (mbox_flags (get_mbox cpu s) AND NOT MBOX_TIER_MASK) OR t")
  case True
  then have "(get_mbox cpu s)\<lparr>mbox_flags := MBOX_VALID_FLAG OR (mbox_flags (get_mbox cpu s) AND NOT MBOX_TIER_MASK) OR t\<rparr>
             = get_mbox cpu s" by simp
  then have "upd_mbox cpu (\<lambda>m. m\<lparr>mbox_flags := MBOX_VALID_FLAG OR (mbox_flags m AND NOT MBOX_TIER_MASK) OR t\<rparr>) s = s"
    unfolding upd_mbox_def get_mbox_def by (simp only: list_update_id) simp
  with True show ?thesis by (simp add: publish_running_tier_def Let_def)
next
  case False
  then show ?thesis by (simp add: publish_running_tier_def upd_mbox_def get_mbox_def Let_def)
qed

lemma switch_step_run:
  "task_ctx s p = Some c \<Longrightarrow> switch_step R (Run cpu now p) s = switch_effect R (Run cpu now p) c s"
  by (simp add: imperator_running_def switch_effect_def Let_def tier_of_running put_ctx_def
      count_stat_def publish_running_tier_upd upd_mbox_def set_tier_cpu_def get_local_stats_def
      and_3_id ctx_tier_less fun_upd_def del: idx_GET_TIER)

lemma switch_step_stop:
  "task_ctx s p = Some c \<Longrightarrow>
   switch_step R (Stop cpu now now2 p runnable) s = switch_effect R (Stop cpu now now2 p runnable) c s"
  by (auto simp: imperator_stopping_def switch_effect_def Let_def tier_of_running put_ctx_def
      clear_tier_cpu_def and_3_id ctx_tier_less fun_upd_idem simp del: idx_GET_TIER)

lemma switch_step_none: "task_ctx s (switch_task e) = None \<Longrightarrow> switch_step R e s = s"
  by (cases e) (simp_all add: imperator_running_def imperator_stopping_def)

lemma switch_step_effect:
  "switch_step R e s = (case task_ctx s (switch_task e) of None \<Rightarrow> s | Some c \<Rightarrow> switch_effect R e c s)"
  by (cases e)
     (auto simp: switch_step_run switch_step_stop switch_step_none
        simp del: switch_step.simps split: option.splits)

section \<open>Switches of different CPUs commute\<close>

lemma switch_cpu_less: "unat (switch_cpu e) < 64"
  by (cases e) (simp_all add: unat_and_63)

fun switch_bit :: "switch \<Rightarrow> imperator_task_ctx \<Rightarrow> bool \<Rightarrow> bool" where
  \<comment> \<open>the new value of the CPU's own bit\<close>
  "switch_bit (Run cpu now p) c old = True"
| "switch_bit (Stop cpu now now2 p runnable) c old \<longleftrightarrow> last_run_at c = 0 \<and> old"

lemma bit_switch_mask:
  "bit (switch_mask e c w) n
   \<longleftrightarrow> (if n = unat (switch_cpu e) then switch_bit e c (bit w n) else bit w n)"
  by (cases e) (use bit_imp_le_length [of w n] in \<open>auto simp: bit_simps bit_cpu_bit unat_and_63\<close>)

lemma switch_mask_commute:
  "switch_cpu a \<noteq> switch_cpu b \<Longrightarrow> switch_mask a c (switch_mask b d w) = switch_mask b d (switch_mask a c w)"
  by (rule bit_word_eqI) (auto simp: bit_switch_mask word_unat_eq_iff)

lemma nth_update_commute:
  assumes "i \<noteq> j \<or> (\<forall>x. f (g x) = g (f x))"
  shows "(xs[i := f (xs ! i)])[j := g (xs[i := f (xs ! i)] ! j)]
         = (xs[j := g (xs ! j)])[i := f (xs[j := g (xs ! j)] ! i)]"
proof (cases "i = j")
  case True
  with assms show ?thesis by (cases "j < length xs") (simp_all add: list_update_beyond)
next
  case False
  then show ?thesis by (simp add: list_update_swap)
qed

lemma switch_effect_commute:
  assumes "independent a b"
  shows "switch_effect R a c (switch_effect R b d s) = switch_effect R b d (switch_effect R a c s)"
proof -
  have ne: "unat (switch_cpu a) \<noteq> unat (switch_cpu b)" "switch_task a \<noteq> switch_task b"
    using assms by (simp_all add: independent_def word_unat_eq_iff)
  have mask: "\<forall>w. switch_mask a c (switch_mask b d w) = switch_mask b d (switch_mask a c w)"
    using assms by (auto simp: independent_def intro: switch_mask_commute)
  show ?thesis
    unfolding switch_effect_def Let_def
    using ne nth_update_commute [OF disjI2, OF mask, of "tier_cpu_mask s" "unat (ctx_tier c)" "unat (ctx_tier d)"]
      nth_update_commute [OF disjI1, OF ne(1), of "global_stats s" "switch_stat R a c" "switch_stat R b d"]
      nth_update_commute [OF disjI1, OF ne(1), of "mega_mailbox s" "switch_mbox a c" "switch_mbox b d"]
    by (simp add: fun_upd_twist)
qed

lemma switch_step_commute:
  assumes "independent a b"
  shows "switch_step R a (switch_step R b s) = switch_step R b (switch_step R a s)"
proof -
  have ctx: "task_ctx (switch_effect R e c s) p = task_ctx s p" if "p \<noteq> switch_task e" for e c s p
    using that by (simp add: switch_effect_def Let_def)
  have "switch_task a \<noteq> switch_task b" using assms by (simp add: independent_def)
  then show ?thesis
    by (simp add: switch_step_effect ctx switch_effect_commute [OF assms] split: option.split)
qed

section \<open>Orders of execution\<close>

text \<open>
  Two sequences of switches are equivalent when one becomes the other by swapping neighbours that
  belong to different CPUs and different tasks: what each CPU does, and what happens to each task,
  keeps its order.
\<close>

inductive same_orders :: "switch list \<Rightarrow> switch list \<Rightarrow> bool" where
  refl: "same_orders es es"
| swap: "same_orders es (xs @ a # b # ys) \<Longrightarrow> independent a b \<Longrightarrow> same_orders es (xs @ b # a # ys)"

text \<open>
  The interleaving of context switches on different CPUs is immaterial: any two orders that
  agree on the sequence of every CPU and of every task lead to the same contexts, mailboxes,
  statistics and tier masks, although all CPUs write the same words of \<open>tier_cpu_mask\<close>.
\<close>

theorem switch_order_immaterial:
  assumes "same_orders es es'"
  shows "fold (switch_step R) es' s = fold (switch_step R) es s"
  using assms
proof induction
  case (swap es xs a b ys)
  then show ?case by (simp add: switch_step_commute [OF swap.hyps(2)])
qed simp


theorem switch_order_immaterial_witness:
  "fold (switch_step rodata_default) [Stop 1 50 60 8 True, Run 0 40 7] bss_zero
   = fold (switch_step rodata_default) [Run 0 40 7, Stop 1 50 60 8 True] bss_zero"
proof (rule switch_order_immaterial)
  have "same_orders [Run 0 40 7, Stop 1 50 60 8 True] ([] @ Run 0 40 7 # Stop 1 50 60 8 True # [])"
    by (simp add: same_orders.refl)
  from same_orders.swap [OF this]
  show "same_orders [Run 0 40 7, Stop 1 50 60 8 True] [Stop 1 50 60 8 True, Run 0 40 7]"
    by (simp add: independent_def)
qed

end
