(* ===== verification/Local_Handlers.thy ===== *)
theory Local_Handlers
  imports Concurrency System "HOL-Library.Multiset"
begin

text \<open>
  The interleaving of whole handlers on different CPUs. Every handler touches the context of at most one
  task and the mailbox, statistics and scratch area of its own CPU. Beyond these, context switches write
  bits of the mask words, enqueue reads the masks and sets a flag, and dispatch reads and clears flags; tick,
  CPU selection and the futex probes touch no shared word. From these footprints follows which
  handlers of different CPUs commute, up to the order in which their calls reach the kernel.
\<close>

section \<open>Changes by another CPU\<close>

definition patch :: "nat \<Rightarrow> tid \<Rightarrow> imperator_task_ctx option \<Rightarrow> mega_mailbox_entry \<Rightarrow> imperator_stats \<Rightarrow> bool \<Rightarrow> sched \<Rightarrow> sched" where
  \<comment> \<open>what a handler of CPU \<open>j\<close> for task \<open>q\<close> may leave behind\<close>
  "patch j q x m st d s = s\<lparr>task_ctx := (task_ctx s)(q := x), mega_mailbox := (mega_mailbox s)[j := m],
     global_stats := (global_stats s)[j := st], dummy_idle := (dummy_idle s)[j := d]\<rparr>"

definition log_calls :: "kcall list \<Rightarrow> sched \<Rightarrow> sched" where
  \<comment> \<open>a longer history of calls\<close>
  "log_calls ks s = s\<lparr>kcalls := ks @ kcalls s\<rparr>"

definition set_shared :: "u64 list \<Rightarrow> u8 list \<Rightarrow> sched \<Rightarrow> sched" where
  \<comment> \<open>other values of the words all CPUs share\<close>
  "set_shared w fl s = s\<lparr>tier_cpu_mask := w, llc_nonempty := fl\<rparr>"

definition confined :: "nat \<Rightarrow> tid \<Rightarrow> sched \<Rightarrow> sched \<Rightarrow> bool" where
  \<comment> \<open>from \<open>s\<close> to \<open>s'\<close> only the CPU's and the task's own data and the log changed\<close>
  "confined j q s s' \<longleftrightarrow> (\<exists>x m st d ks. s' = (patch j q x m st d s)\<lparr>kcalls := kcalls s @ ks\<rparr>)"

locale cpu_handler =
  fixes i :: nat and p :: tid and h :: "sched \<Rightarrow> sched"
  assumes effect: "\<exists>w fl s'. confined i p s s' \<and> h s = set_shared w fl s'"
    and patch: "i \<noteq> j \<Longrightarrow> p \<noteq> q \<Longrightarrow> h (patch j q x m st d s) = patch j q x m st d (h s)"
    and logged: "h (log_calls ks s) = log_calls ks (h s)"

locale shared_free_handler = cpu_handler +
  assumes masks: "h (set_shared w fl s) = set_shared w fl (h s)"

subsection \<open>Algebra of the changes\<close>

lemma patch_sel [simp]:
  "kcalls (patch j q x m st d s) = kcalls s" "tier_cpu_mask (patch j q x m st d s) = tier_cpu_mask s"
  "llc_nonempty (patch j q x m st d s) = llc_nonempty s" "llc_cpu_mask (patch j q x m st d s) = llc_cpu_mask s"
  "p \<noteq> q \<Longrightarrow> task_ctx (patch j q x m st d s) p = task_ctx s p"
  "unat cpu \<noteq> j \<Longrightarrow> get_mbox cpu (patch j q x m st d s) = get_mbox cpu s"
  "i \<noteq> j \<Longrightarrow> dummy_idle (patch j q x m st d s) ! i = dummy_idle s ! i"
  by (simp_all add: patch_def get_mbox_def)

lemma log_calls_sel [simp]:
  "task_ctx (log_calls ks s) = task_ctx s" "get_mbox cpu (log_calls ks s) = get_mbox cpu s"
  "dummy_idle (log_calls ks s) = dummy_idle s" "kcalls (log_calls ks s) = ks @ kcalls s"
  "tier_cpu_mask (log_calls ks s) = tier_cpu_mask s" "llc_nonempty (log_calls ks s) = llc_nonempty s"
  by (simp_all add: log_calls_def get_mbox_def)

lemma set_masks_sel [simp]:
  "task_ctx (set_shared w fl s) = task_ctx s" "get_mbox cpu (set_shared w fl s) = get_mbox cpu s"
  "dummy_idle (set_shared w fl s) = dummy_idle s" "kcalls (set_shared w fl s) = kcalls s" "tier_cpu_mask (set_shared w fl s) = w" "llc_nonempty (set_shared w fl s) = fl"
  by (simp_all add: set_shared_def get_mbox_def)

lemma patch_commute:
  "i \<noteq> j \<Longrightarrow> p \<noteq> q \<Longrightarrow>
   patch i p x m st d (patch j q x' m' st' d' s) = patch j q x' m' st' d' (patch i p x m st d s)"
  by (simp add: patch_def list_update_swap fun_upd_twist)

lemma patch_log: "patch j q x m st d (log_calls ks s) = log_calls ks (patch j q x m st d s)"
  by (simp add: patch_def log_calls_def)

lemma patch_masks: "patch j q x m st d (set_shared w fl s) = set_shared w fl (patch j q x m st d s)"
  by (simp add: patch_def set_shared_def)

lemma log_masks: "log_calls ks (set_shared w fl s) = set_shared w fl (log_calls ks s)"
  by (simp add: log_calls_def set_shared_def)

lemma masks_id [simp]: "set_shared (tier_cpu_mask s) (llc_nonempty s) s = s" "set_shared w fl (set_shared v fm s) = set_shared w fl s"
  by (simp_all add: set_shared_def)

lemma log_log [simp]: "log_calls ks (log_calls ls s) = log_calls (ks @ ls) s"
  by (simp add: log_calls_def)

lemma log_base: "s = log_calls (kcalls s) (s\<lparr>kcalls := []\<rparr>)"
  by (simp add: log_calls_def)

lemma confined_refl: "confined i p s s"
  unfolding confined_def patch_def
  by (rule exI [of _ "task_ctx s p"], rule exI [of _ "mega_mailbox s ! i"], rule exI [of _ "global_stats s ! i"],
      rule exI [of _ "dummy_idle s ! i"], rule exI [of _ "[]"]) simp

lemma confined_trans:
  assumes "confined i p s t" "confined i p t u"
  shows "confined i p s u"
proof -
  obtain x m st d ks where t: "t = (patch i p x m st d s)\<lparr>kcalls := kcalls s @ ks\<rparr>"
    using assms(1) by (auto simp: confined_def)
  obtain x' m' st' d' ks' where u: "u = (patch i p x' m' st' d' t)\<lparr>kcalls := kcalls t @ ks'\<rparr>"
    using assms(2) by (auto simp: confined_def)
  have "u = (patch i p x' m' st' d' s)\<lparr>kcalls := kcalls s @ (ks @ ks')\<rparr>"
    by (simp add: u t patch_def)
  then show ?thesis unfolding confined_def by blast
qed

lemma confined_base:
  "confined i p s s' \<Longrightarrow> kcalls s = [] \<Longrightarrow> \<exists>x m st d ks. s' = log_calls ks (patch i p x m st d s)"
  by (auto simp: confined_def log_calls_def patch_def)

section \<open>Handlers of different CPUs commute\<close>

lemma log_kcalls: "kcalls s = [] \<Longrightarrow> log_calls ks s = s\<lparr>kcalls := ks\<rparr>"
  by (simp add: log_calls_def)

lemma cpu_effect:
  assumes "cpu_handler j q g" "kcalls s = []"
  obtains w fl x m st d ks where "g s = set_shared w fl (log_calls ks (patch j q x m st d s))"
  using cpu_handler.effect [OF assms(1), of s] confined_base [OF _ assms(2)] by blast

lemma shared_free_effect:
  assumes "shared_free_handler i p f" "kcalls s = []"
  obtains x m st d ks where "f s = log_calls ks (patch i p x m st d s)"
proof -
  obtain w fl x m st d ks where f: "f s = set_shared w fl (log_calls ks (patch i p x m st d s))"
    using cpu_effect [OF shared_free_handler.axioms(1) [OF assms(1)] assms(2)] .
  have "f s = set_shared (tier_cpu_mask s) (llc_nonempty s) (f s)"
    using shared_free_handler.masks [OF assms(1), of "tier_cpu_mask s" "llc_nonempty s" s] by simp
  also have "\<dots> = set_shared (tier_cpu_mask s) (llc_nonempty s) (log_calls ks (patch i p x m st d s))"
    by (simp add: f)
  also have "\<dots> = log_calls ks (patch i p x m st d s)"
    using masks_id(1) [of "log_calls ks (patch i p x m st d s)"] by simp
  finally show thesis by (rule that)
qed

lemma handlers_commute:
  assumes a: "shared_free_handler i p f" and b: "cpu_handler j q g" and ne: "i \<noteq> j" "p \<noteq> q"
  shows "\<exists>ks ls t. f (g s) = t\<lparr>kcalls := kcalls s @ ls @ ks\<rparr> \<and> g (f s) = t\<lparr>kcalls := kcalls s @ ks @ ls\<rparr>"
proof -
  define s0 where "s0 = s\<lparr>kcalls := []\<rparr>"
  have s: "s = log_calls (kcalls s) s0" and k0: "kcalls s0 = []"
    by (simp_all add: s0_def log_base [symmetric])
  note a' = shared_free_handler.axioms(1) [OF a]
  obtain x m st d ks where f: "f s0 = log_calls ks (patch i p x m st d s0)"
    using shared_free_effect [OF a k0] .
  obtain w fl x' m' st' d' ls where g: "g s0 = set_shared w fl (log_calls ls (patch j q x' m' st' d' s0))"
    using cpu_effect [OF b k0] .
  define t where "t = set_shared w fl (patch i p x m st d (patch j q x' m' st' d' s0))"
  have t0: "kcalls t = []" by (simp add: t_def k0)
  have fg: "f (g s0) = log_calls (ls @ ks) t"
    by (simp add: g shared_free_handler.masks [OF a] cpu_handler.logged [OF a'] cpu_handler.patch [OF a' ne] f
        patch_log log_masks t_def patch_commute [OF ne])
  have gf: "g (f s0) = log_calls (ks @ ls) t"
    by (simp add: f cpu_handler.logged [OF b] cpu_handler.patch [OF b ne [symmetric]] g patch_log patch_masks log_masks t_def)
  have "f (g s) = log_calls (kcalls s @ ls @ ks) t"
    by (subst s) (simp add: cpu_handler.logged [OF b] cpu_handler.logged [OF a'] fg)
  moreover have "g (f s) = log_calls (kcalls s @ ks @ ls) t"
    by (subst s) (simp add: cpu_handler.logged [OF b] cpu_handler.logged [OF a'] gf)
  ultimately show ?thesis by (auto simp: log_kcalls [OF t0])
qed

section \<open>Context switches\<close>

lemma switch_confined: "\<exists>w fl s'. confined (unat (switch_cpu e)) (switch_task e) s s' \<and> switch_step R e s = set_shared w fl s'"
proof (cases "task_ctx s (switch_task e)")
  case None
  then show ?thesis
    using switch_step_none [OF None] confined_refl by (intro exI [of _ "tier_cpu_mask s"] exI [of _ "llc_nonempty s"] exI [of _ s]) simp
next
  case (Some c)
  let ?i = "unat (switch_cpu e)"
  let ?s' = "patch ?i (switch_task e) (Some (switch_ctx R e c)) (switch_mbox e c (mega_mailbox s ! ?i))
      (switch_stat R e c (global_stats s ! ?i)) (dummy_idle s ! ?i) s"
  have "switch_step R e s = set_shared (tier_cpu_mask (switch_step R e s)) (llc_nonempty s) ?s'"
    by (simp add: switch_step_effect Some switch_effect_def Let_def patch_def set_shared_def)
  moreover have "?s' = ?s'\<lparr>kcalls := kcalls s @ []\<rparr>" by (simp add: patch_def)
  then have "confined ?i (switch_task e) s ?s'" unfolding confined_def by blast
  ultimately show ?thesis by blast
qed

lemma switch_effect_patch:
  assumes "unat (switch_cpu e) \<noteq> j" "switch_task e \<noteq> q"
  shows "switch_effect R e c (patch j q x m st d s) = patch j q x m st d (switch_effect R e c s)"
  using assms by (simp add: switch_effect_def patch_def Let_def list_update_swap fun_upd_twist)

interpretation switch_handler: cpu_handler "unat (switch_cpu e)" "switch_task e" "switch_step R e" for R e
proof
  show "switch_step R e (patch j q x m st d s) = patch j q x m st d (switch_step R e s)"
    if "unat (switch_cpu e) \<noteq> j" "switch_task e \<noteq> q" for j q x m st d s
    using that by (simp add: switch_step_effect switch_effect_patch split: option.split)
  show "switch_step R e (log_calls ks s) = log_calls ks (switch_step R e s)" for ks s
    by (simp add: switch_step_effect switch_effect_def Let_def log_calls_def split: option.split)
qed (rule switch_confined)

section \<open>The blocks of the handlers\<close>

lemma block_patch:
  assumes "unat cpu \<noteq> j" "p \<noteq> q"
  shows "upd_mbox cpu f (patch j q x m st d s) = patch j q x m st d (upd_mbox cpu f s)"
    "emit k (patch j q x m st d s) = patch j q x m st d (emit k s)"
    "put_ctx p c (patch j q x m st d s) = patch j q x m st d (put_ctx p c s)"
    "upd_ctx p g (patch j q x m st d s) = patch j q x m st d (upd_ctx p g s)"
  using assms
  by (simp_all add: upd_mbox_def patch_def emit_def put_ctx_def upd_ctx_def list_update_swap fun_upd_twist)

lemma count_patch:
  "get_local_stats smp \<noteq> j \<Longrightarrow> count_stat R smp f (patch j q x m st d s) = patch j q x m st d (count_stat R smp f s)"
  by (simp add: count_stat_def patch_def list_update_swap)

lemma block_log:
  "upd_mbox cpu f (log_calls ks s) = log_calls ks (upd_mbox cpu f s)"
  "emit k (log_calls ks s) = log_calls ks (emit k s)"
  "put_ctx p c (log_calls ks s) = log_calls ks (put_ctx p c s)"
  "upd_ctx p g (log_calls ks s) = log_calls ks (upd_ctx p g s)"
  "count_stat R smp fs (log_calls ks s) = log_calls ks (count_stat R smp fs s)"
  by (simp_all add: upd_mbox_def log_calls_def emit_def put_ctx_def upd_ctx_def count_stat_def)

lemma block_masks:
  "upd_mbox cpu f (set_shared w fl s) = set_shared w fl (upd_mbox cpu f s)"
  "emit k (set_shared w fl s) = set_shared w fl (emit k s)"
  "put_ctx p c (set_shared w fl s) = set_shared w fl (put_ctx p c s)"
  "upd_ctx p g (set_shared w fl s) = set_shared w fl (upd_ctx p g s)"
  "count_stat R smp fs (set_shared w fl s) = set_shared w fl (count_stat R smp fs s)"
  by (simp_all add: upd_mbox_def set_shared_def emit_def put_ctx_def upd_ctx_def count_stat_def)

lemma confinedI:
  assumes "s' = s\<lparr>task_ctx := (task_ctx s)(p := x), mega_mailbox := (mega_mailbox s)[i := m],
     global_stats := (global_stats s)[i := st], dummy_idle := (dummy_idle s)[i := d], kcalls := kcalls s @ ks\<rparr>"
  shows "confined i p s s'"
proof -
  have "s' = (patch i p x m st d s)\<lparr>kcalls := kcalls s @ ks\<rparr>" using assms by (simp add: patch_def)
  then show ?thesis unfolding confined_def by blast
qed

lemma block_confined:
  "confined (unat cpu) p s (upd_mbox cpu f s)" "confined i p s (emit k s)" "confined i p s (put_ctx p c s)"
  "confined i p s (upd_ctx p g s)" "confined (get_local_stats smp) p s (count_stat R smp fs s)"
  "confined i p s (s\<lparr>dummy_idle := (dummy_idle s)[i := d]\<rparr>)"
proof -
  note keep = fun_upd_triv list_update_id append_Nil2
  show "confined (unat cpu) p s (upd_mbox cpu f s)"
    by (rule confinedI [where x = "task_ctx s p" and st = "global_stats s ! unat cpu" and d = "dummy_idle s ! unat cpu" and ks = "[]"])
       (simp add: upd_mbox_def)
  show "confined i p s (emit k s)"
    by (rule confinedI [where x = "task_ctx s p" and m = "mega_mailbox s ! i" and st = "global_stats s ! i" and d = "dummy_idle s ! i"])
       (simp add: emit_def)
  show "confined i p s (put_ctx p c s)"
    by (rule confinedI [where m = "mega_mailbox s ! i" and st = "global_stats s ! i" and d = "dummy_idle s ! i" and ks = "[]"])
       (simp add: put_ctx_def)
  show "confined i p s (upd_ctx p g s)"
    by (rule confinedI [where m = "mega_mailbox s ! i" and st = "global_stats s ! i" and d = "dummy_idle s ! i" and ks = "[]"])
       (simp add: upd_ctx_def)
  let ?l = "get_local_stats smp"
  show "confined ?l p s (count_stat R smp fs s)"
  proof (cases "enable_stats R")
    case True
    then show ?thesis
      by (intro confinedI [where x = "task_ctx s p" and m = "mega_mailbox s ! ?l" and d = "dummy_idle s ! ?l" and ks = "[]"])
         (simp add: count_stat_def)
  qed (simp add: count_stat_def confined_refl)
  show "confined i p s (s\<lparr>dummy_idle := (dummy_idle s)[i := d]\<rparr>)"
    by (rule confinedI [where x = "task_ctx s p" and m = "mega_mailbox s ! i" and st = "global_stats s ! i" and ks = "[]"]) simp
qed

text \<open>The same for the blocks of the tick.\<close>

lemma tick_block_patch:
  assumes "unat cpu \<noteq> j" "p \<noteq> q"
  shows "publish_tick_tier cpu t (patch j q x m st d s) = patch j q x m st d (publish_tick_tier cpu t s)"
    "request_perf cpu u (patch j q x m st d s) = patch j q x m st d (request_perf cpu u s)"
    "set_tick_counter cpu v (patch j q x m st d s) = patch j q x m st d (set_tick_counter cpu v s)"
  using assms
  by (auto simp: publish_tick_tier_def request_perf_def set_tick_counter_def Let_def block_patch [OF assms])

lemma tick_block_log:
  "publish_tick_tier cpu t (log_calls ks s) = log_calls ks (publish_tick_tier cpu t s)"
  "request_perf cpu u (log_calls ks s) = log_calls ks (request_perf cpu u s)"
  "set_tick_counter cpu v (log_calls ks s) = log_calls ks (set_tick_counter cpu v s)"
  by (auto simp: publish_tick_tier_def request_perf_def set_tick_counter_def Let_def block_log)

lemma tick_block_masks:
  "publish_tick_tier cpu t (set_shared w fl s) = set_shared w fl (publish_tick_tier cpu t s)"
  "request_perf cpu u (set_shared w fl s) = set_shared w fl (request_perf cpu u s)"
  "set_tick_counter cpu v (set_shared w fl s) = set_shared w fl (set_tick_counter cpu v s)"
  by (auto simp: publish_tick_tier_def request_perf_def set_tick_counter_def Let_def block_masks)

lemma tick_block_confined:
  "confined (unat cpu) p s (publish_tick_tier cpu t s)" "confined (unat cpu) p s (request_perf cpu u s)"
  "confined (unat cpu) p s (set_tick_counter cpu v s)"
proof -
  show "confined (unat cpu) p s (publish_tick_tier cpu t s)"
    by (simp add: publish_tick_tier_def Let_def confined_refl block_confined)
  show "confined (unat cpu) p s (request_perf cpu u s)"
    unfolding request_perf_def Let_def
    by (simp add: confined_refl confined_trans [OF block_confined(2) block_confined(1)])
  show "confined (unat cpu) p s (set_tick_counter cpu v s)"
    by (simp add: set_tick_counter_def block_confined)
qed

text \<open>The last block of a state decides; the rest is confined by itself.\<close>

lemma confined_intros:
  assumes "confined i p s s'"
  shows "confined i p s (emit k s')" "confined i p s (put_ctx p c s')" "confined i p s (upd_ctx p g s')"
    "get_local_stats smp = i \<Longrightarrow> confined i p s (count_stat R smp fs s')"
    "unat cpu = i \<Longrightarrow> confined i p s (publish_tick_tier cpu t s')"
    "unat cpu = i \<Longrightarrow> confined i p s (request_perf cpu u s')"
    "unat cpu = i \<Longrightarrow> confined i p s (set_tick_counter cpu v s')"
  using confined_trans [OF assms block_confined(2)] confined_trans [OF assms block_confined(3)]
    confined_trans [OF assms block_confined(4)] confined_trans [OF assms, of "count_stat R smp fs s'"]
    confined_trans [OF assms, of "publish_tick_tier cpu t s'"] confined_trans [OF assms, of "request_perf cpu u s'"]
    confined_trans [OF assms, of "set_tick_counter cpu v s'"]
    block_confined(5) [of smp p s' R fs] tick_block_confined [of cpu p s']
  by simp_all

lemma stats_index: "unat (smp AND 63) = get_local_stats smp"
  by (simp add: get_local_stats_def)

lemma preempt_block:
  assumes "get_local_stats smp = unat cpu"
  shows "unat cpu \<noteq> j \<Longrightarrow> p \<noteq> q \<Longrightarrow>
      starvation_preempt R K smp cpu t (patch j q x m st d s) = patch j q x m st d (starvation_preempt R K smp cpu t s)"
    "starvation_preempt R K smp cpu t (log_calls ks s) = log_calls ks (starvation_preempt R K smp cpu t s)"
    "starvation_preempt R K smp cpu t (set_shared w fl s) = set_shared w fl (starvation_preempt R K smp cpu t s)"
    "confined (unat cpu) p s (starvation_preempt R K smp cpu t s)"
proof -
  show "starvation_preempt R K smp cpu t (patch j q x m st d s) = patch j q x m st d (starvation_preempt R K smp cpu t s)"
    if "unat cpu \<noteq> j" "p \<noteq> q"
    using assms that by (auto simp: starvation_preempt_def Let_def block_patch [OF that] tick_block_patch [OF that] count_patch)
  show "starvation_preempt R K smp cpu t (log_calls ks s) = log_calls ks (starvation_preempt R K smp cpu t s)"
    "starvation_preempt R K smp cpu t (set_shared w fl s) = set_shared w fl (starvation_preempt R K smp cpu t s)"
    by (auto simp: starvation_preempt_def Let_def block_log tick_block_log block_masks tick_block_masks)
  show "confined (unat cpu) p s (starvation_preempt R K smp cpu t s)"
    using assms by (auto simp: starvation_preempt_def Let_def intro!: confined_intros confined_refl)
qed

lemma dvfs_block:
  "unat cpu \<noteq> j \<Longrightarrow> p \<noteq> q \<Longrightarrow> mailbox_dvfs_max K cpu t (patch j q x m st d s) = patch j q x m st d (mailbox_dvfs_max K cpu t s)"
  "unat cpu \<noteq> j \<Longrightarrow> p \<noteq> q \<Longrightarrow> mailbox_dvfs R cap cpu t (patch j q x m st d s) = patch j q x m st d (mailbox_dvfs R cap cpu t s)"
  "mailbox_dvfs_max K cpu t (log_calls ks s) = log_calls ks (mailbox_dvfs_max K cpu t s)"
  "mailbox_dvfs R cap cpu t (log_calls ks s) = log_calls ks (mailbox_dvfs R cap cpu t s)"
  "mailbox_dvfs_max K cpu t (set_shared w fl s) = set_shared w fl (mailbox_dvfs_max K cpu t s)"
  "mailbox_dvfs R cap cpu t (set_shared w fl s) = set_shared w fl (mailbox_dvfs R cap cpu t s)"
  "confined (unat cpu) p s (mailbox_dvfs_max K cpu t s)" "confined (unat cpu) p s (mailbox_dvfs R cap cpu t s)"
  by (simp_all add: mailbox_dvfs_max_def mailbox_dvfs_def Let_def tick_block_patch tick_block_log tick_block_masks
      confined_trans [OF tick_block_confined(1) tick_block_confined(2)])

section \<open>Tick\<close>

lemma phase2_block:
  assumes "get_local_stats (in_smp_id inp) = unat cpu"
  shows "unat cpu \<noteq> j \<Longrightarrow> p \<noteq> q \<Longrightarrow>
      after_phase2 R K cap cpu t (tick_phase2 R K inp p c cpu t rt (patch j q x m st d s))
      = patch j q x m st d (after_phase2 R K cap cpu t (tick_phase2 R K inp p c cpu t rt s))"
    "after_phase2 R K cap cpu t (tick_phase2 R K inp p c cpu t rt (log_calls ks s))
      = log_calls ks (after_phase2 R K cap cpu t (tick_phase2 R K inp p c cpu t rt s))"
    "after_phase2 R K cap cpu t (tick_phase2 R K inp p c cpu t rt (set_shared w fl s))
      = set_shared w fl (after_phase2 R K cap cpu t (tick_phase2 R K inp p c cpu t rt s))"
    "confined (unat cpu) p s (after_phase2 R K cap cpu t (tick_phase2 R K inp p c cpu t rt s))"
proof -
  show "after_phase2 R K cap cpu t (tick_phase2 R K inp p c cpu t rt (patch j q x m st d s))
      = patch j q x m st d (after_phase2 R K cap cpu t (tick_phase2 R K inp p c cpu t rt s))"
    if ne: "unat cpu \<noteq> j" "p \<noteq> q"
    using assms ne(1)
    by (simp add: after_phase2_def tick_phase2_def Let_def ne dvfs_block(1,2) [OF ne] preempt_block(1) [OF assms ne]
        tick_block_patch [OF ne] block_patch [OF ne] count_patch split: option.split)
  show "after_phase2 R K cap cpu t (tick_phase2 R K inp p c cpu t rt (log_calls ks s))
      = log_calls ks (after_phase2 R K cap cpu t (tick_phase2 R K inp p c cpu t rt s))"
    by (simp add: after_phase2_def tick_phase2_def Let_def dvfs_block preempt_block(2) [OF assms]
        tick_block_log block_log split: option.split)
  show "after_phase2 R K cap cpu t (tick_phase2 R K inp p c cpu t rt (set_shared w fl s))
      = set_shared w fl (after_phase2 R K cap cpu t (tick_phase2 R K inp p c cpu t rt s))"
    by (simp add: after_phase2_def tick_phase2_def Let_def dvfs_block preempt_block(3) [OF assms]
        tick_block_masks block_masks split: option.split)
  have more: "confined (unat cpu) p s (starvation_preempt R K (in_smp_id inp) cpu t s')"
      "confined (unat cpu) p s (mailbox_dvfs_max K cpu t s')" "confined (unat cpu) p s (mailbox_dvfs R cap cpu t s')"
    if "confined (unat cpu) p s s'" for s'
    using confined_trans [OF that preempt_block(4) [OF assms]] confined_trans [OF that dvfs_block(7)]
      confined_trans [OF that dvfs_block(8)] by blast+
  show "confined (unat cpu) p s (after_phase2 R K cap cpu t (tick_phase2 R K inp p c cpu t rt s))"
    unfolding after_phase2_def tick_phase2_def Let_def
    by (simp add: more confined_intros confined_refl assms split: option.split)
qed

lemma tick_eq:
  "imperator_tick R K inp p s =
    (let cpu = in_smp_id inp AND 63 in
     case task_ctx s p of None \<Rightarrow> s
     | Some c \<Rightarrow> if last_run_at c = 0 then put_ctx p (c\<lparr>last_run_at := ucast (in_now inp)\<rparr>) s
         else if expired R K inp c then slice_expiry_kick K cpu (ctx_tier c) s
         else after_phase2 R K (in_cpuperf_cap inp) cpu (ctx_tier c) (tick_phase2 R K inp p c cpu (ctx_tier c)
             (ucast ((ucast (in_now inp) :: u32) - last_run_at c)) s))"
  by (auto simp: tick_unstamped imperator_tick_eq Let_def after_phase2_def split: option.split)

interpretation tick_local: shared_free_handler "get_local_stats (in_smp_id inp)" p "imperator_tick R K inp p" for R K inp p
proof
  let ?cpu = "in_smp_id inp AND 63"
  have i: "get_local_stats (in_smp_id inp) = unat ?cpu" by (simp add: get_local_stats_def)
  show "\<exists>w fl s'. confined (get_local_stats (in_smp_id inp)) p s s' \<and> imperator_tick R K inp p s = set_shared w fl s'" for s
  proof -
    have "confined (unat ?cpu) p s (imperator_tick R K inp p s)"
      unfolding tick_eq Let_def
      using phase2_block(4) [OF i] by (auto simp: slice_expiry_kick_def intro!: confined_intros confined_refl split: option.split)
    then show ?thesis using masks_id(1) [of "imperator_tick R K inp p s"] i by metis
  qed
  show "imperator_tick R K inp p (patch j q x m st d s) = patch j q x m st d (imperator_tick R K inp p s)"
    if "get_local_stats (in_smp_id inp) \<noteq> j" "p \<noteq> q" for j q x m st d s
  proof -
    have ne: "unat ?cpu \<noteq> j" "p \<noteq> q" using that i by simp_all
    show ?thesis
      unfolding tick_eq Let_def
      by (simp add: ne phase2_block(1) [OF i ne] slice_expiry_kick_def block_patch [OF ne] tick_block_patch [OF ne] split: option.split)
  qed
  show "imperator_tick R K inp p (log_calls ks s) = log_calls ks (imperator_tick R K inp p s)" for ks s
    unfolding tick_eq Let_def
    by (simp add: phase2_block(2) [OF i] slice_expiry_kick_def block_log tick_block_log split: option.split)
  show "imperator_tick R K inp p (set_shared w fl s) = set_shared w fl (imperator_tick R K inp p s)" for w fl s
    unfolding tick_eq Let_def
    by (simp add: phase2_block(3) [OF i] slice_expiry_kick_def block_masks tick_block_masks split: option.split)
qed

section \<open>CPU selection and futex probes\<close>

definition scratch :: "nat \<Rightarrow> bool \<Rightarrow> sched \<Rightarrow> sched" where
  "scratch i d s = s\<lparr>dummy_idle := (dummy_idle s)[i := d]\<rparr>"

lemma scratch_block:
  "i \<noteq> j \<Longrightarrow> scratch i b (patch j q x m st d s) = patch j q x m st d (scratch i b s)"
  "scratch i b (log_calls ks s) = log_calls ks (scratch i b s)"
  "scratch i b (set_shared w fl s) = set_shared w fl (scratch i b s)"
  "confined i p s s' \<Longrightarrow> confined i p s (scratch i b s')"
  using confined_trans block_confined(6)
  by (simp_all add: scratch_def patch_def log_calls_def set_shared_def list_update_swap)

lemma scratch_sel [simp]: "task_ctx (scratch i b s) = task_ctx s"
  by (simp add: scratch_def)

definition consumed :: "rodata \<Rightarrow> u32 \<Rightarrow> tid \<Rightarrow> sched \<Rightarrow> sched" where
  \<comment> \<open>the state after \<open>consume_irq_wake_get_tier_slice\<close>\<close>
  "consumed R smp p s = (case task_ctx s p of None \<Rightarrow> s
     | Some c \<Rightarrow> if has_flag CAKE_FLOW_IRQ_WAKE (packed_info c)
         then count_stat R smp (\<lambda>st. st\<lparr>nr_irq_wake_boosts := nr_irq_wake_boosts st + 1\<rparr>) (put_ctx p (cleared c) s) else s)"

definition consumed_tier :: "rodata \<Rightarrow> imperator_task_ctx option \<Rightarrow> u8" where
  "consumed_tier R x = (case x of None \<Rightarrow> CAKE_TIER_INTERACT
     | Some c \<Rightarrow> if has_flag CAKE_FLOW_IRQ_WAKE (packed_info c) then CAKE_TIER_CRITICAL else ucast (CAKE_TIER_IDX (GET_TIER c)))"

definition consumed_slice :: "rodata \<Rightarrow> imperator_task_ctx option \<Rightarrow> u64" where
  "consumed_slice R x = (case x of None \<Rightarrow> quantum_ns R
     | Some c \<Rightarrow> if has_flag CAKE_FLOW_IRQ_WAKE (packed_info c)
         then drop_bit 10 (quantum_ns R * UNPACK_MULTIPLIER (tier_configs R ! unat (CAKE_TIER_IDX CAKE_TIER_CRITICAL))) else next_slice c)"

lemma consume_eq:
  "consume_irq_wake_get_tier_slice R smp p s = (consumed_tier R (task_ctx s p), consumed_slice R (task_ctx s p), consumed R smp p s)"
  by (auto simp: consume_irq_wake_get_tier_slice_def consumed_def consumed_tier_def consumed_slice_def cleared_def Let_def
      split: option.split)

lemma consumed_block:
  "get_local_stats smp \<noteq> j \<Longrightarrow> p \<noteq> q \<Longrightarrow> consumed R smp p (patch j q x m st d s) = patch j q x m st d (consumed R smp p s)"
  "consumed R smp p (log_calls ks s) = log_calls ks (consumed R smp p s)"
  "consumed R smp p (set_shared w fl s) = set_shared w fl (consumed R smp p s)"
  "confined (get_local_stats smp) p s s' \<Longrightarrow> confined (get_local_stats smp) p s (consumed R smp p s')"
proof -
  show "consumed R smp p (patch j q x m st d s) = patch j q x m st d (consumed R smp p s)"
    if "get_local_stats smp \<noteq> j" "p \<noteq> q"
  proof -
    have "put_ctx p c (patch j q x m st d u) = patch j q x m st d (put_ctx p c u)" for c u
      using that(2) by (simp add: put_ctx_def patch_def fun_upd_twist)
    then show ?thesis using that by (simp add: consumed_def count_patch split: option.split)
  qed
  show "consumed R smp p (log_calls ks s) = log_calls ks (consumed R smp p s)"
    "consumed R smp p (set_shared w fl s) = set_shared w fl (consumed R smp p s)"
    by (simp_all add: consumed_def block_log block_masks split: option.split)
  show "confined (get_local_stats smp) p s (consumed R smp p s')" if "confined (get_local_stats smp) p s s'"
    using that by (simp add: consumed_def confined_intros split: option.split)
qed

lemma select_eq:
  "snd (imperator_select_cpu R K inp t prev s) =
    (let i = get_local_stats (sel_smp_id inp); idle = snd (sel_dfl inp prev);
         s1 = scratch i idle (if irq_context K inp then mark_irq_wake (ts_id t) s else s)
     in if dummy_idle s1 ! i
        then count_stat R (sel_smp_id inp) (dispatch_stat True (consumed_tier R (task_ctx s1 (ts_id t))))
          (emit (Dsq_insert (ts_id t) (SCX_DSQ_LOCAL_ON K OR scast (steer_to_pcore R inp t (fst (sel_dfl inp prev))))
                  (consumed_slice R (task_ctx s1 (ts_id t))) 0)
             (consumed R (sel_smp_id inp) (ts_id t) s1))
        else s1)"
  by (simp add: imperator_select_cpu_def Let_def consume_eq scratch_def get_local_stats_def case_prod_unfold)

lemma mark_block:
  "p \<noteq> q \<Longrightarrow> mark_irq_wake p (patch j q x m st d s) = patch j q x m st d (mark_irq_wake p s)"
  "mark_irq_wake p (log_calls ks s) = log_calls ks (mark_irq_wake p s)"
  "mark_irq_wake p (set_shared w fl s) = set_shared w fl (mark_irq_wake p s)"
  "confined i p s s' \<Longrightarrow> confined i p s (mark_irq_wake p s')"
  by (simp_all add: mark_irq_wake_def block_log block_masks confined_intros)
     (simp add: upd_ctx_def patch_def fun_upd_twist)

interpretation select_local: shared_free_handler "get_local_stats (sel_smp_id inp)" "ts_id t"
    "\<lambda>s. snd (imperator_select_cpu R K inp t prev s)" for R K inp t prev
proof
  let ?i = "get_local_stats (sel_smp_id inp)" and ?p = "ts_id t"
  have emit_patch: "emit k (patch j q x m st d s) = patch j q x m st d (emit k s)" for k j q x m st d s
    by (simp add: emit_def patch_def)
  show "\<exists>w fl s'. confined ?i ?p s s' \<and> snd (imperator_select_cpu R K inp t prev s) = set_shared w fl s'" for s
  proof -
    have "confined ?i ?p s (snd (imperator_select_cpu R K inp t prev s))"
      unfolding select_eq Let_def
      by (auto intro!: confined_intros confined_refl consumed_block(4) scratch_block(4) mark_block(4))
    then show ?thesis using masks_id(1) [of "snd (imperator_select_cpu R K inp t prev s)"] by metis
  qed
  show "snd (imperator_select_cpu R K inp t prev (patch j q x m st d s))
      = patch j q x m st d (snd (imperator_select_cpu R K inp t prev s))"
    if ne: "?i \<noteq> j" "?p \<noteq> q" for j q x m st d s
    unfolding select_eq Let_def
    by (simp add: ne scratch_block(1) [OF ne(1)] mark_block(1) [OF ne(2)] consumed_block(1) [OF ne] count_patch [OF ne(1)] emit_patch)
  show "snd (imperator_select_cpu R K inp t prev (log_calls ks s)) = log_calls ks (snd (imperator_select_cpu R K inp t prev s))" for ks s
    unfolding select_eq Let_def by (simp add: scratch_block mark_block consumed_block block_log)
  show "snd (imperator_select_cpu R K inp t prev (set_shared w fl s)) = set_shared w fl (snd (imperator_select_cpu R K inp t prev s))" for w fl s
    unfolding select_eq Let_def by (simp add: scratch_block mark_block consumed_block block_masks)
qed

interpretation probe_local: shared_free_handler i p "upd_ctx p f" for i p f
proof
  show "\<exists>w fl s'. confined i p s s' \<and> upd_ctx p f s = set_shared w fl s'" for s
    using block_confined(4) masks_id(1) [of "upd_ctx p f s"] by metis
  show "upd_ctx p f (patch j q x m st d s) = patch j q x m st d (upd_ctx p f s)" if "i \<noteq> j" "p \<noteq> q" for j q x m st d s
    using that by (simp add: upd_ctx_def patch_def fun_upd_twist)
qed (simp_all add: block_log block_masks)

lemma upd_ctx_when: "\<exists>f. \<forall>s. (b \<longrightarrow> upd_ctx p g s = upd_ctx p f s) \<and> (\<not> b \<longrightarrow> s = upd_ctx p f s)"
proof (cases b)
  case False
  have "s = upd_ctx p (\<lambda>c. c) s" for s :: sched
    by (rule upd_ctx_id [symmetric]) simp
  with False show ?thesis by blast
qed auto

lemma lock_handler_ctx: "\<exists>f. lock_handler (Some p) e = upd_ctx p f"
  by (cases e)
     (auto simp: fun_eq_iff imperator_fexit_futex_wait_def imperator_fexit_futex_wait_requeue_pi_def
      imperator_fexit_futex_lock_pi_def imperator_fexit_futex_trylock_pi_def imperator_fexit_futex_wake_def
      imperator_fexit_futex_wake_op_def imperator_fexit_futex_unlock_pi_def imperator_tp_exit_futex_wait_def
      imperator_tp_exit_futex_wake_def set_lock_holder_eq clear_lock_holder_eq tp_enter_eq tp_exit_eq
      intro: upd_ctx_when)

lemma lock_handler_local: "shared_free_handler i p (lock_handler (Some p) e)"
  using lock_handler_ctx [of p e] probe_local.shared_free_handler_axioms by metis

section \<open>Enqueue and dispatch\<close>

text \<open>These two also read and write the flags, and enqueue reads the masks.\<close>

definition owned :: "nat \<Rightarrow> tid \<Rightarrow> sched \<Rightarrow> sched \<Rightarrow> bool" where
  "owned i p s s' \<longleftrightarrow> (\<exists>w fl u. confined i p s u \<and> s' = set_shared w fl u)"

lemma owned_refl: "owned i p s s"
  unfolding owned_def using confined_refl masks_id(1) by metis

lemma owned_intros:
  assumes "owned i p s s'"
  shows "owned i p s (emit k s')" "owned i p s (put_ctx p c s')"
    "get_local_stats smp = i \<Longrightarrow> owned i p s (count_stat R smp fs s')"
    "get_local_stats smp = i \<Longrightarrow> owned i p s (count_when b R smp fs s')"
    "owned i p s (llc_mark_nonempty l s')" "owned i p s (store_empty l s')"
proof -
  obtain w fl u where u: "confined i p s u" "s' = set_shared w fl u"
    using assms by (auto simp: owned_def)
  note k = confined_intros [OF u(1)]
  show "owned i p s (emit k s')" "owned i p s (put_ctx p c s')"
    unfolding u(2) block_masks owned_def using k(1,2) by blast+
  show c: "owned i p s (count_stat R smp fs s')" if "get_local_stats smp = i"
    unfolding u(2) block_masks owned_def using k(4) [OF that] by blast
  show "owned i p s (count_when b R smp fs s')" if "get_local_stats smp = i"
    using c [OF that] assms by (simp add: count_when_def)
  have "llc_mark_nonempty l s' = set_shared w (llc_nonempty (llc_mark_nonempty l s')) u"
    by (simp add: u(2) llc_mark_nonempty_def Let_def set_shared_def)
  then show "owned i p s (llc_mark_nonempty l s')" using u(1) unfolding owned_def by metis
  have "store_empty l s' = set_shared w (llc_nonempty (store_empty l s')) u"
    by (simp add: u(2) store_empty_def set_shared_def)
  then show "owned i p s (store_empty l s')" using u(1) unfolding owned_def by metis
qed

lemma flag_patch:
  "llc_mark_nonempty l (patch j q x m st d s) = patch j q x m st d (llc_mark_nonempty l s)"
  "store_empty l (patch j q x m st d s) = patch j q x m st d (store_empty l s)"
  "llc_etd_cost (patch j q x m st d s) = llc_etd_cost s"
  "emit k (patch j q x m st d s) = patch j q x m st d (emit k s)"
  by (simp_all add: llc_mark_nonempty_def store_empty_def patch_def Let_def emit_def)

lemma flag_log:
  "llc_mark_nonempty l (log_calls ks s) = log_calls ks (llc_mark_nonempty l s)"
  "store_empty l (log_calls ks s) = log_calls ks (store_empty l s)"
  "llc_etd_cost (log_calls ks s) = llc_etd_cost s"
  by (simp_all add: llc_mark_nonempty_def store_empty_def log_calls_def Let_def)

lemma kick_block:
  "preemption_kick K t l (patch j q x m st d s) = patch j q x m st d (preemption_kick K t l s)"
  "preemption_kick K t l (log_calls ks s) = log_calls ks (preemption_kick K t l s)"
  "owned i p s s' \<Longrightarrow> owned i p s (preemption_kick K t l s')"
proof -
  have v: "kick_victim l (patch j q x m st d s) = kick_victim l s" "kick_victim l (log_calls ks s) = kick_victim l s"
    by (simp_all add: kick_victim_def patch_def log_calls_def Let_def)
  show "preemption_kick K t l (patch j q x m st d s) = patch j q x m st d (preemption_kick K t l s)"
    "preemption_kick K t l (log_calls ks s) = log_calls ks (preemption_kick K t l s)"
    by (simp_all add: preemption_kick_def v flag_patch block_log split: option.split)
  show "owned i p s s' \<Longrightarrow> owned i p s (preemption_kick K t l s')"
    by (auto simp: preemption_kick_def intro: owned_intros split: option.split)
qed

lemma put_patch: "p \<noteq> q \<Longrightarrow> put_ctx p c (patch j q x m st d s) = patch j q x m st d (put_ctx p c s)"
  by (simp add: put_ctx_def patch_def fun_upd_twist)

lemma count_when_block:
  "get_local_stats smp \<noteq> j \<Longrightarrow> count_when b R smp f (patch j q x m st d s) = patch j q x m st d (count_when b R smp f s)"
  "count_when b R smp f (log_calls ks s) = log_calls ks (count_when b R smp f s)"
  by (simp_all add: count_when_def count_patch block_log)

lemma enqueue_full_block:
  assumes "get_local_stats (enq_smp_id inp) = i"
  shows "i \<noteq> j \<Longrightarrow> ts_id t \<noteq> q \<Longrightarrow>
      enqueue_full R K inp t c l (patch j q x m st d s) = patch j q x m st d (enqueue_full R K inp t c l s)"
    "enqueue_full R K inp t c l (log_calls ks s) = log_calls ks (enqueue_full R K inp t c l s)"
    "owned i (ts_id t) s (enqueue_full R K inp t c l s)"
proof -
  have cpu: "unat (enq_smp_id inp AND 63) = i" using assms by (simp add: get_local_stats_def)
  show "enqueue_full R K inp t c l (patch j q x m st d s) = patch j q x m st d (enqueue_full R K inp t c l s)"
    if ne: "i \<noteq> j" "ts_id t \<noteq> q"
  proof -
    have ne': "get_local_stats (enq_smp_id inp) \<noteq> j" "unat (enq_smp_id inp AND 63) \<noteq> j"
      using ne(1) assms cpu by simp_all
    show ?thesis
      unfolding enqueue_full_def Let_def case_prod_unfold insert_llc_def
      by (simp add: count_when_block(1) [OF ne'(1)] count_patch [OF ne'(1)] put_patch [OF ne(2)] flag_patch kick_block
          patch_sel(6) [OF ne'(2)])
  qed
  show "enqueue_full R K inp t c l (log_calls ks s) = log_calls ks (enqueue_full R K inp t c l s)"
    unfolding enqueue_full_def Let_def case_prod_unfold insert_llc_def
    by (simp add: count_when_block block_log flag_log kick_block)
  show "owned i (ts_id t) s (enqueue_full R K inp t c l s)"
    unfolding enqueue_full_def Let_def case_prod_unfold insert_llc_def
    by (intro kick_block(3) owned_intros owned_refl assms)
qed

interpretation enqueue_local: cpu_handler "get_local_stats (enq_smp_id inp)" "ts_id t" "imperator_enqueue R K inp t" for R K inp t
proof
  let ?i = "get_local_stats (enq_smp_id inp)"
  have ins: "insert_llc p l sl v f (patch j q x m st d s) = patch j q x m st d (insert_llc p l sl v f s)"
    "insert_llc p l sl v f (log_calls ks s) = log_calls ks (insert_llc p l sl v f s)"
    "owned i p' s (insert_llc p l sl v f s)" for p l sl v f j q x m st d s ks i p'
    by (simp_all add: insert_llc_def flag_patch flag_log block_log owned_intros owned_refl)
  show "\<exists>w fl s'. confined ?i (ts_id t) s s' \<and> imperator_enqueue R K inp t s = set_shared w fl s'" for s
    unfolding owned_def [symmetric] imperator_enqueue_eq
    using ins(3) enqueue_full_block(3) [OF HOL.refl] by (auto split: option.split)
  show "imperator_enqueue R K inp t (patch j q x m st d s) = patch j q x m st d (imperator_enqueue R K inp t s)"
    if "?i \<noteq> j" "ts_id t \<noteq> q" for j q x m st d s
    using that unfolding imperator_enqueue_eq
    by (simp add: ins enqueue_full_block(1) [OF HOL.refl that] split: option.split)
  show "imperator_enqueue R K inp t (log_calls ks s) = log_calls ks (imperator_enqueue R K inp t s)" for ks s
    unfolding imperator_enqueue_eq by (simp add: ins enqueue_full_block(2) [OF HOL.refl] split: option.split)
qed

lemma try_block:
  "try_llc inp l (patch j q x m st d s) = (fst (try_llc inp l s), patch j q x m st d (snd (try_llc inp l s)))"
  "try_llc inp l (log_calls ks s) = (fst (try_llc inp l s), log_calls ks (snd (try_llc inp l s)))"
  "owned i p s s' \<Longrightarrow> owned i p s (snd (try_llc inp l s'))"
  by (auto simp: try_llc_def Let_def flag_patch flag_log block_log intro!: owned_intros)

lemma steal_block:
  "steal_loop inp n mk (patch j q x m st d s) = patch j q x m st d (steal_loop inp n mk s)"
  "steal_loop inp n mk (log_calls ks s) = log_calls ks (steal_loop inp n mk s)"
  "owned i p s s' \<Longrightarrow> owned i p s (steal_loop inp n mk s')"
proof -
  show "steal_loop inp n mk (patch j q x m st d s) = patch j q x m st d (steal_loop inp n mk s)"
    by (induction n arbitrary: mk s) (simp_all add: Let_def try_block case_prod_unfold)
  show "steal_loop inp n mk (log_calls ks s) = log_calls ks (steal_loop inp n mk s)"
    by (induction n arbitrary: mk s) (simp_all add: Let_def try_block case_prod_unfold)
  show "owned i p s s' \<Longrightarrow> owned i p s (steal_loop inp n mk s')"
    by (induction n arbitrary: mk s') (simp_all add: Let_def try_block case_prod_unfold)
qed

lemma scan_block:
  "steal_scan R my (patch j q x m st d s) = steal_scan R my s" "steal_scan R my (log_calls ks s) = steal_scan R my s"
proof -
  have "steal_scan_step my (patch j q x m st d s) = steal_scan_step my s" "steal_scan_step my (log_calls ks s) = steal_scan_step my s"
    by (auto simp: fun_eq_iff steal_scan_step_def flag_patch flag_log)
  then show "steal_scan R my (patch j q x m st d s) = steal_scan R my s" "steal_scan R my (log_calls ks s) = steal_scan R my s"
    by (simp_all add: steal_scan_def)
qed

interpretation dispatch_local: cpu_handler i p "imperator_dispatch R inp" for i p R inp
proof
  show "\<exists>w fl s'. confined i p s s' \<and> imperator_dispatch R inp s = set_shared w fl s'" for s
    unfolding owned_def [symmetric] imperator_dispatch_def Let_def case_prod_unfold
    by (simp add: try_block(3) steal_block(3) owned_refl)
  show "imperator_dispatch R inp (patch j q x m st d s) = patch j q x m st d (imperator_dispatch R inp s)" for j q x m st d s
    unfolding imperator_dispatch_def Let_def case_prod_unfold
    by (simp add: try_block(1) steal_block(1) scan_block(1))
  show "imperator_dispatch R inp (log_calls ks s) = log_calls ks (imperator_dispatch R inp s)" for ks s
    unfolding imperator_dispatch_def Let_def case_prod_unfold
    by (simp add: try_block(2) steal_block(2) scan_block(2))
qed

text \<open>Dispatch changes flags and log only, and commutes with context switches of other CPUs.\<close>

definition flags_only :: "sched \<Rightarrow> sched \<Rightarrow> bool" where
  "flags_only s s' \<longleftrightarrow> (\<exists>fl ks. s' = s\<lparr>llc_nonempty := fl, kcalls := kcalls s @ ks\<rparr>)"

lemma flags_onlyI: "s' = s\<lparr>llc_nonempty := fl, kcalls := kcalls s @ ks\<rparr> \<Longrightarrow> flags_only s s'"
  unfolding flags_only_def by blast

lemma flags_only_refl: "flags_only s s"
  by (rule flags_onlyI [where fl = "llc_nonempty s" and ks = "[]"]) simp

lemma try_flags_only:
  assumes "flags_only s s'"
  shows "flags_only s (snd (try_llc inp l s'))"
proof -
  obtain fl ks where s': "s' = s\<lparr>llc_nonempty := fl, kcalls := kcalls s @ ks\<rparr>"
    using assms by (auto simp: flags_only_def)
  show ?thesis
    by (rule flags_onlyI [where fl = "if drained inp l then fl[unat (l AND 7) := 0] else fl"
          and ks = "ks @ [Dsq_move_to_local (llc_dsq l)]"])
       (simp add: s' try_llc_def Let_def emit_def store_empty_def)
qed

lemma steal_flags_only: "flags_only s s' \<Longrightarrow> flags_only s (steal_loop inp n mk s')"
  by (induction n arbitrary: mk s') (simp_all add: Let_def try_flags_only case_prod_unfold)

lemma dispatch_flags_only: "flags_only s (imperator_dispatch R inp s)"
  unfolding imperator_dispatch_def Let_def case_prod_unfold
  by (simp add: try_flags_only steal_flags_only flags_only_refl)

lemma try_masks:
  "try_llc inp l (s\<lparr>tier_cpu_mask := w\<rparr>) = (fst (try_llc inp l s), (snd (try_llc inp l s))\<lparr>tier_cpu_mask := w\<rparr>)"
  by (auto simp: try_llc_def Let_def emit_def store_empty_def)

lemma steal_masks: "steal_loop inp n mk (s\<lparr>tier_cpu_mask := w\<rparr>) = (steal_loop inp n mk s)\<lparr>tier_cpu_mask := w\<rparr>"
  by (induction n arbitrary: mk s) (simp_all add: Let_def try_masks case_prod_unfold)

lemma dispatch_masks:
  "imperator_dispatch R inp (s\<lparr>tier_cpu_mask := w\<rparr>) = (imperator_dispatch R inp s)\<lparr>tier_cpu_mask := w\<rparr>"
proof -
  have "steal_scan_step my (s\<lparr>tier_cpu_mask := w\<rparr>) = steal_scan_step my s" for my s
    by (auto simp: fun_eq_iff steal_scan_step_def)
  then have "steal_scan R my (s\<lparr>tier_cpu_mask := w\<rparr>) = steal_scan R my s" for my s
    by (simp add: steal_scan_def)
  then show ?thesis
    unfolding imperator_dispatch_def Let_def case_prod_unfold by (simp add: try_masks steal_masks)
qed

lemma switch_flags: "switch_step R e (s\<lparr>llc_nonempty := fl\<rparr>) = (switch_step R e s)\<lparr>llc_nonempty := fl\<rparr>"
  by (simp add: switch_step_effect switch_effect_def Let_def split: option.split)

lemma switch_patch: "\<exists>x m st d w. switch_step R e s = (patch (unat (switch_cpu e)) (switch_task e) x m st d s)\<lparr>tier_cpu_mask := w\<rparr>"
proof (cases "task_ctx s (switch_task e)")
  case None
  have "s = (patch (unat (switch_cpu e)) (switch_task e) (task_ctx s (switch_task e)) (mega_mailbox s ! unat (switch_cpu e))
      (global_stats s ! unat (switch_cpu e)) (dummy_idle s ! unat (switch_cpu e)) s)\<lparr>tier_cpu_mask := tier_cpu_mask s\<rparr>"
    by (simp add: patch_def)
  then show ?thesis unfolding switch_step_none [OF None] by blast
next
  case (Some c)
  let ?i = "unat (switch_cpu e)"
  have "switch_step R e s = (patch ?i (switch_task e) (Some (switch_ctx R e c)) (switch_mbox e c (mega_mailbox s ! ?i))
      (switch_stat R e c (global_stats s ! ?i)) (dummy_idle s ! ?i) s)\<lparr>tier_cpu_mask := tier_cpu_mask (switch_step R e s)\<rparr>"
    by (simp add: switch_step_effect Some switch_effect_def Let_def patch_def)
  then show ?thesis by blast
qed

lemma patch_flags: "patch j q x m st d (s\<lparr>llc_nonempty := fl\<rparr>) = (patch j q x m st d s)\<lparr>llc_nonempty := fl\<rparr>"
  by (simp add: patch_def)

lemma switch_dispatch_commute:
  "\<exists>ls t. switch_step R e (imperator_dispatch R inp s) = t\<lparr>kcalls := kcalls s @ ls\<rparr>
    \<and> imperator_dispatch R inp (switch_step R e s) = t\<lparr>kcalls := kcalls s @ ls\<rparr>"
proof -
  define s0 where "s0 = s\<lparr>kcalls := []\<rparr>"
  have s: "s = log_calls (kcalls s) s0" and k0: "kcalls s0 = []"
    by (simp_all add: s0_def log_base [symmetric])
  obtain ls fl where "imperator_dispatch R inp s0 = s0\<lparr>llc_nonempty := fl, kcalls := ls\<rparr>"
    using dispatch_flags_only [of s0 R inp] k0 by (auto simp: flags_only_def)
  then have d: "imperator_dispatch R inp s0 = log_calls ls (s0\<lparr>llc_nonempty := fl\<rparr>)"
    by (simp add: log_calls_def k0)
  obtain x m st b w where sw: "switch_step R e s0 = (patch (unat (switch_cpu e)) (switch_task e) x m st b s0)\<lparr>tier_cpu_mask := w\<rparr>"
    using switch_patch by blast
  define t where "t = (switch_step R e s0)\<lparr>llc_nonempty := fl\<rparr>"
  have t0: "kcalls t = []" by (simp add: t_def sw k0)
  have "switch_step R e (imperator_dispatch R inp s0) = log_calls ls t"
    by (simp add: d switch_handler.logged switch_flags t_def)
  moreover
  have "imperator_dispatch R inp (patch (unat (switch_cpu e)) (switch_task e) x m st b s0)
      = patch (unat (switch_cpu e)) (switch_task e) x m st b (log_calls ls (s0\<lparr>llc_nonempty := fl\<rparr>))"
    unfolding d [symmetric]
    by (rule dispatch_local.patch [of "Suc (unat (switch_cpu e))" "unat (switch_cpu e)" "Suc (switch_task e)" "switch_task e"]) simp_all
  then have "imperator_dispatch R inp (switch_step R e s0) = log_calls ls t"
    by (simp add: sw dispatch_masks t_def log_calls_def patch_def)
  ultimately have "switch_step R e (imperator_dispatch R inp s) = log_calls (kcalls s @ ls) t"
      "imperator_dispatch R inp (switch_step R e s) = log_calls (kcalls s @ ls) t"
    by (subst s, simp add: switch_handler.logged dispatch_local.logged)+
  then show ?thesis by (auto simp: log_kcalls [OF t0])
qed

section \<open>Orders of execution\<close>

datatype cpu_event =
    E_switch switch
  | E_tick tick_input tid
  | E_select select_input task_struct s32
  | E_probe u32 tid lock_event  \<comment> \<open>CPU, current task\<close>
  | E_enqueue enq_input task_struct
  | E_dispatch dsp_input

fun event_step :: "rodata \<Rightarrow> kabi \<Rightarrow> cpu_event \<Rightarrow> sched \<Rightarrow> sched" where
  "event_step R K (E_switch e) s = switch_step R e s"
| "event_step R K (E_tick inp p) s = imperator_tick R K inp p s"
| "event_step R K (E_select inp t prev) s = snd (imperator_select_cpu R K inp t prev s)"
| "event_step R K (E_probe cpu p e) s = lock_handler (Some p) e s"
| "event_step R K (E_enqueue inp t) s = imperator_enqueue R K inp t s"
| "event_step R K (E_dispatch inp) s = imperator_dispatch R inp s"

fun event_cpu :: "cpu_event \<Rightarrow> nat" where
  "event_cpu (E_switch e) = unat (switch_cpu e)"
| "event_cpu (E_tick inp p) = unat (in_smp_id inp AND 63)"
| "event_cpu (E_select inp t prev) = unat (sel_smp_id inp AND 63)"
| "event_cpu (E_probe cpu p e) = unat (cpu AND 63)"
| "event_cpu (E_enqueue inp t) = unat (enq_smp_id inp AND 63)"
| "event_cpu (E_dispatch inp) = unat (dsp_raw_cpu inp AND 63)"

fun event_task :: "cpu_event \<Rightarrow> tid option" where
  \<comment> \<open>the task whose context the handler touches\<close>
  "event_task (E_switch e) = Some (switch_task e)"
| "event_task (E_tick inp p) = Some p"
| "event_task (E_select inp t prev) = Some (ts_id t)"
| "event_task (E_probe cpu p e) = Some p"
| "event_task (E_enqueue inp t) = Some (ts_id t)"
| "event_task (E_dispatch inp) = None"

fun shared_free :: "cpu_event \<Rightarrow> bool" where
  \<comment> \<open>neither the masks nor the flags matter to the handler\<close>
  "shared_free (E_tick inp p) = True"
| "shared_free (E_select inp t prev) = True"
| "shared_free (E_probe cpu p e) = True"
| "shared_free e = False"

fun shared_apart :: "cpu_event \<Rightarrow> cpu_event \<Rightarrow> bool" where
  \<comment> \<open>both use shared words, but different ones, or different bits of them\<close>
  "shared_apart (E_switch e) (E_switch e') = True"
| "shared_apart (E_switch e) (E_dispatch inp) = True"
| "shared_apart (E_dispatch inp) (E_switch e) = True"
| "shared_apart a b = False"

definition unrelated :: "cpu_event \<Rightarrow> cpu_event \<Rightarrow> bool" where
  \<comment> \<open>different CPUs, different tasks, and no conflict on the shared words\<close>
  "unrelated a b \<longleftrightarrow> event_cpu a \<noteq> event_cpu b \<and> (event_task a = None \<or> event_task a \<noteq> event_task b)
     \<and> (shared_free a \<or> shared_free b \<or> shared_apart a b)"

inductive same_event_orders :: "cpu_event list \<Rightarrow> cpu_event list \<Rightarrow> bool" where
  \<comment> \<open>unrelated neighbours may be swapped\<close>
  same: "same_event_orders es es"
| swap: "same_event_orders es (xs @ a # b # ys) \<Longrightarrow> unrelated a b \<Longrightarrow> same_event_orders es (xs @ b # a # ys)"

definition same_up_to_calls :: "sched \<Rightarrow> sched \<Rightarrow> bool" where
  \<comment> \<open>the same program state, and the same calls in some order\<close>
  "same_up_to_calls s t \<longleftrightarrow> s\<lparr>kcalls := []\<rparr> = t\<lparr>kcalls := []\<rparr> \<and> mset (kcalls s) = mset (kcalls t)"

lemma event_step_fun:
  "event_step R K (E_switch e) = switch_step R e" "event_step R K (E_tick inp p) = imperator_tick R K inp p"
  "event_step R K (E_select sinp t prev) = (\<lambda>s. snd (imperator_select_cpu R K sinp t prev s))"
  "event_step R K (E_probe cpu p le) = lock_handler (Some p) le"
  "event_step R K (E_enqueue einp t) = imperator_enqueue R K einp t"
  "event_step R K (E_dispatch dinp) = imperator_dispatch R dinp"
  by (simp_all add: fun_eq_iff)

lemma event_shared_free:
  assumes "shared_free a" "event_task a = Some p"
  shows "shared_free_handler (event_cpu a) p (event_step R K a)"
proof (cases a)
  case (E_tick inp q)
  then show ?thesis
    using assms tick_local.shared_free_handler_axioms by (simp add: event_step_fun stats_index del: event_step.simps)
next
  case (E_select inp t prev)
  then have "p = ts_id t" using assms(2) by simp
  then show ?thesis
    unfolding E_select event_step_fun event_cpu.simps stats_index
    using select_local.shared_free_handler_axioms by blast
next
  case (E_probe cpu q e)
  then show ?thesis using assms lock_handler_local by (simp add: event_step_fun del: event_step.simps)
qed (use assms in simp_all)

lemma event_handler:
  assumes "event_task a = None \<or> event_task a = Some p"
  shows "cpu_handler (event_cpu a) p (event_step R K a)"
proof (cases "shared_free a")
  case True
  then have "event_task a = Some p" using assms by (cases a) auto
  then show ?thesis by (intro shared_free_handler.axioms(1) [OF event_shared_free [OF True]])
next
  case False
  then show ?thesis
    using assms switch_handler.cpu_handler_axioms enqueue_local.cpu_handler_axioms dispatch_local.cpu_handler_axioms
    by (cases a) (auto simp: event_step_fun stats_index simp del: event_step.simps)
qed

text \<open>Unrelated events commute.\<close>

lemma events_commute_free:
  assumes "shared_free a" "event_cpu a \<noteq> event_cpu b" "event_task a \<noteq> event_task b"
  shows "\<exists>ks ls t. event_step R K a (event_step R K b s) = t\<lparr>kcalls := kcalls s @ ls @ ks\<rparr>
    \<and> event_step R K b (event_step R K a s) = t\<lparr>kcalls := kcalls s @ ks @ ls\<rparr>"
proof -
  obtain p where p: "event_task a = Some p" using assms(1) by (cases a) auto
  obtain q where q: "event_task b = None \<or> event_task b = Some q" "p \<noteq> q"
    using assms(3) p that [of "Suc p"] by (cases "event_task b") auto
  show ?thesis
    by (rule handlers_commute [OF event_shared_free [OF assms(1) p] event_handler [OF q(1)] assms(2) q(2)])
qed

lemma events_commute_apart:
  assumes "shared_apart a b" "event_cpu a \<noteq> event_cpu b" "event_task a = None \<or> event_task a \<noteq> event_task b"
  shows "\<exists>ls t. event_step R K a (event_step R K b s) = t\<lparr>kcalls := kcalls s @ ls\<rparr>
    \<and> event_step R K b (event_step R K a s) = t\<lparr>kcalls := kcalls s @ ls\<rparr>"
  using assms(1)
proof (cases rule: shared_apart.elims(2))
  case (1 e e')
  then have ind: "independent e e'" using assms(2,3) by (auto simp: independent_def)
  have k: "kcalls (switch_step R e s) = kcalls s" for e and s :: sched
    by (simp add: switch_step_effect switch_effect_def Let_def split: option.split)
  show ?thesis
    unfolding 1 event_step.simps switch_step_commute [OF ind]
    by (intro exI [of _ "[]"] exI [of _ "switch_step R e' (switch_step R e s)"]) (simp add: k)
next
  case (2 e inp)
  then show ?thesis using switch_dispatch_commute [of R e inp s] by simp
next
  case (3 inp e)
  then show ?thesis using switch_dispatch_commute [of R e inp s] by auto
qed

lemma events_commute:
  assumes "unrelated a b"
  shows "\<exists>ks ls t. event_step R K a (event_step R K b s) = t\<lparr>kcalls := kcalls s @ ls @ ks\<rparr>
    \<and> event_step R K b (event_step R K a s) = t\<lparr>kcalls := kcalls s @ ks @ ls\<rparr>"
proof -
  have free: "event_task a \<noteq> event_task b" if "shared_free a \<or> shared_free b"
    using assms that by (cases a; cases b) (auto simp: unrelated_def)
  consider "shared_free a" | "shared_free b" | "shared_apart a b" using assms by (auto simp: unrelated_def)
  then show ?thesis
  proof cases
    case 1
    then show ?thesis using assms free by (intro events_commute_free) (simp_all add: unrelated_def)
  next
    case 2
    then have "event_cpu b \<noteq> event_cpu a" "event_task b \<noteq> event_task a"
      using assms free by (auto simp: unrelated_def)
    from events_commute_free [OF 2 this] show ?thesis by metis
  next
    case 3
    then obtain ls t where "event_step R K a (event_step R K b s) = t\<lparr>kcalls := kcalls s @ ls\<rparr>"
        "event_step R K b (event_step R K a s) = t\<lparr>kcalls := kcalls s @ ls\<rparr>"
      using events_commute_apart [OF 3, of R K s] assms by (auto simp: unrelated_def)
    then show ?thesis by (intro exI [of _ "[]"] exI [of _ ls] exI [of _ t]) simp
  qed
qed

lemma same_calls_refl: "same_up_to_calls s s" and same_calls_trans: "same_up_to_calls s t \<Longrightarrow> same_up_to_calls t u \<Longrightarrow> same_up_to_calls s u"
  by (simp_all add: same_up_to_calls_def)

lemma same_calls_logs: "same_up_to_calls (t\<lparr>kcalls := k @ ls @ ks\<rparr>) (t\<lparr>kcalls := k @ ks @ ls\<rparr>)"
  by (simp add: same_up_to_calls_def)

lemma same_calls_step:
  assumes "same_up_to_calls s t"
  shows "same_up_to_calls (event_step R K a s) (event_step R K a t)"
proof -
  let ?u = "event_step R K a (s\<lparr>kcalls := []\<rparr>)"
  obtain p where "event_task a = None \<or> event_task a = Some p" by (cases "event_task a") auto
  note logged = cpu_handler.logged [OF event_handler [OF this], of R K]
  have s: "event_step R K a s = log_calls (kcalls s) ?u"
    using logged [of "kcalls s" "s\<lparr>kcalls := []\<rparr>"] log_base [of s] by simp
  have t: "event_step R K a t = log_calls (kcalls t) ?u"
    using logged [of "kcalls t" "t\<lparr>kcalls := []\<rparr>"] log_base [of t] assms by (simp add: same_up_to_calls_def)
  show ?thesis
    using assms by (simp add: s t same_up_to_calls_def log_calls_def)
qed

lemma same_calls_run:
  "same_up_to_calls s t \<Longrightarrow> same_up_to_calls (fold (event_step R K) es s) (fold (event_step R K) es t)"
  by (induction es arbitrary: s t) (simp_all add: same_calls_step)

section \<open>Properties\<close>

text \<open>
  C17. The interleaving of the CPUs is immaterial except where they share a word for different purposes. Ticks,
  CPU selections and futex events of one CPU commute with every handler of another CPU for another
  task, and context switches commute with each other and with dispatches: orders that
  differ by such swaps lead to the same contexts, mailboxes, statistics, masks and flags, and the
  same calls reach the kernel. What does not commute is left in place: enqueue with a context switch (it
  reads the masks), and enqueues and dispatches among themselves (they share the flags).
\<close>

theorem event_order_immaterial:
  assumes "same_event_orders es es'"
  shows "same_up_to_calls (fold (event_step R K) es s) (fold (event_step R K) es' s)"
  using assms
proof induction
  case (same es)
  show ?case by (rule same_calls_refl)
next
  case (swap es xs a b ys)
  obtain ks ls t where "event_step R K b (event_step R K a (fold (event_step R K) xs s)) = t\<lparr>kcalls := kcalls (fold (event_step R K) xs s) @ ks @ ls\<rparr>"
      "event_step R K a (event_step R K b (fold (event_step R K) xs s)) = t\<lparr>kcalls := kcalls (fold (event_step R K) xs s) @ ls @ ks\<rparr>"
    using events_commute [OF swap.hyps(2)] by blast
  then have "same_up_to_calls (fold (event_step R K) (xs @ a # b # ys) s) (fold (event_step R K) (xs @ b # a # ys) s)"
    using same_calls_run [OF same_calls_logs] by simp
  with swap.IH show ?case by (rule same_calls_trans)
qed

theorem event_order_immaterial_witness:
  "same_up_to_calls
     (fold (event_step rodata_default example_kabi) [E_switch (Run 5 40 8), E_tick example_tick 7] example_sched)
     (fold (event_step rodata_default example_kabi) [E_tick example_tick 7, E_switch (Run 5 40 8)] example_sched)"
proof (rule event_order_immaterial)
  have "same_event_orders [E_switch (Run 5 40 8), E_tick example_tick 7] ([] @ E_switch (Run 5 40 8) # E_tick example_tick 7 # [])"
    by (simp add: same_event_orders.same)
  from same_event_orders.swap [OF this]
  show "same_event_orders [E_switch (Run 5 40 8), E_tick example_tick 7] [E_tick example_tick 7, E_switch (Run 5 40 8)]"
    by (simp add: unrelated_def example_tick_def)
qed

end
