(* ===== verification/Lock_Interrupt.thy ===== *)
theory Lock_Interrupt
  imports System
begin

text \<open>
  The release of a lock under interrupts. \<open>clear_lock_holder\<close> of \<open>src/src/bpf/lock.bpf.c\<close> makes two stores
  to the context of the current task, the atomic AND that clears the flag and the reset of
  \<open>lock_skip_count\<close>; ticks and any other handler may run before, between and after them. What the
  comments there argue is proved here: because the flag goes first, the next holder period starts
  with the whole budget of four skipped checks.
\<close>

section \<open>The stores of the release\<close>

definition clear_accesses :: "tid \<Rightarrow> (sched \<Rightarrow> sched) list" where
  \<comment> \<open>the stores in the order of the code\<close>
  "clear_accesses p =
     [upd_ctx p (\<lambda>c. c\<lparr>packed_info := clear_flag CAKE_FLAG_LOCK_HOLDER (packed_info c)\<rparr>),
      upd_ctx p (\<lambda>c. c\<lparr>lock_skip_count := 0\<rparr>)]"

lemma clear_serial:
  "task_ctx s p = Some c \<Longrightarrow> clear_lock_holder (Some p) s = fold (\<lambda>a. a) (clear_accesses p) s"
  by (simp add: clear_lock_holder_def clear_accesses_def Let_def)

datatype interrupt =
    I_tick tick_input tid
  | I_running u32 u64 tid
  | I_stopping u32 u64 u64 tid bool
  | I_enqueue enq_input task_struct
  | I_select select_input task_struct s32
  | I_dispatch dsp_input
  | I_probe tid lock_event  \<comment> \<open>a futex event of some task\<close>

fun interrupt_handler :: "rodata \<Rightarrow> kabi \<Rightarrow> interrupt \<Rightarrow> sched \<Rightarrow> sched" where
  "interrupt_handler R K (I_tick inp q) = imperator_tick R K inp q"
| "interrupt_handler R K (I_running smp now q) = imperator_running R smp now q"
| "interrupt_handler R K (I_stopping smp now now2 q runnable) = imperator_stopping R smp now now2 q runnable"
| "interrupt_handler R K (I_enqueue inp t) = imperator_enqueue R K inp t"
| "interrupt_handler R K (I_select inp t prev) = (\<lambda>s. snd (imperator_select_cpu R K inp t prev s))"
| "interrupt_handler R K (I_dispatch inp) = imperator_dispatch R inp"
| "interrupt_handler R K (I_probe q e) = lock_handler (Some q) e"

fun foreign :: "tid \<Rightarrow> interrupt \<Rightarrow> bool" where
  \<comment> \<open>not a futex event of the task itself, which is inside its own probe\<close>
  "foreign p (I_probe q e) \<longleftrightarrow> q \<noteq> p"
| "foreign p i \<longleftrightarrow> True"

definition interrupted :: "rodata \<Rightarrow> kabi \<Rightarrow> (interrupt list \<times> (sched \<Rightarrow> sched)) list \<Rightarrow> interrupt list \<Rightarrow> sched \<Rightarrow> sched" where
  \<comment> \<open>each access after the interrupts that arrive before it, then the remaining ones\<close>
  "interrupted R K accs after s =
     fold (interrupt_handler R K) after (fold (\<lambda>(before, a) s. a (fold (interrupt_handler R K) before s)) accs s)"

section \<open>Handlers that leave a released lock alone\<close>

definition holds_lock :: "imperator_task_ctx \<Rightarrow> bool" where
  "holds_lock c \<longleftrightarrow> has_flag CAKE_FLAG_LOCK_HOLDER (packed_info c)"

definition lock_kept :: "imperator_task_ctx \<Rightarrow> imperator_task_ctx \<Rightarrow> bool" where
  \<comment> \<open>the flag stays, and the budget is touched only while it is set\<close>
  "lock_kept c c' \<longleftrightarrow> holds_lock c' = holds_lock c \<and> (\<not> holds_lock c \<longrightarrow> lock_skip_count c' = lock_skip_count c)"

locale lock_neutral =
  fixes R :: rodata and p :: tid and h :: "sched \<Rightarrow> sched"
  assumes keeps_good: "good R s \<Longrightarrow> good R (h s)"
    and keeps_lock: "good R s \<Longrightarrow> task_ctx s p = Some c \<Longrightarrow> \<exists>c'. task_ctx (h s) p = Some c' \<and> lock_kept c c'"
begin

lemma released_stays:
  assumes "good R s" "task_ctx s p = Some c" "\<not> holds_lock c"
  obtains c' where "task_ctx (h s) p = Some c'" "\<not> holds_lock c'" "lock_skip_count c' = lock_skip_count c"
  using keeps_lock [OF assms(1,2)] assms(3) that by (auto simp: lock_kept_def)

end

lemma lock_kept_refl [simp]: "lock_kept c c"
  by (simp add: lock_kept_def)

lemma lock_kept_fields:
  "packed_info c' = packed_info c \<Longrightarrow> lock_skip_count c' = lock_skip_count c \<Longrightarrow> lock_kept c c'"
  by (simp add: lock_kept_def holds_lock_def)

lemma lock_kept_upd:
  assumes "task_ctx s' = (task_ctx s)(q := map_option f (task_ctx s q))" "\<And>c. lock_kept c (f c)" "task_ctx s p = Some c"
  shows "\<exists>c'. task_ctx s' p = Some c' \<and> lock_kept c c'"
  using assms by (cases "p = q") auto

lemma reclassify_skip_count: "lock_skip_count (reclassify_task_cold R now run c) = lock_skip_count c"
proof (cases "last_run_at c = 0")
  case True
  then show ?thesis by (simp add: reclassify_never_ran)
next
  case False
  obtain nt hist st where "chosen run (sample_of now c) c = (nt, hist, st)" by (metis prod.exhaust)
  then have "chosen run (sample_of now c) (pre_ctx now run c) = (nt, hist, st)" by simp
  note full = reclassify_full_eq [OF this, of R "bout_of now c"]
  show ?thesis
    using full by (simp add: reclassify_cases [OF False] Let_def reclassify_backoff_def)
qed

lemma reclassify_lock: "holds_lock (reclassify_task_cold R now run c) = holds_lock c"
proof (cases "last_run_at c = 0")
  case False
  then show ?thesis
    using reclassify_low_bits [OF False refl, of 25 R now run] by (simp add: holds_lock_def flag_simps)
qed (simp add: reclassify_never_ran)

lemma lock_kept_stop: "lock_kept c (stop_ctx R now now2 runnable c)"
  by (simp add: lock_kept_def stop_ctx_def reclassify_skip_count reclassify_lock) (simp add: holds_lock_def)

lemma lock_kept_run: "lock_kept c (run_ctx now c)"
  by (rule lock_kept_fields) (simp_all add: run_ctx_def)

lemma lock_kept_enq: "lock_kept c (enq_ctx R K inp c)"
proof -
  obtain sl d where sp: "burst_spend R (next_slice c) (credited R K inp c) = (sl, d)" by (metis prod.exhaust)
  then have "packed_info d = packed_info c" "lock_skip_count d = lock_skip_count c"
    using burst_spend_sel [of R "next_slice c" "credited R K inp c"] by simp_all
  then show ?thesis by (auto simp: enq_ctx_def sp irq_override_def lock_kept_def holds_lock_def flag_simps)
qed

lemma lock_kept_irq: "lock_kept c (stamped K inp c)" "lock_kept c (cleared c)"
  by (simp_all add: stamped_def cleared_def lock_kept_def holds_lock_def flag_simps)

lemma lock_kept_tick: "lock_kept c (c\<lparr>lock_skip_count := next_skips R inp c tc\<rparr>)" "lock_kept c (c\<lparr>lock_skip_count := lock_skip_count c\<rparr>)"
  by (simp_all add: lock_kept_def holds_lock_def next_skips_def)

section \<open>Every other handler keeps the lock view\<close>

interpretation tick_neutral: lock_neutral R p "imperator_tick R K inp q" for R p K inp q
proof
  fix s :: sched and c
  assume g: "good R s" and c: "task_ctx s p = Some c"
  have wf: "unat (in_smp_id inp AND 63) < length (mega_mailbox s)"
    using g unat_and_63 by (simp add: good_def sched_wf_def)
  show "\<exists>c'. task_ctx (imperator_tick R K inp q s) p = Some c' \<and> lock_kept c c'"
  proof (cases "task_ctx s q")
    case None
    then show ?thesis using c by (simp add: tick_unstamped)
  next
    case (Some d)
    show ?thesis
    proof (cases "last_run_at d = 0")
      case True
      then show ?thesis
        using c Some by (auto simp: tick_unstamped(2) [OF Some] frame_simps intro!: lock_kept_fields)
    next
      case False
      then show ?thesis
        using tick_effect(3) [OF wf Some _ refl refl refl, of R K] c Some lock_kept_tick by auto
    qed
  qed
qed (rule tick_handler.keeps_good)

interpretation running_neutral: lock_neutral R p "imperator_running R' smp now q" for R p R' smp now q
proof
  fix s :: sched and c
  assume c: "task_ctx s p = Some c"
  show "\<exists>c'. task_ctx (imperator_running R' smp now q s) p = Some c' \<and> lock_kept c c'"
  proof (cases "task_ctx s q")
    case None
    then show ?thesis using c by (simp add: imperator_running_def)
  next
    case (Some d)
    then show ?thesis using c running_state(1) [OF Some, of R' smp now] lock_kept_run by auto
  qed
qed (rule good_running)

interpretation stopping_neutral: lock_neutral R p "imperator_stopping R smp now now2 q runnable" for R p smp now now2 q runnable
proof
  fix s :: sched and c
  assume c: "task_ctx s p = Some c"
  consider "task_ctx s q = None" | d where "task_ctx s q = Some d" "last_run_at d = 0"
    | d where "task_ctx s q = Some d" "last_run_at d \<noteq> 0" by (cases "task_ctx s q") auto
  then show "\<exists>c'. task_ctx (imperator_stopping R smp now now2 q runnable s) p = Some c' \<and> lock_kept c c'"
  proof cases
    case (3 d)
    then show ?thesis using c lock_kept_stop by (auto simp: stopping_state [OF 3] frame_simps)
  qed (use c in \<open>simp_all add: stopping_unstamped\<close>)
qed (rule good_stopping)

interpretation enqueue_neutral: lock_neutral R p "imperator_enqueue R K inp t" for R p K inp t
proof
  fix s :: sched and c
  assume c: "task_ctx s p = Some c"
  have "\<exists>c'. task_ctx (enqueue_full R K inp t d l s) p = Some c' \<and> lock_kept c c'" if "task_ctx s (ts_id t) = Some d" for d l
    using that c enqueue_full_effect(1) [OF refl refl, of R K inp t d l s] lock_kept_enq by auto
  then show "\<exists>c'. task_ctx (imperator_enqueue R K inp t s) p = Some c' \<and> lock_kept c c'"
    using c by (auto simp: imperator_enqueue_eq frame_simps split: option.split)
qed (rule enqueue_handler.keeps_good)

interpretation select_neutral: lock_neutral R p "\<lambda>s. snd (imperator_select_cpu R K inp t prev s)" for R p K inp t prev
proof
  fix s :: sched and c
  assume g: "good R s" and c: "task_ctx s p = Some c"
  obtain cpu0 idle where d: "sel_dfl inp prev = (cpu0, idle)" by (metis prod.exhaust)
  obtain cpu s' where r: "imperator_select_cpu R K inp t prev s = (cpu, s')" by (metis prod.exhaust)
  have len: "length (dummy_idle s) = 64" using g by (simp add: good_def sched_wf_def)
  have "\<exists>f. task_ctx s' = (task_ctx s)(ts_id t := map_option f (task_ctx s (ts_id t))) \<and> (\<forall>c. lock_kept c (f c))"
  proof (cases idle)
    case True
    from select_cpu_idle(3) [OF d [unfolded eqTrueI [OF True]] len r] lock_kept_irq(2) show ?thesis by blast
  next
    case False
    then have "snd (sel_dfl inp prev) = False" by (simp add: d)
    from select_cpu_busy(3) [OF this len, of R K t] lock_kept_irq(1) show ?thesis unfolding r snd_conv by blast
  qed
  then show "\<exists>c'. task_ctx (snd (imperator_select_cpu R K inp t prev s)) p = Some c' \<and> lock_kept c c'"
    unfolding r snd_conv using lock_kept_upd c by blast
qed (rule select_handler.keeps_good)

interpretation dispatch_neutral: lock_neutral R p "imperator_dispatch R' inp" for R p R' inp
  by unfold_locales (auto intro: dispatch_handler.keeps_good simp: dispatch_ctx)

lemma probe_neutral: "q \<noteq> p \<Longrightarrow> lock_neutral R p (lock_handler (Some q) e)"
proof
  assume ne: "q \<noteq> p"
  fix s :: sched and c
  assume c: "task_ctx s p = Some c"
  show "\<exists>c'. task_ctx (lock_handler (Some q) e s) p = Some c' \<and> lock_kept c c'"
    using lock_handler_upd [of "Some q" e s] ne c by (auto simp: upd_ctx_def)
qed (rule lock_events.keeps_good)

lemma interrupt_neutral: "foreign p i \<Longrightarrow> lock_neutral R p (interrupt_handler R K i)"
  by (cases i)
     (simp_all add: probe_neutral tick_neutral.lock_neutral_axioms running_neutral.lock_neutral_axioms
        stopping_neutral.lock_neutral_axioms enqueue_neutral.lock_neutral_axioms
        select_neutral.lock_neutral_axioms dispatch_neutral.lock_neutral_axioms)

lemma lock_kept_trans: "lock_kept a b \<Longrightarrow> lock_kept b c \<Longrightarrow> lock_kept a c"
  by (auto simp: lock_kept_def)

lemma interrupts_neutral:
  assumes "\<forall>i \<in> set is. foreign p i"
  shows "lock_neutral R p (fold (interrupt_handler R K) is)"
  using assms
proof (induction "is")
  case Nil
  then show ?case by unfold_locales auto
next
  case (Cons i "is")
  have h: "lock_neutral R p (interrupt_handler R K i)" and t: "lock_neutral R p (fold (interrupt_handler R K) is)"
    using Cons interrupt_neutral by simp_all
  show ?case
  proof
    fix s :: sched and c
    assume g: "good R s"
    note g' = lock_neutral.keeps_good [OF h g]
    show "good R (fold (interrupt_handler R K) (i # is) s)"
      using lock_neutral.keeps_good [OF t g'] by simp
    assume "task_ctx s p = Some c"
    from lock_neutral.keeps_lock [OF h g this] obtain c1
      where c1: "task_ctx (interrupt_handler R K i s) p = Some c1" "lock_kept c c1" by blast
    from lock_neutral.keeps_lock [OF t g' c1(1)]
    show "\<exists>c'. task_ctx (fold (interrupt_handler R K) (i # is) s) p = Some c' \<and> lock_kept c c'"
      using lock_kept_trans [OF c1(2)] by auto
  qed
qed

text \<open>The two stores keep the state invariant, also when only one of them is done.\<close>

lemma good_upd_ctx: "good R s \<Longrightarrow> (\<And>c. ctx_inv R c \<Longrightarrow> ctx_inv R (f c)) \<Longrightarrow> good R (upd_ctx p f s)"
  by (auto simp: good_def ctxs_ok_def sched_wf_def mboxes_ok_def upd_ctx_def split: option.splits)

lemma good_clear_stores:
  assumes "good R s"
  shows "good R (upd_ctx p (\<lambda>c. c\<lparr>packed_info := clear_flag CAKE_FLAG_LOCK_HOLDER (packed_info c)\<rparr>) s)"
    "good R (upd_ctx p (\<lambda>c. c\<lparr>lock_skip_count := 0\<rparr>) s)"
  using assms by (auto intro!: good_upd_ctx simp: ctx_inv_def flag_simps wf_intros)

section \<open>Properties\<close>

text \<open>
  C21. A release gives back the whole budget. Whatever ticks and other handlers interrupt \<open>clear_lock_holder\<close>
  before, between and after its two stores (context switches of the task, wakeups and futex events of
  other tasks included), in the end the task is no lock holder and its count of skipped checks is 0.
\<close>

theorem release_restores_budget:
  assumes "reachable R K m" "config_ok R" "task_ctx (kern m) p = Some c"
    and "map snd accs = clear_accesses p"
    and "\<forall>(before, a) \<in> set accs. \<forall>i \<in> set before. foreign p i" "\<forall>i \<in> set after. foreign p i"
  shows "\<exists>c'. task_ctx (interrupted R K accs after (kern m)) p = Some c'
    \<and> \<not> has_flag CAKE_FLAG_LOCK_HOLDER (packed_info c') \<and> lock_skip_count c' = 0"
proof -
  let ?clear = "upd_ctx p (\<lambda>c. c\<lparr>packed_info := clear_flag CAKE_FLAG_LOCK_HOLDER (packed_info c)\<rparr>)"
  let ?zero = "upd_ctx p (\<lambda>c. c\<lparr>lock_skip_count := 0\<rparr>)"
  let ?run = "fold (interrupt_handler R K)"
  obtain b1 b2 where accs: "accs = [(b1, ?clear), (b2, ?zero)]"
    using assms(4) by (auto simp: clear_accesses_def map_eq_Cons_conv)
  then have n: "lock_neutral R p (?run b1)" "lock_neutral R p (?run b2)" "lock_neutral R p (?run after)"
    using assms(5,6) by (auto intro!: interrupts_neutral)
  have g: "good R (kern m)" using reachable_inv [OF assms(1,2)] by (rule machine_invD)
  define s1 where "s1 = ?run b1 (kern m)"
  obtain c1 where c1: "task_ctx s1 p = Some c1" and g1: "good R s1"
    using lock_neutral.keeps_lock [OF n(1) g assms(3)] lock_neutral.keeps_good [OF n(1) g] by (auto simp: s1_def)
  have g2: "good R (?clear s1)" by (rule good_clear_stores [OF g1])
  have "task_ctx (?clear s1) p = Some (c1\<lparr>packed_info := clear_flag CAKE_FLAG_LOCK_HOLDER (packed_info c1)\<rparr>)"
    using c1 by simp
  from lock_neutral.released_stays [OF n(2) g2 this] obtain c2
    where c2: "task_ctx (?run b2 (?clear s1)) p = Some c2" "\<not> holds_lock c2" by (auto simp: holds_lock_def flag_simps)
  have g3: "good R (?zero (?run b2 (?clear s1)))"
    by (rule good_clear_stores [OF lock_neutral.keeps_good [OF n(2) g2]])
  have "task_ctx (?zero (?run b2 (?clear s1))) p = Some (c2\<lparr>lock_skip_count := 0\<rparr>)"
    using c2(1) by simp
  from lock_neutral.released_stays [OF n(3) g3 this] c2(2) obtain c3
    where "task_ctx (?run after (?zero (?run b2 (?clear s1)))) p = Some c3" "\<not> holds_lock c3" "lock_skip_count c3 = 0"
    by (auto simp: holds_lock_def)
  then show ?thesis by (simp add: interrupted_def accs s1_def holds_lock_def)
qed

theorem release_restores_budget_witness:
  "\<exists>m c'. reachable example_rodata example_kabi m
    \<and> task_ctx (interrupted example_rodata example_kabi
        (zip [[I_tick example_tick 9], [I_tick example_tick 9]] (clear_accesses 9)) [I_tick example_tick 9] (kern m)) 9 = Some c'
    \<and> lock_skip_count c' = 0"
proof -
  obtain m b where m: "reachable example_rodata example_kabi m" "task_ctx (kern m) 9 = Some b"
    using example_machine by blast
  have z: "map snd (zip [[I_tick example_tick 9], [I_tick example_tick 9]] (clear_accesses 9)) = clear_accesses 9"
    by (simp add: clear_accesses_def)
  from release_restores_budget [OF m(1) example_config m(2) z, of "[I_tick example_tick 9]"] m(1)
  show ?thesis by (auto simp: clear_accesses_def)
qed

text \<open>
  The order of the two stores is what matters: with the reset first, one tick between them can
  leave a count of 1, one skipped check less for the next holder period.
\<close>

theorem reversed_order_erodes_budget:
  assumes "good R s" "task_ctx s p = Some c" "holds_lock c" "last_run_at c \<noteq> 0"
    and "cpu = in_smp_id inp AND 63" "\<not> expired R K inp c" "starving R inp c (tick_counter (get_mbox cpu s))"
    and "accs = zip [[], [I_tick inp p]] (rev (clear_accesses p))"
  shows "\<exists>c'. task_ctx (interrupted R K accs [] s) p = Some c' \<and> \<not> holds_lock c' \<and> lock_skip_count c' = 1"
proof -
  let ?s = "upd_ctx p (\<lambda>c. c\<lparr>lock_skip_count := 0\<rparr>) s" and ?c = "c\<lparr>lock_skip_count := 0\<rparr>"
  have c: "task_ctx ?s p = Some ?c" and m: "get_mbox cpu ?s = get_mbox cpu s"
    using assms(2) by (simp_all add: frame_simps get_mbox_def upd_ctx_def)
  have wf: "unat (in_smp_id inp AND 63) < length (mega_mailbox ?s)"
    using assms(1,2) unat_and_63 by (simp add: good_def sched_wf_def upd_ctx_def)
  have "expired R K inp ?c = expired R K inp c" by simp
  have st: "starving R inp ?c (tick_counter (get_mbox cpu ?s))"
    using assms(7) by (simp add: m starving_def)
  show ?thesis
    using tick_effect(3) [OF wf c _ refl refl refl, of R K] assms(3,4,6) st
    by (simp add: interrupted_def assms(5,8) clear_accesses_def next_skips_def holds_lock_def flag_simps)
qed

end
