(* ===== verification/Accounting.thy ===== *)
theory Accounting
  imports System
begin

text \<open>
  The statistics the terminal interface shows: \<open>aggregate_stats\<close> of \<open>src/src/tui.rs\<close> sums the per-CPU
  blocks, and the readers compare some of the sums (\<open>src/src/stats.rs\<close>). The invariant \<open>balanced\<close> of a
  block is kept by every handler, so the comparisons are sound in every reachable state.
\<close>

section \<open>The aggregate\<close>

definition add_stats :: "imperator_stats \<Rightarrow> imperator_stats \<Rightarrow> imperator_stats" where
  \<comment> \<open>one round of the loop over the blocks\<close>
  "add_stats s tot = \<lparr>
     nr_new_flow_dispatches = nr_new_flow_dispatches tot + nr_new_flow_dispatches s,
     nr_old_flow_dispatches = nr_old_flow_dispatches tot + nr_old_flow_dispatches s,
     nr_tier_dispatches = map (\<lambda>i. nr_tier_dispatches tot ! i + nr_tier_dispatches s ! i) [0..<4],
     nr_starvation_preempts_tier =
       map (\<lambda>i. nr_starvation_preempts_tier tot ! i + nr_starvation_preempts_tier s ! i) [0..<4],
     nr_lock_holder_skips = nr_lock_holder_skips tot + nr_lock_holder_skips s,
     nr_irq_wake_boosts = nr_irq_wake_boosts tot + nr_irq_wake_boosts s,
     nr_waker_tier_boosts = nr_waker_tier_boosts tot + nr_waker_tier_boosts s,
     nr_preempt_with_credit = nr_preempt_with_credit tot + nr_preempt_with_credit s,
     nr_burst_credit_consumed = nr_burst_credit_consumed tot + nr_burst_credit_consumed s,
     nr_jitter_ewma_sum = nr_jitter_ewma_sum tot + nr_jitter_ewma_sum s,
     nr_jitter_ewma_count = nr_jitter_ewma_count tot + nr_jitter_ewma_count s\<rparr>"

definition aggregate_stats :: "imperator_stats list \<Rightarrow> imperator_stats" where
  "aggregate_stats blocks = fold add_stats blocks stats_zero"

section \<open>Balanced blocks\<close>

definition credit_unit :: "rodata \<Rightarrow> u16" where
  \<comment> \<open>\<open>add_kns\<close>, what one preemption earns\<close>
  "credit_unit R = ucast (drop_bit 12 (quantum_ns R))"

definition balanced :: "rodata \<Rightarrow> imperator_stats \<Rightarrow> bool" where
  "balanced R st \<longleftrightarrow> length (nr_tier_dispatches st) = 4
     \<and> nr_new_flow_dispatches st + nr_old_flow_dispatches st = sum_list (nr_tier_dispatches st)
     \<and> (credit_unit R \<noteq> 0 \<longrightarrow> nr_preempt_with_credit st = nr_burst_credit_consumed st)"

definition accounts :: "rodata \<Rightarrow> sched \<Rightarrow> bool" where
  "accounts R s \<longleftrightarrow> (\<forall>st \<in> set (global_stats s). balanced R st)"

lemma accounts_same: "global_stats s' = global_stats s \<Longrightarrow> accounts R s \<Longrightarrow> accounts R s'"
  by (simp add: accounts_def)

lemma accounts_count:
  assumes "accounts R s" "\<And>st. balanced R st \<Longrightarrow> balanced R (f st)"
  shows "accounts R (count_stat R' c f s)"
proof (cases "get_local_stats c < length (global_stats s)")
  case True
  then have "balanced R (f (global_stats s ! get_local_stats c))"
    using assms by (simp add: accounts_def)
  then show ?thesis
    using assms(1) set_update_subset_insert [of "global_stats s" "get_local_stats c"]
    by (fastforce simp: accounts_def count_stat_def)
next
  case False
  then show ?thesis using assms(1) by (simp add: accounts_def count_stat_def list_update_beyond)
qed

lemma count_stat_twice:
  "count_stat R c f (count_stat R c g s) = count_stat R c (\<lambda>st. f (g st)) s"
  by (cases "get_local_stats c < length (global_stats s)") (simp_all add: count_stat_def list_update_beyond)

lemma balanced_cong:
  "nr_tier_dispatches st' = nr_tier_dispatches st \<Longrightarrow> nr_new_flow_dispatches st' = nr_new_flow_dispatches st
   \<Longrightarrow> nr_old_flow_dispatches st' = nr_old_flow_dispatches st
   \<Longrightarrow> nr_preempt_with_credit st' - nr_burst_credit_consumed st' = nr_preempt_with_credit st - nr_burst_credit_consumed st
   \<Longrightarrow> balanced R st \<Longrightarrow> balanced R st'"
  by (auto simp: balanced_def)

lemma sum_list_incr: "i < length xs \<Longrightarrow> sum_list (xs[i := xs ! i + 1]) = sum_list xs + (1 :: u64)"
  by (induction xs arbitrary: i) (auto simp: nth_Cons split: nat.splits)

lemma balanced_dispatch:
  assumes "balanced R st" "unat t < 4"
  shows "balanced R (dispatch_stat new t st)"
  using assms by (auto simp: balanced_def dispatch_stat_def Let_def sum_list_incr)

section \<open>The handlers keep the balance\<close>

lemma accounts_emit: "accounts R s \<Longrightarrow> accounts R (emit k s)"
  by (erule accounts_same [rotated]) (simp add: emit_def)

lemma accounts_put: "accounts R s \<Longrightarrow> accounts R (put_ctx p c s)"
  by (erule accounts_same [rotated]) (simp add: put_ctx_def)

lemma accounts_upd_mbox: "accounts R s \<Longrightarrow> accounts R (upd_mbox c f s)"
  by (erule accounts_same [rotated]) (simp add: upd_mbox_def)

lemma accounts_mask: "accounts R s \<Longrightarrow> accounts R (set_tier_cpu t c s)" "accounts R s \<Longrightarrow> accounts R (clear_tier_cpu t c s)"
  by (auto elim!: accounts_same [rotated] simp: set_tier_cpu_def clear_tier_cpu_def Let_def)

lemma accounts_insert: "accounts R s \<Longrightarrow> accounts R (insert_llc p l sl v f s)"
  by (erule accounts_same [rotated]) (simp add: insert_llc_def llc_mark_nonempty_def emit_def Let_def)

lemma accounts_kick: "accounts R s \<Longrightarrow> accounts R (preemption_kick K t l s)"
  by (auto simp: preemption_kick_def intro: accounts_emit split: option.split)

lemmas accounts_intros = accounts_emit accounts_put accounts_upd_mbox accounts_mask accounts_insert accounts_kick
  accounts_count

lemma accounts_running: "accounts R s \<Longrightarrow> accounts R (imperator_running R' smp now p s)"
  by (auto simp: imperator_running_def publish_running_tier_def Let_def
      intro!: accounts_intros elim!: balanced_cong [rotated 4] split: option.split)

lemma accounts_stopping: "accounts R s \<Longrightarrow> accounts R (imperator_stopping R' smp now now2 p runnable s)"
  by (auto simp: imperator_stopping_def Let_def intro!: accounts_intros split: option.split)


lemma accounts_tick_blocks:
  "accounts R s \<Longrightarrow> accounts R (publish_tick_tier c t s)"
  "accounts R s \<Longrightarrow> accounts R (request_perf c u s)"
  "accounts R s \<Longrightarrow> accounts R (set_tick_counter c v s)"
  by (auto simp: publish_tick_tier_def request_perf_def set_tick_counter_def Let_def intro!: accounts_intros)

lemma accounts_dvfs:
  "accounts R s \<Longrightarrow> accounts R (mailbox_dvfs_max K c t s)" "accounts R s \<Longrightarrow> accounts R (mailbox_dvfs R' cap c t s)"
  by (auto simp: mailbox_dvfs_max_def mailbox_dvfs_def Let_def intro!: accounts_tick_blocks)

lemma accounts_preempt: "accounts R s \<Longrightarrow> accounts R (starvation_preempt R' K sm c t s)"
  by (auto simp: starvation_preempt_def Let_def
      intro!: accounts_tick_blocks accounts_intros elim!: balanced_cong [rotated 4])

lemma accounts_phase2:
  "accounts R s \<Longrightarrow> accounts R (after_phase2 R' K cap cpu t (tick_phase2 R' K inp p c cpu t rt s))"
  unfolding tick_phase2_def after_phase2_def Let_def
  by (auto intro!: accounts_dvfs accounts_preempt accounts_tick_blocks accounts_intros
      elim!: balanced_cong [rotated 4] split: option.split)

lemma accounts_tick: "accounts R s \<Longrightarrow> accounts R (imperator_tick R' K inp p s)"
proof (cases "task_ctx s p")
  case None
  then show "accounts R s \<Longrightarrow> ?thesis" by (simp add: tick_unstamped)
next
  case (Some c)
  assume s: "accounts R s"
  show ?thesis
  proof (cases "last_run_at c = 0")
    case True
    then show ?thesis using s by (simp add: tick_unstamped(2) [OF Some] accounts_put)
  next
    case False
    show ?thesis
      unfolding imperator_tick_eq [OF Some False] Let_def
      using s accounts_phase2 [OF s, of R' K "in_cpuperf_cap inp" "in_smp_id inp AND 63" "ctx_tier c" inp p c]
      by (auto simp: after_phase2_def slice_expiry_kick_def intro!: accounts_emit accounts_tick_blocks)
  qed
qed

lemma accounts_try: "try_llc inp l s = (b, t) \<Longrightarrow> accounts R s \<Longrightarrow> accounts R t"
  by (auto simp: try_llc_def Let_def store_empty_def accounts_def emit_def split: if_splits)

lemma accounts_steal: "accounts R s \<Longrightarrow> accounts R (steal_loop inp n m s)"
proof (induction n arbitrary: m s)
  case (Suc n)
  obtain b t where t: "try_llc inp (BIT_SCAN_FORWARD_U32 m) s = (b, t)" by (metis prod.exhaust)
  then show ?case using Suc.IH [OF accounts_try [OF t Suc.prems]] accounts_try [OF t Suc.prems] Suc.prems
    by (simp add: Let_def)
qed simp

lemma accounts_dispatch: "accounts R s \<Longrightarrow> accounts R (imperator_dispatch R' inp s)"
proof -
  assume s: "accounts R s"
  let ?my = "cpu_llc_id R' ! unat (dsp_raw_cpu inp AND 63)"
  obtain b t where t: "try_llc inp ?my s = (b, t)" by (metis prod.exhaust)
  obtain m c mc where sc: "steal_scan R' ?my t = (m, c, mc)" by (metis prod_cases3)
  obtain b2 t2 where t2: "try_llc inp c t = (b2, t2)" by (metis prod.exhaust)
  show ?thesis
    unfolding imperator_dispatch_def Let_def t sc prod.case t2
    using accounts_try [OF t s] accounts_try [OF t2 accounts_try [OF t s]] by (auto intro: accounts_steal)
qed

lemma accounts_task_ctx: "accounts R s \<Longrightarrow> accounts R (s\<lparr>task_ctx := x\<rparr>)"
  by (simp add: accounts_def)

lemma accounts_enable: "accounts R s \<Longrightarrow> accounts R (snd (imperator_enable R' ok t s))"
  using enable_upd [of R' ok t s] by (auto intro: accounts_task_ctx)

lemma accounts_init_task: "accounts R s \<Longrightarrow> accounts R (snd (imperator_init_task R' t fork s))"
  using init_task_upd [of R' t "fork" s] by (auto intro: accounts_task_ctx)

lemma accounts_lock: "accounts R s \<Longrightarrow> accounts R (lock_handler cur e s)"
  using lock_handler_upd [of cur e s] by (auto simp: upd_ctx_def intro: accounts_task_ctx)

lemma accounts_init:
  assumes "imperator_init R' create s = (ret, s')" "length (llc_cpu_mask s) = 8" "accounts R s"
  shows "accounts R s'"
proof (rule accounts_same [OF _ assms(3)])
  show "global_stats s' = global_stats s"
    using arg_cong [OF init_effect(3) [OF assms(1,2), of 0], of global_stats] by simp
qed

lemma accounts_zero: "accounts R bss_zero"
  by (simp add: accounts_def bss_zero_def balanced_def stats_zero_def sum_list_replicate)

text \<open>Selection counts a direct dispatch at a tier below four.\<close>

lemma accounts_select: "accounts R s \<Longrightarrow> accounts R (snd (imperator_select_cpu R' K inp p prev s))"
proof -
  assume s: "accounts R s"
  obtain cpu0 idle where d: "sel_dfl inp prev = (cpu0, idle)" by (metis prod.exhaust)
  define s1 where "s1 = (if irq_context K inp then mark_irq_wake (ts_id p) s else s)"
  define s2 where "s2 = s1\<lparr>dummy_idle := (dummy_idle s1)[unat (sel_smp_id inp AND 63) := idle]\<rparr>"
  obtain tier slc s3 where c: "consume_irq_wake_get_tier_slice R' (sel_smp_id inp) (ts_id p) s2 = (tier, slc, s3)"
    by (metis prod_cases3)
  have s2: "accounts R s2"
    using s by (auto simp: s2_def s1_def accounts_def mark_irq_wake_def upd_ctx_def)
  have "unat tier < 4 \<and> accounts R s3"
    using c s2 unat_packed_tier
    by (auto simp: consume_irq_wake_get_tier_slice_def Let_def intro!: accounts_intros
        elim!: balanced_cong [rotated 4] split: option.splits if_splits)
  then show ?thesis
    unfolding imperator_select_cpu_def Let_def d prod.case s1_def [symmetric] s2_def [symmetric] c
    using s2 by (auto intro!: accounts_intros balanced_dispatch)
qed

text \<open>Enqueue counts an earned credit and its consumption together, because no credit is carried over.\<close>

lemma earns_iff_spends:
  assumes "burst_credit c = 0" "credit_unit R \<noteq> 0"
  shows "0 < burst_credit (credited R K inp c) \<longleftrightarrow> burst_earns R K (enq_flags inp) (ctx_tier c)"
proof -
  have cap: "burst_earns R K (enq_flags inp) (ctx_tier c) \<Longrightarrow> 0 < tier_burst_cap_kns R ! unat (CAKE_TIER_IDX (ctx_tier c))"
    by (simp add: burst_earns_def)
  have unit: "0 < (ucast (drop_bit 12 (quantum_ns R)) :: u16)"
    using assms(2) by (simp add: credit_unit_def word_gt_0)
  have new: "(ucast (ucast (x :: u16) :: u32) :: u16) = x" for x
    by (rule bit_word_eqI) (simp add: bit_simps)
  show ?thesis
    unfolding credited_def burst_earn_def Let_def using cap unit by (auto simp: assms(1) new)
qed

lemma accounts_credit:
  assumes "accounts R s" "credit_unit R \<noteq> 0 \<Longrightarrow> spends = earns"
  shows "accounts R (count_when spends R smp (\<lambda>st. st\<lparr>nr_burst_credit_consumed := nr_burst_credit_consumed st + 1\<rparr>)
      (count_when earns R smp (\<lambda>st. st\<lparr>nr_preempt_with_credit := nr_preempt_with_credit st + 1\<rparr>) s))"
proof (cases "credit_unit R = 0")
  case True
  then show ?thesis
    using assms(1) by (auto simp: count_when_def balanced_def intro!: accounts_count)
next
  case False
  then show ?thesis
    using assms by (auto simp: count_when_def count_stat_twice balanced_def intro!: accounts_count)
qed

lemma accounts_when: "accounts R s \<Longrightarrow> (\<And>st. balanced R st \<Longrightarrow> balanced R (f st)) \<Longrightarrow> accounts R (count_when b R' c f s)"
  by (simp add: count_when_def accounts_count)

lemma accounts_enqueue_full:
  assumes s: "accounts R s" and c: "burst_credit c = 0"
  shows "accounts R (enqueue_full R K inp p c llc s)"
proof -
  obtain sl d where sp: "burst_spend R (next_slice c) (credited R K inp c) = (sl, d)" by (metis prod.exhaust)
  obtain b e where irq: "irq_override (ctx_tier c) d = (b, e)" by (metis prod.exhaust)
  have rec: "sleep_recovery (ucast (enq_now inp)) (c\<lparr>enqueue_time := ucast (enq_now inp)\<rparr>) = recovered inp c"
    by (simp add: recovered_def)
  have tier: "(ucast (CAKE_TIER_IDX (GET_TIER (recovered inp c))) :: u8) = ctx_tier c"
    by (simp add: ctx_tier_def)
  have "unat b < 4" using irq unat_ctx_tier [of c] by (auto simp: irq_override_def split: if_splits)
  moreover have "unat t < 4" if "waker_promotes K fl m b = Some t" for fl m t
    using that \<open>unat b < 4\<close> by (auto simp: waker_promotes_def Let_def word_less_nat_alt split: if_splits)
  ultimately have b: "unat (case waker_promotes K fl m b of Some t \<Rightarrow> t | None \<Rightarrow> b) < 4" for fl m
    by (auto split: option.split)
  note credit = accounts_credit [OF s earns_iff_spends [OF c]]
  show ?thesis
    unfolding enqueue_full_def Let_def rec tier recovered_sel credited_def [symmetric] sp prod.case irq
    by (intro accounts_kick accounts_insert credit accounts_count balanced_dispatch b accounts_when accounts_put;
        (assumption | erule balanced_cong [rotated 4]; simp))
qed

lemma accounts_enqueue:
  assumes "accounts R s" "good R s"
  shows "accounts R (imperator_enqueue R K inp p s)"
  using assms
  by (auto simp: imperator_enqueue_eq good_def ctxs_ok_def ctx_inv_def
      intro!: accounts_insert accounts_enqueue_full split: option.split)

section \<open>Reachable states\<close>

lemma accounts_user_write: "accounts R s \<Longrightarrow> accounts R (store_etd_cost a b v s)" "accounts R s \<Longrightarrow> accounts R (reset_stats_block i s)"
  by (auto simp: accounts_def frame_simps reset_stats_block_def balanced_def stats_zero_def sum_list_replicate dest!: in_set_update)

lemma accounts_step:
  assumes "sched_step R K m m'" "accounts R (kern m)" "good R (kern m)"
  shows "accounts R (kern m')"
  using assms
  by (cases rule: sched_step.cases)
     (simp_all add: accounts_select accounts_enqueue accounts_dispatch accounts_running accounts_tick
        accounts_stopping accounts_enable accounts_init_task accounts_lock
        accounts_task_ctx accounts_user_write)

lemma reachable_accounts:
  assumes "reachable R K m" "config_ok R"
  shows "accounts R (kern m)"
  using assms(1)
proof induction
  case (loaded create s)
  then show ?case using accounts_init [OF _ _ accounts_zero] by (simp add: bss_zero_def)
next
  case (step m m')
  then show ?case using reachable_inv [OF step.hyps(1) assms(2)] by (auto simp: machine_inv_def intro: accounts_step)
qed

lemma balanced_add:
  assumes "balanced R st" "balanced R acc"
  shows "balanced R (add_stats st acc)"
proof -
  obtain a b c d where l: "nr_tier_dispatches st = [a, b, c, d]"
    using assms(1) by (auto simp: balanced_def length_Suc_conv numeral_eq_Suc)
  obtain a' b' c' d' where l': "nr_tier_dispatches acc = [a', b', c', d']"
    using assms(2) by (auto simp: balanced_def length_Suc_conv numeral_eq_Suc)
  have upt: "[0..<4 :: nat] = [0, 1, 2, 3]" by (simp add: upt_rec)
  show ?thesis
    using assms by (auto simp: balanced_def add_stats_def l l' upt algebra_simps)
qed

lemma balanced_aggregate:
  assumes "\<forall>st \<in> set blocks. balanced R st"
  shows "balanced R (aggregate_stats blocks)"
proof -
  have "balanced R acc \<Longrightarrow> balanced R (fold add_stats blocks acc)" for acc
    using assms by (induction blocks arbitrary: acc) (auto intro: balanced_add)
  moreover have "balanced R stats_zero"
    by (simp add: balanced_def stats_zero_def sum_list_replicate)
  ultimately show ?thesis unfolding aggregate_stats_def by blast
qed

section \<open>Properties\<close>

text \<open>
  C39. The counters agree. In every reachable state the sums over all CPUs satisfy: new-flow and old-flow
  dispatches together are the dispatches of the four tiers, and, unless the quantum is so small that a preemption
  earns nothing, preemptions that earned credit are exactly the dispatches that consumed credit:
  the ratio of the two is 1, not merely near it. (Sums wrap at 64 bits, as in a release build.)
\<close>

theorem statistics_agree:
  assumes "reachable R K m" "config_ok R" "st = aggregate_stats (global_stats (kern m))"
  shows "nr_new_flow_dispatches st + nr_old_flow_dispatches st = sum_list (nr_tier_dispatches st)
    \<and> (credit_unit R \<noteq> 0 \<longrightarrow> nr_preempt_with_credit st = nr_burst_credit_consumed st)"
proof -
  have "balanced R st"
    using reachable_accounts [OF assms(1,2)] assms(3) by (auto simp: accounts_def intro: balanced_aggregate)
  then show ?thesis by (simp add: balanced_def)
qed

theorem statistics_agree_witness:
  "\<exists>m. reachable example_rodata example_kabi m
    \<and> (let st = aggregate_stats (global_stats (kern m)) in
      nr_preempt_with_credit st = nr_burst_credit_consumed st
      \<and> nr_new_flow_dispatches st + nr_old_flow_dispatches st = sum_list (nr_tier_dispatches st))"
proof -
  obtain m where m: "reachable example_rodata example_kabi m"
    using example_machine by blast
  have "credit_unit example_rodata \<noteq> 0"
    by (simp add: credit_unit_def example_rodata_def rodata_default_def)
  with statistics_agree [OF m example_config refl] m show ?thesis by (auto simp: Let_def)
qed

end
