(* ===== verification/Waiting.thy ===== *)
theory Waiting
  imports Enqueue
begin

text \<open>
  One LLC's queue over time: tasks arrive with the virtual time \<open>imperator_enqueue\<close> of
  \<open>src/src/bpf/imperator.bpf.c\<close> inserts them at, and every dispatch takes the task of the smallest virtual time
  among those its CPU may run, which is what sched\_ext documents for a vtime-ordered queue. The
  tier deadlines bound how often a waiting task is passed.
\<close>

section \<open>The queue\<close>

definition insert_key :: "rodata \<Rightarrow> kabi \<Rightarrow> enq_input \<Rightarrow> task_struct \<Rightarrow> sched \<Rightarrow> u64" where
  \<comment> \<open>the virtual time in the first call the handler makes\<close>
  "insert_key R K inp p s =
     (case kcalls (imperator_enqueue R K inp p s) ! length (kcalls s) of Dsq_insert_vtime _ _ _ vtime _ \<Rightarrow> vtime | _ \<Rightarrow> 0)"

record lane =
  lane_now :: u64
  lane_keys :: "tid \<rightharpoonup> u64"  \<comment> \<open>the waiting tasks and their virtual times\<close>

datatype lane_event =
    Arrive tid
  | Pass  \<comment> \<open>time passes\<close>
  | Take "tid \<Rightarrow> bool" tid  \<comment> \<open>a CPU that may run the tasks of the predicate takes one\<close>
  | Gone tid  \<comment> \<open>dequeued by the kernel\<close>

inductive lane_step :: "rodata \<Rightarrow> kabi \<Rightarrow> lane \<Rightarrow> lane_event \<Rightarrow> lane \<Rightarrow> bool" for R K where
  arrive: "ts_id p \<notin> dom (lane_keys z) \<Longrightarrow> lane_now z \<le> enq_now inp \<Longrightarrow> clock_ok (enq_now inp) \<Longrightarrow>
    lane_step R K z (Arrive (ts_id p))
      (z\<lparr>lane_now := enq_now inp, lane_keys := (lane_keys z)(ts_id p \<mapsto> insert_key R K inp p s)\<rparr>)"
| pass: "lane_now z \<le> t \<Longrightarrow> clock_ok t \<Longrightarrow> lane_step R K z Pass (z\<lparr>lane_now := t\<rparr>)"
| take: "lane_keys z p = Some k \<Longrightarrow> ok p \<Longrightarrow> (\<forall>q k'. lane_keys z q = Some k' \<longrightarrow> ok q \<longrightarrow> k \<le> k') \<Longrightarrow>
    lane_step R K z (Take ok p) (z\<lparr>lane_keys := (lane_keys z)(p := None)\<rparr>)"
| gone: "lane_step R K z (Gone p) (z\<lparr>lane_keys := (lane_keys z)(p := None)\<rparr>)"

inductive lane_run :: "rodata \<Rightarrow> kabi \<Rightarrow> lane \<Rightarrow> lane_event list \<Rightarrow> lane \<Rightarrow> bool" for R K where
  stop: "lane_run R K z [] z"
| step: "lane_step R K z e z1 \<Longrightarrow> lane_run R K z1 es z' \<Longrightarrow> lane_run R K z (e # es) z'"

fun is_take :: "lane_event \<Rightarrow> bool" where
  "is_take (Take ok p) = True"
| "is_take _ = False"

section \<open>Virtual times of arrivals\<close>

lemma insert_key_deadline:
  "\<exists>t adv. insert_key R K inp p s = tier_deadline R (enq_now inp) t adv \<and> unat t < 4
     \<and> unat adv \<le> 2 * unat (new_flow_bonus_ns R)"
proof -
  have adv: "unat (vtime_advance R w) \<le> 2 * unat (new_flow_bonus_ns R)" for w
    by (simp add: vtime_advance_def unat_word_ariths order_trans [OF mod_less_eq_dividend])
  have "unat (0 :: u64) \<le> 2 * unat (new_flow_bonus_ns R)" by simp
  note early = this
  show ?thesis
  proof (cases "\<exists>c. task_ctx s (ts_id p) = Some c \<and> placed K inp")
    case True
    then obtain c where "imperator_enqueue R K inp p s = enqueue_full R K inp p c (home_llc R inp) s"
      by (auto simp: imperator_enqueue_eq)
    then show ?thesis
      using enqueue_full_effect(2) [OF refl refl, of R K inp p c "home_llc R inp" s] adv enq_tier_less
      by (simp add: insert_key_def) blast
  next
    case False
    then obtain sl t where "imperator_enqueue R K inp p s =
        insert_llc (ts_id p) (home_llc R inp) sl (tier_deadline R (enq_now inp) t 0) (enq_flags inp) s" "unat t < 4"
      using unat_ctx_tier by (cases "task_ctx s (ts_id p)") (auto simp: imperator_enqueue_eq)
    then show ?thesis using early by (intro exI [of _ t] exI [of _ 0]) (simp add: insert_key_def frame_simps)
  qed
qed

lemma insert_key_bounds:
  assumes R: "budgets_increase R" and now: "clock_ok (enq_now inp)"
  shows "unat (insert_key R K inp p s) \<le> unat (enq_now inp) + budget_ns R 3"
    "unat (enq_now inp) + budget_ns R 0 \<le> unat (insert_key R K inp p s) + 2 * unat (new_flow_bonus_ns R)"
proof -
  obtain t adv where k: "insert_key R K inp p s = tier_deadline R (enq_now inp) t adv" "unat t < 4"
    "unat adv \<le> 2 * unat (new_flow_bonus_ns R)" using insert_key_deadline by blast
  note edf = edf_key_tier_deadline [OF R]
  show "unat (insert_key R K inp p s) \<le> unat (enq_now inp) + budget_ns R 3"
    using edf_key.key_le [OF edf now k(2), of adv] edf_key.budget_le [OF edf, of "unat t" 3] k by simp
  show "unat (enq_now inp) + budget_ns R 0 \<le> unat (insert_key R K inp p s) + 2 * unat (new_flow_bonus_ns R)"
    using edf_key.key_ge [OF edf now k(2), of adv] edf_key.budget_le [OF edf, of 0 "unat t"] k by simp
qed

section \<open>Nobody new gets ahead\<close>

definition ahead :: "tid \<Rightarrow> u64 \<Rightarrow> lane \<Rightarrow> tid set" where
  \<comment> \<open>the tasks that may be taken before \<open>p\<close>\<close>
  "ahead p k z = {q. q \<noteq> p \<and> (\<exists>k'. lane_keys z q = Some k' \<and> k' \<le> k)}"

definition passed_window :: "rodata \<Rightarrow> u64 \<Rightarrow> lane \<Rightarrow> bool" where
  \<comment> \<open>every arrival from now on gets a larger virtual time than \<open>k\<close>\<close>
  "passed_window R k z \<longleftrightarrow> unat k + 2 * unat (new_flow_bonus_ns R) < unat (lane_now z) + budget_ns R 0"

lemma lane_step_ahead:
  assumes step: "lane_step R K z e z'" and R: "budgets_increase R" and w: "passed_window R k z"
    and p: "lane_keys z p = Some k" and fin: "finite (dom (lane_keys z))"
    and e: "e \<noteq> Gone p" "\<forall>ok. e \<noteq> Take ok p" "\<forall>ok q. e = Take ok q \<longrightarrow> ok p"
  shows "passed_window R k z' \<and> lane_keys z' p = Some k \<and> finite (dom (lane_keys z'))
    \<and> card (ahead p k z') + (if is_take e then 1 else 0) \<le> card (ahead p k z)"
proof -
  have finA: "finite (ahead p k z)" using fin by (rule finite_subset [rotated]) (auto simp: ahead_def)
  show ?thesis
    using step
  proof (cases rule: lane_step.cases)
    case (arrive q inp s)
    let ?new = "insert_key R K inp q s"
    have "unat (enq_now inp) + budget_ns R 0 \<le> unat ?new + 2 * unat (new_flow_bonus_ns R)"
      using insert_key_bounds(2) [OF R arrive(5)] .
    moreover have "unat (lane_now z) \<le> unat (enq_now inp)" using arrive(4) by (simp add: word_le_nat_alt)
    ultimately have "k < ?new" using w by (simp add: passed_window_def word_less_nat_alt)
    moreover have "ts_id q \<noteq> p" using arrive(3) p by auto
    ultimately have "ahead p k z' = ahead p k z" using arrive(2,3) by (auto simp: ahead_def dom_def)
    then show ?thesis
      using arrive w p fin \<open>ts_id q \<noteq> p\<close> \<open>unat (lane_now z) \<le> unat (enq_now inp)\<close> by (simp add: passed_window_def)
  next
    case (pass t)
    then show ?thesis using w p fin by (auto simp: passed_window_def ahead_def word_le_nat_alt)
  next
    case (take q k' ok)
    have "q \<noteq> p" "k' \<le> k" using take p e(2,3) by auto
    then have "q \<in> ahead p k z" using take(3) by (simp add: ahead_def)
    moreover have "ahead p k z' = ahead p k z - {q}" using take(2) by (auto simp: ahead_def)
    ultimately have "Suc (card (ahead p k z')) = card (ahead p k z)" using card_Suc_Diff1 [OF finA, of q] by (simp only:)
    then show ?thesis using take w p fin \<open>q \<noteq> p\<close> by (simp add: passed_window_def)
  next
    case (gone q)
    have "q \<noteq> p" using gone e(1) by auto
    have "ahead p k z' \<subseteq> ahead p k z" using gone by (auto simp: ahead_def)
    then have "card (ahead p k z') \<le> card (ahead p k z)" using finA by (rule card_mono [rotated])
    then show ?thesis using gone w p fin \<open>q \<noteq> p\<close> by (simp add: passed_window_def)
  qed
qed

lemma lane_run_takes:
  assumes "lane_run R K z es z'" "budgets_increase R" "passed_window R k z" "lane_keys z p = Some k" "finite (dom (lane_keys z))"
    and "Gone p \<notin> set es" "\<forall>ok. Take ok p \<notin> set es" "\<forall>ok q. Take ok q \<in> set es \<longrightarrow> ok p"
  shows "length (filter is_take es) \<le> card (ahead p k z)"
  using assms
proof (induction rule: lane_run.induct)
  case (step z e z1 es z')
  have e: "e \<noteq> Gone p" "\<forall>ok. e \<noteq> Take ok p" "\<forall>ok q. e = Take ok q \<longrightarrow> ok p" using step.prems by auto
  note s = lane_step_ahead [OF step.hyps(1) step.prems(1-4) e]
  have "length (filter is_take es) \<le> card (ahead p k z1)"
    using s step.prems by (intro step.IH) auto
  then show ?case using s by auto
qed simp

section \<open>Properties\<close>

text \<open>
  C6. No task starves in a queue. Once a queued task has waited for the T3 budget plus twice the
  new-flow bonus minus the T0 budget, it is taken after at most as many dispatches as there are
  tasks ahead of it at that moment, whatever arrives later and with whatever tier and advances, as
  long as the dispatching CPUs may run it and the kernel does not dequeue it.
\<close>

theorem no_starvation_in_queue:
  assumes run: "lane_run R K z es z'" and R: "budgets_increase R"
    and k: "lane_keys z (ts_id p) = Some (insert_key R K inp p s)" and now: "clock_ok (enq_now inp)"
    and waited: "unat (enq_now inp) + budget_ns R 3 + 2 * unat (new_flow_bonus_ns R) < unat (lane_now z) + budget_ns R 0"
    and fin: "finite (dom (lane_keys z))" and stays: "Gone (ts_id p) \<notin> set es"
    and may: "\<forall>ok q. Take ok q \<in> set es \<longrightarrow> ok (ts_id p)"
    and takes: "card (ahead (ts_id p) (insert_key R K inp p s) z) < length (filter is_take es)"
  shows "\<exists>ok. Take ok (ts_id p) \<in> set es"
proof (rule ccontr)
  assume "\<nexists>ok. Take ok (ts_id p) \<in> set es"
  then have never: "\<forall>ok. Take ok (ts_id p) \<notin> set es" by simp
  have "passed_window R (insert_key R K inp p s) z"
    using insert_key_bounds(1) [OF R now, of K p s] waited by (simp add: passed_window_def)
  from lane_run_takes [OF run R this k fin stays never may] takes show False by simp
qed

theorem no_starvation_in_queue_witness:
  "\<exists>z z'. lane_run rodata_default example_kabi z [Take (\<lambda>_. True) 9, Take (\<lambda>_. True) 7] z'
     \<and> (\<exists>ok. Take ok (ts_id example_task) \<in> set [Take (\<lambda>_. True) 9, Take (\<lambda>_. True) 7])"
proof -
  let ?R = rodata_default and ?K = example_kabi and ?T = "Take (\<lambda>_. True)"
  let ?k = "insert_key ?R ?K example_enq example_task example_sched"
  define z where "z = \<lparr>lane_now = 200000000, lane_keys = [7 \<mapsto> ?k, 9 \<mapsto> 0]\<rparr>"
  define z1 where "z1 = z\<lparr>lane_keys := (lane_keys z)(9 := None)\<rparr>"
  define z2 where "z2 = z1\<lparr>lane_keys := (lane_keys z1)(7 := None)\<rparr>"
  have "lane_step ?R ?K z (?T 9) z1"
    unfolding z1_def by (rule lane_step.take [of _ _ 0]) (simp_all add: z_def)
  moreover have "lane_step ?R ?K z1 (?T 7) z2"
    unfolding z2_def by (rule lane_step.take [of _ _ ?k]) (auto simp: z1_def z_def)
  ultimately have run: "lane_run ?R ?K z [?T 9, ?T 7] z2" by (auto intro: lane_run.intros)
  have id: "ts_id example_task = 7" by (simp add: example_task_def)
  have "ahead 7 ?k z \<subseteq> {9}" by (auto simp: ahead_def z_def split: if_splits)
  then have "card (ahead 7 ?k z) \<le> 1" using card_mono [of "{9 :: tid}"] by fastforce
  then have "card (ahead (ts_id example_task) ?k z) < length (filter is_take [?T 9, ?T 7])" unfolding id by simp
  moreover have "lane_keys z (ts_id example_task) = Some ?k" "clock_ok (enq_now example_enq)"
    by (simp_all add: z_def id clock_ok_def example_enq_def)
  moreover have "unat (enq_now example_enq) + budget_ns ?R 3 + 2 * unat (new_flow_bonus_ns ?R) < unat (lane_now z) + budget_ns ?R 0"
    unfolding budget_ns_default by (simp add: z_def example_enq_def rodata_default_def)
  moreover have "finite (dom (lane_keys z))" by (simp add: z_def)
  ultimately have "\<exists>ok. Take ok (ts_id example_task) \<in> set [?T 9, ?T 7]"
    using no_starvation_in_queue [OF run budgets_increase_default] by simp
  with run show ?thesis by blast
qed

end
