(* ===== verification/Layout.thy ===== *)
theory Layout
  imports Sched_State
begin

text \<open>
  The storage under the records: byte memory, the relaxed accessors of
  \<open>src/src/bpf/bpf_compat.h\<close>, and the layout of \<open>struct imperator_task_ctx\<close>,
  \<open>struct mega_mailbox_entry\<close>, \<open>llc_nonempty\<close> and \<open>tier_cpu_mask\<close>. The other theories work on
  records; this one shows that a store through an accessor to the offset of a field is the update
  of that field of the record and of nothing else, the unions of the task context included.
  Addresses are 64-bit words and wrap around; the byte order is the little-endian one of
  the \<open>bpfel\<close> target.
\<close>

section \<open>Byte memory\<close>

type_synonym memory = "u64 \<Rightarrow> u8"

fun le_load :: "nat \<Rightarrow> memory \<Rightarrow> u64 \<Rightarrow> 'a::len word" where
  "le_load 0 m p = 0"
| "le_load (Suc n) m p = ucast (m p) OR push_bit 8 (le_load n m (p + 1))"

definition le_store :: "nat \<Rightarrow> 'a::len word \<Rightarrow> u64 \<Rightarrow> memory \<Rightarrow> memory" where
  "le_store n v p m = (\<lambda>q. let i = unat (q - p) in if i < n then ucast (drop_bit (8 * i) v) else m q)"

lemma bit_le_load:
  "bit (le_load n m p :: 'a::len word) k
   \<longleftrightarrow> k < LENGTH('a) \<and> k < 8 * n \<and> bit (m (p + of_nat (k div 8))) (k mod 8)"
proof (induction n arbitrary: p k)
  case 0
  then show ?case by simp
next
  case (Suc n)
  show ?case
  proof (cases "k < 8")
    case True
    then show ?thesis by (auto simp: bit_simps)
  next
    case False
    then have k: "k div 8 = Suc ((k - 8) div 8)" "(k - 8) mod 8 = k mod 8"
      by (simp_all add: le_div_geq le_mod_geq)
    have "bit (le_load (Suc n) m p :: 'a word) k
          \<longleftrightarrow> k < LENGTH('a) \<and> bit (le_load n m (p + 1) :: 'a word) (k - 8)"
      using False bit_imp_le_length [of "m p" k] by (auto simp: bit_simps)
    then show ?thesis
      using False by (auto simp: Suc.IH k algebra_simps)
  qed
qed

lemma unat_of_nat_8 [simp]: "k < 64 \<Longrightarrow> unat (of_nat (k div 8) :: u64) = k div 8"
  by (simp add: unat_of_nat)

lemma le_load_store:
  fixes v :: "'a::len word"
  assumes "LENGTH('a) = 8 * n" "n \<le> 8"
  shows "le_load n (le_store n v p m) p = v"
proof (rule bit_word_eqI)
  fix k assume "k < LENGTH('a)"
  with assms show "bit (le_load n (le_store n v p m) p :: 'a word) k \<longleftrightarrow> bit v k"
    by (auto simp: bit_le_load le_store_def Let_def bit_simps less_mult_imp_div_less)
qed

lemma le_store_load:
  assumes "LENGTH('a::len) = 8 * n" "n \<le> 8"
  shows "le_store n (le_load n m p :: 'a word) p m = m"
proof
  fix q
  show "le_store n (le_load n m p :: 'a word) p m q = m q"
  proof (cases "unat (q - p) < n")
    case True
    have "(ucast (drop_bit (8 * unat (q - p)) (le_load n m p :: 'a word)) :: u8) = m q"
      using True assms by (intro bit_word_eqI) (auto simp: bit_simps bit_le_load)
    with True show ?thesis by (simp add: le_store_def)
  qed (simp add: le_store_def)
qed

lemma le_store_frame: "n \<le> unat (q - p) \<Longrightarrow> le_store n v p m q = m q"
  by (simp add: le_store_def)

lemma le_store_hit: "unat (q - p) < n \<Longrightarrow> le_store n v p m q = le_store n v p m' q"
  by (simp add: le_store_def)

lemma le_load_cong:
  "(\<And>i. i < n \<Longrightarrow> m (p + of_nat i) = m' (p + of_nat i)) \<Longrightarrow> le_load n m p = le_load n m' p"
  by (rule bit_word_eqI) (auto simp: bit_le_load less_mult_imp_div_less)

section \<open>Accessors\<close>

text \<open>
  The contract of a relaxed accessor pair of \<open>width\<close> bytes: a load sees the last store to its
  address, a store writes the bytes of its own range and no other, storing what is there changes
  nothing. Two ranges that do not meet are \<open>apart\<close>.
\<close>

definition apart :: "u64 \<Rightarrow> nat \<Rightarrow> u64 \<Rightarrow> nat \<Rightarrow> bool" where
  "apart p n q k \<longleftrightarrow> n \<le> unat (q - p) \<and> k \<le> unat (p - q)"

lemma apart_sym: "apart p n q k \<longleftrightarrow> apart q k p n"
  by (auto simp: apart_def)

lemma apart_byte:
  assumes "apart p n q k" "i < k" "k \<le> 8"
  shows "n \<le> unat (q + of_nat i - p)"
proof -
  have i: "unat (of_nat i :: u64) = i" using assms(2,3) by (simp add: unat_of_nat)
  have pq: "p \<noteq> q" using assms by (auto simp: apart_def)
  have "k \<le> 2 ^ 64 - unat (q - p)"
    using assms(1) pq unsigned_less [of p, where 'a = nat] unsigned_less [of q, where 'a = nat]
    by (auto simp: apart_def unat_sub_if_size word_size split: if_splits)
  moreover have "unat (q - p) < 2 ^ 64" using unsigned_less [of "q - p"] by simp
  ultimately have "unat (q - p) + i < 2 ^ 64" using assms(2) by linarith
  then have "unat ((q - p) + of_nat i) = unat (q - p) + i"
    by (simp add: unat_word_ariths(1) i)
  then have "n \<le> unat ((q - p) + of_nat i)" using assms(1) unfolding apart_def by linarith
  then show ?thesis by (simp add: algebra_simps)
qed

locale accessor =
  fixes width :: nat
    and load :: "memory \<Rightarrow> u64 \<Rightarrow> 'a::len word"
    and store :: "'a word \<Rightarrow> u64 \<Rightarrow> memory \<Rightarrow> memory"
  assumes width: "width \<le> 8"
    and load_store: "load (store v p m) p = v"
    and store_load: "store (load m p) p m = m"
    and store_frame: "width \<le> unat (q - p) \<Longrightarrow> store v p m q = m q"
    and store_hit: "unat (q - p) < width \<Longrightarrow> store v p m q = store v p m' q"
    and load_cong: "(\<And>i. i < width \<Longrightarrow> m (p + of_nat i) = m' (p + of_nat i)) \<Longrightarrow> load m p = load m' p"
begin

lemma load_frame:
  assumes "apart r n p width" and "\<And>q. n \<le> unat (q - r) \<Longrightarrow> m' q = m q"
  shows "load m' p = load m p"
proof (rule load_cong)
  fix i assume "i < width"
  from assms(2) [OF apart_byte [OF assms(1) this width]]
  show "m' (p + of_nat i) = m (p + of_nat i)" .
qed

lemma load_after:
  assumes "accessor n load' (store' :: 'b::len word \<Rightarrow> u64 \<Rightarrow> memory \<Rightarrow> memory)"
    and "apart r n p width"
  shows "load (store' v r m) p = load m p"
  using assms(2) by (rule load_frame) (rule accessor.store_frame [OF assms(1)])

lemma store_store: "store v p (store w p m) = store v p m"
proof
  fix q
  show "store v p (store w p m) q = store v p m q"
    by (cases "unat (q - p) < width") (auto simp: store_frame dest: store_hit)
qed

lemma store_commute:
  assumes "apart p width q width"
  shows "store v p (store w q m) = store w q (store v p m)"
proof
  fix r
  consider "unat (r - p) < width" | "unat (r - q) < width"
    | "width \<le> unat (r - p)" "width \<le> unat (r - q)" by linarith
  then show "store v p (store w q m) r = store w q (store v p m) r"
  proof cases
    case 1
    have "r = p + of_nat (unat (r - p))" by simp
    with apart_byte [OF assms [unfolded apart_sym [of p]] 1 width]
    have "width \<le> unat (r - q)" by simp
    with 1 show ?thesis by (simp add: store_frame) (rule store_hit)
  next
    case 2
    have "r = q + of_nat (unat (r - q))" by simp
    with apart_byte [OF assms 2 width]
    have "width \<le> unat (r - p)" by simp
    with 2 show ?thesis by (simp add: store_frame) (rule store_hit)
  qed (simp add: store_frame)
qed

end

lemma accessor_le:
  assumes "LENGTH('a::len) = 8 * n" "n \<le> 8"
  shows "accessor n (le_load n) (le_store n :: 'a word \<Rightarrow> _)"
  using assms
  by unfold_locales (auto simp: le_load_store le_store_load le_store_frame
      intro: le_store_hit le_load_cong)

text \<open>The formal-atomics path of the header and its inline-assembly path are the same instructions.\<close>

definition imperator_relaxed_load_u8 :: "memory \<Rightarrow> u64 \<Rightarrow> u8" where
  "imperator_relaxed_load_u8 = le_load 1"

definition imperator_relaxed_store_u8 :: "u8 \<Rightarrow> u64 \<Rightarrow> memory \<Rightarrow> memory" where
  "imperator_relaxed_store_u8 = le_store 1"

definition imperator_relaxed_load_u32 :: "memory \<Rightarrow> u64 \<Rightarrow> u32" where
  "imperator_relaxed_load_u32 = le_load 4"

definition imperator_relaxed_store_u32 :: "u32 \<Rightarrow> u64 \<Rightarrow> memory \<Rightarrow> memory" where
  "imperator_relaxed_store_u32 = le_store 4"

definition imperator_relaxed_load_u64 :: "memory \<Rightarrow> u64 \<Rightarrow> u64" where
  "imperator_relaxed_load_u64 = le_load 8"

definition imperator_relaxed_store_u64 :: "u64 \<Rightarrow> u64 \<Rightarrow> memory \<Rightarrow> memory" where
  "imperator_relaxed_store_u64 = le_store 8"

definition load_u16 :: "memory \<Rightarrow> u64 \<Rightarrow> u16" where
  \<comment> \<open>a plain access to a \<open>u16\<close> member: no relaxed accessor has this width\<close>
  "load_u16 = le_load 2"

definition store_u16 :: "u16 \<Rightarrow> u64 \<Rightarrow> memory \<Rightarrow> memory" where
  "store_u16 = le_store 2"

lemmas accessor_defs = imperator_relaxed_load_u8_def imperator_relaxed_store_u8_def
  imperator_relaxed_load_u32_def imperator_relaxed_store_u32_def
  imperator_relaxed_load_u64_def imperator_relaxed_store_u64_def load_u16_def store_u16_def

interpretation acc8: accessor 1 imperator_relaxed_load_u8 imperator_relaxed_store_u8
  unfolding accessor_defs by (rule accessor_le) simp_all

interpretation acc16: accessor 2 load_u16 store_u16
  unfolding accessor_defs by (rule accessor_le) simp_all

interpretation acc32: accessor 4 imperator_relaxed_load_u32 imperator_relaxed_store_u32
  unfolding accessor_defs by (rule accessor_le) simp_all

interpretation acc64: accessor 8 imperator_relaxed_load_u64 imperator_relaxed_store_u64
  unfolding accessor_defs by (rule accessor_le) simp_all


section \<open>Fields at an offset\<close>

definition field :: "u64 \<Rightarrow> nat \<Rightarrow> u64" where
  \<comment> \<open>the address of the member at byte offset \<open>k\<close>\<close>
  "field p k = p + of_nat k"

lemma apart_field:
  assumes "a + n \<le> b \<or> b + k \<le> a" "a + n \<le> 4096" "b + k \<le> 4096" "0 < n" "0 < k"
  shows "apart (field p a) n (field p b) k"
proof -
  have "unat (of_nat a :: u64) = a" "unat (of_nat b :: u64) = b"
    using assms by (simp_all add: unat_of_nat)
  moreover have "field p b - field p a = of_nat b - of_nat a" "field p a - field p b = of_nat a - of_nat b"
    by (simp_all add: field_def)
  ultimately show ?thesis
    using assms by (auto simp: apart_def unat_sub_if_size word_size)
qed

lemma field_field [simp]: "field (field p a) b = field p (a + b)"
  by (simp add: field_def add.assoc)

lemma field_0: "field p 0 = p"
  by (simp add: field_def)

text \<open>Loads of one width see through the stores of another at a separate offset.\<close>

lemmas load_frames =
  acc8.load_after [OF acc8.accessor_axioms apart_field] acc8.load_after [OF acc16.accessor_axioms apart_field]
  acc8.load_after [OF acc32.accessor_axioms apart_field] acc8.load_after [OF acc64.accessor_axioms apart_field]
  acc16.load_after [OF acc8.accessor_axioms apart_field] acc16.load_after [OF acc16.accessor_axioms apart_field]
  acc16.load_after [OF acc32.accessor_axioms apart_field] acc16.load_after [OF acc64.accessor_axioms apart_field]
  acc32.load_after [OF acc8.accessor_axioms apart_field] acc32.load_after [OF acc16.accessor_axioms apart_field]
  acc32.load_after [OF acc32.accessor_axioms apart_field] acc32.load_after [OF acc64.accessor_axioms apart_field]
  acc64.load_after [OF acc8.accessor_axioms apart_field] acc64.load_after [OF acc16.accessor_axioms apart_field]
  acc64.load_after [OF acc32.accessor_axioms apart_field] acc64.load_after [OF acc64.accessor_axioms apart_field]

lemmas load_stores = acc8.load_store acc16.load_store acc32.load_store acc64.load_store


text \<open>A wide load is its two halves, which is what the unions of the task context rely on.\<close>

lemma byte_field: "m (field p a + of_nat (k div 8)) = m (field p (a + k div 8))"
  by (simp add: field_def add.assoc)

lemma bit_load_u16: "bit (load_u16 m (field p a)) k \<longleftrightarrow> k < 16 \<and> bit (m (field p (a + k div 8))) (k mod 8)"
  by (simp add: load_u16_def bit_le_load byte_field)

lemma bit_load_u32:
  "bit (imperator_relaxed_load_u32 m (field p a)) k
   \<longleftrightarrow> k < 32 \<and> bit (m (field p (a + k div 8))) (k mod 8)"
  by (simp add: imperator_relaxed_load_u32_def bit_le_load byte_field)

lemma bit_load_u64:
  "bit (imperator_relaxed_load_u64 m (field p a)) k
   \<longleftrightarrow> k < 64 \<and> bit (m (field p (a + k div 8))) (k mod 8)"
  by (simp add: imperator_relaxed_load_u64_def bit_le_load byte_field)

lemma div8_shift: "(k + 16) div 8 = k div 8 + 2" "(k + 16) mod 8 = k mod 8"
    "(k + 32) div 8 = k div 8 + 4" "(k + 32) mod 8 = k mod 8" for k :: nat
  by presburger+

lemma load_u16_low: "load_u16 m (field p a) = EXTRACT_DEFICIT (imperator_relaxed_load_u32 m (field p a))"
  by (rule bit_word_eqI) (auto simp: EXTRACT_DEFICIT_def and_low_mask bit_simps bit_load_u16 bit_load_u32)

lemma load_u16_high:
  "load_u16 m (field p (a + 2)) = EXTRACT_AVG_RT (imperator_relaxed_load_u32 m (field p a))"
  by (rule bit_word_eqI)
     (auto simp: EXTRACT_AVG_RT_def bit_simps bit_load_u16 bit_load_u32 div8_shift add.commute)

lemma load_u32_halves:
  "imperator_relaxed_load_u32 m (field p a)
   = PACK_DEFICIT_AVG (load_u16 m (field p a)) (load_u16 m (field p (a + 2)))"
  unfolding load_u16_high unfolding load_u16_low by simp


section \<open>\<open>struct imperator_task_ctx\<close>\<close>

definition ctx_at :: "memory \<Rightarrow> u64 \<Rightarrow> imperator_task_ctx" where
  "ctx_at m p = \<lparr>next_slice = imperator_relaxed_load_u64 m (field p 0),
     deficit_avg_fused = imperator_relaxed_load_u32 m (field p 8),
     packed_info = imperator_relaxed_load_u32 m (field p 12),
     last_run_at = imperator_relaxed_load_u32 m (field p 16),
     reclass_counter = load_u16 m (field p 20),
     overrun_count = imperator_relaxed_load_u8 m (field p 22),
     lock_skip_count = imperator_relaxed_load_u8 m (field p 23),
     pending_futex_op = imperator_relaxed_load_u8 m (field p 24),
     align_pad = map (\<lambda>i. imperator_relaxed_load_u8 m (field p i)) [25, 26, 27],
     enqueue_time = imperator_relaxed_load_u32 m (field p 28),
     jitter_ewma_us = load_u16 m (field p 32),
     burst_credit = load_u16 m (field p 34),
     sleep_entry_time = imperator_relaxed_load_u32 m (field p 36),
     burst_acc_us = load_u16 m (field p 40)\<rparr>"

text \<open>A store to the offset of a member changes that field of the record and no other.\<close>

lemma ctx_stores:
  "ctx_at (imperator_relaxed_store_u64 x (field p 0) m) p = (ctx_at m p)\<lparr>next_slice := x\<rparr>
   \<and> ctx_at (imperator_relaxed_store_u32 w (field p 8) m) p = (ctx_at m p)\<lparr>deficit_avg_fused := w\<rparr>
   \<and> ctx_at (imperator_relaxed_store_u32 w (field p 12) m) p = (ctx_at m p)\<lparr>packed_info := w\<rparr>
   \<and> ctx_at (imperator_relaxed_store_u32 w (field p 16) m) p = (ctx_at m p)\<lparr>last_run_at := w\<rparr>
   \<and> ctx_at (store_u16 h (field p 20) m) p = (ctx_at m p)\<lparr>reclass_counter := h\<rparr>
   \<and> ctx_at (imperator_relaxed_store_u8 b (field p 22) m) p = (ctx_at m p)\<lparr>overrun_count := b\<rparr>
   \<and> ctx_at (imperator_relaxed_store_u8 b (field p 23) m) p = (ctx_at m p)\<lparr>lock_skip_count := b\<rparr>
   \<and> ctx_at (imperator_relaxed_store_u8 b (field p 24) m) p = (ctx_at m p)\<lparr>pending_futex_op := b\<rparr>
   \<and> ctx_at (imperator_relaxed_store_u32 w (field p 28) m) p = (ctx_at m p)\<lparr>enqueue_time := w\<rparr>
   \<and> ctx_at (store_u16 h (field p 32) m) p = (ctx_at m p)\<lparr>jitter_ewma_us := h\<rparr>
   \<and> ctx_at (store_u16 h (field p 34) m) p = (ctx_at m p)\<lparr>burst_credit := h\<rparr>
   \<and> ctx_at (imperator_relaxed_store_u32 w (field p 36) m) p = (ctx_at m p)\<lparr>sleep_entry_time := w\<rparr>
   \<and> ctx_at (store_u16 h (field p 40) m) p = (ctx_at m p)\<lparr>burst_acc_us := h\<rparr>"
  by (intro conjI; simp add: ctx_at_def load_frames load_stores)

lemma load_u16_pair:
  "imperator_relaxed_load_u32 (store_u16 h (field p 8) m) (field p 8)
     = PACK_DEFICIT_AVG h (load_u16 m (field p 10))"
  "imperator_relaxed_load_u32 (store_u16 h (field p 10) m) (field p 8)
     = PACK_DEFICIT_AVG (load_u16 m (field p 8)) h"
  by (simp_all only: load_u32_halves, simp_all add: load_frames load_stores)

lemma ctx_deficit: "load_u16 m (field p 8) = deficit_us (ctx_at m p)"
  by (simp add: ctx_at_def deficit_us_def load_u16_low)

lemma ctx_avg_runtime: "load_u16 m (field p 10) = avg_runtime_us (ctx_at m p)"
  using load_u16_high [of m p 8] by (simp add: ctx_at_def avg_runtime_us_def)

lemma load_u64_halves:
  "imperator_relaxed_load_u64 m (field p 8)
   = ucast (imperator_relaxed_load_u32 m (field p 8))
     OR push_bit 32 (ucast (imperator_relaxed_load_u32 m (field p 12)))"
proof (rule bit_word_eqI)
  fix k assume k: "k < LENGTH(64)"
  show "bit (imperator_relaxed_load_u64 m (field p 8)) k
    \<longleftrightarrow> bit (ucast (imperator_relaxed_load_u32 m (field p 8))
           OR push_bit 32 (ucast (imperator_relaxed_load_u32 m (field p 12))) :: u64) k"
  proof (cases "k < 32")
    case True
    with k show ?thesis by (simp add: bit_simps bit_load_u64 bit_load_u32)
  next
    case False
    then obtain j where j: "k = j + 32" by (metis add.commute le_Suc_ex not_less)
    have "8 + k div 8 = 12 + j div 8" "k mod 8 = j mod 8"
      by (simp_all only: j div8_shift)
    then have "bit (imperator_relaxed_load_u64 m (field p 8)) k
               \<longleftrightarrow> bit (imperator_relaxed_load_u32 m (field p 12)) j"
      using k j by (simp only: bit_load_u64 bit_load_u32) simp
    then show ?thesis
      using k j bit_imp_le_length [of "imperator_relaxed_load_u32 m (field p 8)" k]
      by (auto simp: bit_simps)
  qed
qed

text \<open>
  The unions of the task context. Reading or writing \<open>deficit_us\<close> or \<open>avg_runtime_us\<close> through
  the union is reading or writing the low or the high half of \<open>deficit_avg_fused\<close>, as the
  \<open>EXTRACT\<close> and \<open>PACK\<close> macros do, and \<open>state_fused_u64\<close> is that word with
  \<open>packed_info\<close> above it.
\<close>

theorem union_views_agree:
  "load_u16 m (field p 8) = deficit_us (ctx_at m p)
   \<and> load_u16 m (field p 10) = avg_runtime_us (ctx_at m p)
   \<and> ctx_at (store_u16 h (field p 8) m) p
       = (ctx_at m p)\<lparr>deficit_avg_fused := PACK_DEFICIT_AVG h (avg_runtime_us (ctx_at m p))\<rparr>
   \<and> ctx_at (store_u16 h (field p 10) m) p
       = (ctx_at m p)\<lparr>deficit_avg_fused := PACK_DEFICIT_AVG (deficit_us (ctx_at m p)) h\<rparr>
   \<and> imperator_relaxed_load_u64 m (field p 8)
       = ucast (deficit_avg_fused (ctx_at m p)) OR push_bit 32 (ucast (packed_info (ctx_at m p)))"
  unfolding ctx_deficit [symmetric] ctx_avg_runtime [symmetric]
  by (intro conjI; simp add: ctx_at_def load_frames load_stores load_u16_pair load_u64_halves)

section \<open>Cache lines: one task context, mailbox entry or LLC flag each\<close>

text \<open>
  Objects of 64 bytes at 64-byte boundaries: \<open>alignas(64)\<close> members of arrays and task contexts.
  A store inside one does not reach a load inside another.
\<close>

definition line_aligned :: "u64 \<Rightarrow> bool" where
  "line_aligned p \<longleftrightarrow> p AND 63 = 0"

lemma line_addr:
  assumes "line_aligned p"
  obtains i where "i < 2 ^ 58" "\<And>a. a < 64 \<Longrightarrow> unat (field p a) = 64 * i + a"
proof
  have "unat p mod 64 = 0"
    using assms by (simp add: line_aligned_def unat_and_low flip: unat_eq_0)
  then have p: "unat p = 64 * (unat p div 64)" by (simp add: minus_mod_eq_mult_div [symmetric])
  show b: "unat p div 64 < 2 ^ 58"
    using unsigned_less [of p, where 'a = nat] by simp
  fix a :: nat assume a: "a < 64"
  then have "unat (of_nat a :: u64) = a" by (simp add: unat_of_nat)
  then show "unat (field p a) = 64 * (unat p div 64) + a"
    using a b p by (simp add: field_def unat_word_ariths(1))
qed

lemma apart_lines:
  assumes al: "line_aligned p" "line_aligned q" "p \<noteq> q"
    and ab: "a + n \<le> 64" "b + k \<le> 64" "0 < n" "0 < k"
  shows "apart (field p a) n (field q b) k"
proof -
  obtain i where i: "i < 2 ^ 58" "\<And>a. a < 64 \<Longrightarrow> unat (field p a) = 64 * i + a"
    using line_addr [OF al(1)] by blast
  obtain j where j: "j < 2 ^ 58" "\<And>a. a < 64 \<Longrightarrow> unat (field q a) = 64 * j + a"
    using line_addr [OF al(2)] by blast
  have "i \<noteq> j"
    using al(3) i(2) [of 0] j(2) [of 0] by (auto simp: field_0 word_unat_eq_iff)
  with ab i(1) j(1) i(2) [of a] j(2) [of b] show ?thesis
    by (auto simp: apart_def unat_sub_if_size word_size)
qed


definition line_only :: "u64 \<Rightarrow> memory \<Rightarrow> memory \<Rightarrow> bool" where
  \<comment> \<open>the two memories differ at most in the line at \<open>p\<close>\<close>
  "line_only p m m' \<longleftrightarrow> (\<forall>q. 64 \<le> unat (q - p) \<longrightarrow> m' q = m q)"

context accessor
begin

lemma store_line:
  assumes "a + width \<le> 64"
  shows "line_only p m (store v (field p a) m)"
  unfolding line_only_def
proof (intro allI impI)
  fix q assume q: "64 \<le> unat (q - p)"
  have a: "unat (of_nat a :: u64) = a" using assms by (simp add: unat_of_nat)
  have "unat (q - p - of_nat a) = unat (q - p) - a"
    using q assms by (simp add: unat_sub_if_size a)
  then have "width \<le> unat (q - field p a)"
    using q assms by (simp add: field_def algebra_simps)
  then show "store v (field p a) m q = m q" by (rule store_frame)
qed

lemma load_line:
  assumes "line_only p m m'" "line_aligned p" "line_aligned q" "p \<noteq> q" "b + width \<le> 64" "0 < width"
  shows "load m' (field q b) = load m (field q b)"
proof (rule load_frame)
  show "apart p 64 (field q b) width"
    using apart_lines [OF assms(2-4), of 0 64 b width] assms(5,6) by (simp add: field_0)
  show "m' r = m r" if "64 \<le> unat (r - p)" for r
    using assms(1) that by (simp add: line_only_def)
qed

end

lemmas store_lines = acc8.store_line acc16.store_line acc32.store_line acc64.store_line
lemmas load_lines = acc8.load_line acc16.load_line acc32.load_line acc64.load_line

lemma ctx_at_line:
  assumes "line_only p m m'" "line_aligned p" "line_aligned q" "p \<noteq> q"
  shows "ctx_at m' q = ctx_at m q"
  unfolding ctx_at_def by (simp add: load_lines [OF assms])

definition stores_contexts :: "(tid \<rightharpoonup> u64) \<Rightarrow> memory \<Rightarrow> sched \<Rightarrow> bool" where
  \<comment> \<open>the memory holds the contexts of the task storage, each in a cache line of its own\<close>
  "stores_contexts addr m s \<longleftrightarrow>
     task_ctx s = (\<lambda>t. map_option (ctx_at m) (addr t))
     \<and> inj_on addr (dom addr) \<and> (\<forall>p \<in> ran addr. line_aligned p)"

lemma stores_contexts_upd:
  assumes "stores_contexts addr m s" "addr t = Some p"
    and "line_only p m m'" "ctx_at m' p = f (ctx_at m p)"
  shows "stores_contexts addr m' (upd_ctx t f s)"
proof -
  have al: "line_aligned p" using assms(1,2) by (auto simp: stores_contexts_def ran_def)
  have "map_option (ctx_at m') (addr u) = map_option (ctx_at m) (addr u)" if "u \<noteq> t" for u
  proof (cases "addr u")
    case (Some q)
    have "q \<noteq> p" "line_aligned q"
      using assms(1,2) Some that by (auto simp: stores_contexts_def ran_def inj_on_def dom_def)
    then show ?thesis using ctx_at_line [OF assms(3) al] Some by auto
  qed simp
  then show ?thesis
    using assms(1,2,4) by (auto simp: stores_contexts_def upd_ctx_def fun_eq_iff)
qed


text \<open>
  C19. Member stores on a task context refine the record updates of the model. If the memory holds
  the contexts of the task storage, each in its own 64-byte line, then a store of the declared
  width to the declared offset of a member in the line of task \<open>t\<close> leaves the memory
  holding the task storage after the update of that field of that task: no other field and no other
  task is touched.
\<close>

theorem member_stores_refine:
  assumes "stores_contexts addr m s" "addr t = Some p"
  shows "stores_contexts addr (imperator_relaxed_store_u64 x (field p 0) m) (upd_ctx t (\<lambda>c. c\<lparr>next_slice := x\<rparr>) s)
   \<and> stores_contexts addr (imperator_relaxed_store_u32 w (field p 8) m) (upd_ctx t (\<lambda>c. c\<lparr>deficit_avg_fused := w\<rparr>) s)
   \<and> stores_contexts addr (imperator_relaxed_store_u32 w (field p 12) m) (upd_ctx t (\<lambda>c. c\<lparr>packed_info := w\<rparr>) s)
   \<and> stores_contexts addr (imperator_relaxed_store_u32 w (field p 16) m) (upd_ctx t (\<lambda>c. c\<lparr>last_run_at := w\<rparr>) s)
   \<and> stores_contexts addr (store_u16 h (field p 20) m) (upd_ctx t (\<lambda>c. c\<lparr>reclass_counter := h\<rparr>) s)
   \<and> stores_contexts addr (imperator_relaxed_store_u8 b (field p 22) m) (upd_ctx t (\<lambda>c. c\<lparr>overrun_count := b\<rparr>) s)
   \<and> stores_contexts addr (imperator_relaxed_store_u8 b (field p 23) m) (upd_ctx t (\<lambda>c. c\<lparr>lock_skip_count := b\<rparr>) s)
   \<and> stores_contexts addr (imperator_relaxed_store_u8 b (field p 24) m) (upd_ctx t (\<lambda>c. c\<lparr>pending_futex_op := b\<rparr>) s)
   \<and> stores_contexts addr (imperator_relaxed_store_u32 w (field p 28) m) (upd_ctx t (\<lambda>c. c\<lparr>enqueue_time := w\<rparr>) s)
   \<and> stores_contexts addr (store_u16 h (field p 32) m) (upd_ctx t (\<lambda>c. c\<lparr>jitter_ewma_us := h\<rparr>) s)
   \<and> stores_contexts addr (store_u16 h (field p 34) m) (upd_ctx t (\<lambda>c. c\<lparr>burst_credit := h\<rparr>) s)
   \<and> stores_contexts addr (imperator_relaxed_store_u32 w (field p 36) m) (upd_ctx t (\<lambda>c. c\<lparr>sleep_entry_time := w\<rparr>) s)
   \<and> stores_contexts addr (store_u16 h (field p 40) m) (upd_ctx t (\<lambda>c. c\<lparr>burst_acc_us := h\<rparr>) s)"
  by (intro conjI; rule stores_contexts_upd [OF assms]; simp add: store_lines ctx_stores)

theorem member_stores_refine_witness:
  "stores_contexts [7 \<mapsto> 0x1000] (imperator_relaxed_store_u32 0x20000000 (field 0x1000 12) (\<lambda>_. 0))
     (upd_ctx 7 (\<lambda>c. c\<lparr>packed_info := 0x20000000\<rparr>) (bss_zero\<lparr>task_ctx := [7 \<mapsto> ctx_at (\<lambda>_. 0) 0x1000]\<rparr>))"
proof -
  have "stores_contexts [7 \<mapsto> 0x1000] (\<lambda>_. 0) (bss_zero\<lparr>task_ctx := [7 \<mapsto> ctx_at (\<lambda>_. 0) 0x1000]\<rparr>)"
    by (auto simp: stores_contexts_def line_aligned_def)
  from member_stores_refine [OF this, of 7] show ?thesis by simp
qed

section \<open>Arrays of cache lines\<close>

definition slot :: "u64 \<Rightarrow> nat \<Rightarrow> u64" where
  \<comment> \<open>element \<open>i\<close> of an array of 64-byte elements\<close>
  "slot base i = base + 64 * of_nat i"

lemma unat_slot_offset: "i < 64 \<Longrightarrow> unat (64 * of_nat i :: u64) = 64 * i"
  by (simp add: unat_word_ariths(2) unat_of_nat)

lemma line_aligned_mod: "line_aligned p \<longleftrightarrow> unat p mod 64 = 0"
  by (simp add: line_aligned_def unat_and_low flip: unat_eq_0)

lemma slot_aligned: "line_aligned base \<Longrightarrow> i < 64 \<Longrightarrow> line_aligned (slot base i)"
  by (simp add: line_aligned_mod slot_def unat_word_ariths(1) unat_slot_offset mod_mod_cancel mod_add_eq)

lemma slot_inj: "i < 64 \<Longrightarrow> j < 64 \<Longrightarrow> slot base i = slot base j \<longleftrightarrow> i = j"
  unfolding slot_def add_left_cancel by (simp add: word_unat_eq_iff unat_slot_offset)

definition mbox_at :: "memory \<Rightarrow> u64 \<Rightarrow> mega_mailbox_entry" where
  "mbox_at m p = \<lparr>mbox_flags = imperator_relaxed_load_u8 m (field p 0),
     dsq_hint = imperator_relaxed_load_u8 m (field p 1),
     tick_counter = imperator_relaxed_load_u8 m (field p 2)\<rparr>"

definition mailboxes_at :: "memory \<Rightarrow> u64 \<Rightarrow> mega_mailbox_entry list" where
  "mailboxes_at m base = map (\<lambda>cpu. mbox_at m (slot base cpu)) [0..<CAKE_MAX_CPUS]"

definition llc_flags_at :: "memory \<Rightarrow> u64 \<Rightarrow> u8 list" where
  "llc_flags_at m base = map (\<lambda>llc. imperator_relaxed_load_u8 m (field (slot base llc) 0)) [0..<CAKE_MAX_LLCS]"

definition llc_mark_nonempty_mem :: "u64 \<Rightarrow> u32 \<Rightarrow> memory \<Rightarrow> memory" where
  "llc_mark_nonempty_mem base llc_id m =
     (let idx = unat (llc_id AND 7); p = field (slot base idx) 0
      in if imperator_relaxed_load_u8 m p = 0 then imperator_relaxed_store_u8 1 p m else m)"

text \<open>An array of lines after a write inside element \<open>i\<close>.\<close>

lemma slots_update:
  assumes "line_only (slot base i) m m'" "line_aligned base" "i < n" "n \<le> 64"
    and view: "\<And>q. line_aligned q \<Longrightarrow> q \<noteq> slot base i \<Longrightarrow> view m' q = view m q"
  shows "map (\<lambda>j. view m' (slot base j)) [0..<n]
         = (map (\<lambda>j. view m (slot base j)) [0..<n])[i := view m' (slot base i)]"
proof (rule nth_equalityI)
  fix j assume "j < length (map (\<lambda>j. view m' (slot base j)) [0..<n])"
  then show "map (\<lambda>j. view m' (slot base j)) [0..<n] ! j
             = (map (\<lambda>j. view m (slot base j)) [0..<n])[i := view m' (slot base i)] ! j"
    using assms(2-4) by (cases "j = i") (simp_all add: view slot_aligned slot_inj)
qed simp

lemma mbox_at_line:
  assumes "line_only p m m'" "line_aligned p" "line_aligned q" "q \<noteq> p"
  shows "mbox_at m' q = mbox_at m q"
  unfolding mbox_at_def using assms(4) by (simp add: load_lines [OF assms(1-3)])

lemma mbox_stores:
  "mbox_at (imperator_relaxed_store_u8 b (field p 0) m) p = (mbox_at m p)\<lparr>mbox_flags := b\<rparr>"
  "mbox_at (imperator_relaxed_store_u8 b (field p 1) m) p = (mbox_at m p)\<lparr>dsq_hint := b\<rparr>"
  "mbox_at (imperator_relaxed_store_u8 b (field p 2) m) p = (mbox_at m p)\<lparr>tick_counter := b\<rparr>"
  by (simp_all add: mbox_at_def load_frames load_stores)

lemma mailboxes_upd:
  assumes "line_aligned base" "unat cpu < CAKE_MAX_CPUS" "mega_mailbox s = mailboxes_at m base"
    and "line_only (slot base (unat cpu)) m m'"
    and "mbox_at m' (slot base (unat cpu)) = f (mbox_at m (slot base (unat cpu)))"
  shows "mega_mailbox (upd_mbox cpu f s) = mailboxes_at m' base"
proof -
  have "mailboxes_at m' base = (mailboxes_at m base)[unat cpu := mbox_at m' (slot base (unat cpu))]"
    unfolding mailboxes_at_def
    by (rule slots_update [OF assms(4,1,2)]) (simp_all add: mbox_at_line [OF assms(4)] slot_aligned assms(1,2))
  then show ?thesis
    using assms(2,3,5) by (simp add: upd_mbox_def mailboxes_at_def)
qed

text \<open>
  The mailbox array refines. Zeroed memory holds the zeroed mailboxes of load time, and a relaxed
  byte store to \<open>flags\<close>, \<open>dsq_hint\<close> or \<open>tick_counter\<close> of the entry of one CPU is the update of
  that field of that entry in the model: no other CPU's entry shares the line.
\<close>

theorem mailbox_stores_refine:
  assumes "line_aligned base" "unat cpu < CAKE_MAX_CPUS" "mega_mailbox s = mailboxes_at m base"
  shows "mega_mailbox bss_zero = mailboxes_at (\<lambda>_. 0) base
   \<and> mega_mailbox (upd_mbox cpu (\<lambda>e. e\<lparr>mbox_flags := b\<rparr>) s)
       = mailboxes_at (imperator_relaxed_store_u8 b (field (slot base (unat cpu)) 0) m) base
   \<and> mega_mailbox (upd_mbox cpu (\<lambda>e. e\<lparr>dsq_hint := b\<rparr>) s)
       = mailboxes_at (imperator_relaxed_store_u8 b (field (slot base (unat cpu)) 1) m) base
   \<and> mega_mailbox (upd_mbox cpu (\<lambda>e. e\<lparr>tick_counter := b\<rparr>) s)
       = mailboxes_at (imperator_relaxed_store_u8 b (field (slot base (unat cpu)) 2) m) base"
proof (intro conjI)
  have z: "imperator_relaxed_load_u8 (\<lambda>_. 0) p = 0" for p
    by (simp add: imperator_relaxed_load_u8_def)
  show "mega_mailbox bss_zero = mailboxes_at (\<lambda>_. 0) base"
    by (simp add: bss_zero_def mailboxes_at_def mbox_at_def z map_replicate_const)
qed (rule mailboxes_upd [OF assms]; simp add: store_lines mbox_stores del: One_nat_def)+

theorem mailbox_stores_refine_witness:
  "mega_mailbox (upd_mbox 3 (\<lambda>e. e\<lparr>mbox_flags := 0x82\<rparr>) bss_zero)
   = mailboxes_at (imperator_relaxed_store_u8 0x82 (field (slot 0x4000 3) 0) (\<lambda>_. 0)) 0x4000"
proof -
  have "imperator_relaxed_load_u8 (\<lambda>_. 0) p = 0" for p
    by (simp add: imperator_relaxed_load_u8_def)
  then have "mega_mailbox bss_zero = mailboxes_at (\<lambda>_. 0) 0x4000"
    by (simp add: bss_zero_def mailboxes_at_def mbox_at_def map_replicate_const)
  with mailbox_stores_refine [of "0x4000" 3 bss_zero "\<lambda>_. 0" "0x82"] show ?thesis
    by (simp add: line_aligned_def)
qed

text \<open>
  \<open>llc_mark_nonempty\<close> on memory refines the list operation of the model: it reads and writes the
  flag byte of the line of the masked LLC index only.
\<close>

theorem llc_mark_nonempty_refines:
  assumes "line_aligned base" "llc_nonempty s = llc_flags_at m base"
  shows "llc_nonempty (llc_mark_nonempty llc s) = llc_flags_at (llc_mark_nonempty_mem base llc m) base"
proof -
  define i where "i = unat (llc AND 7)"
  define p where "p = slot base i"
  have i: "i < 8" by (simp add: i_def unat_and_low)
  then have al: "line_aligned p" by (simp add: p_def slot_aligned assms(1))
  have read: "llc_nonempty s ! i = imperator_relaxed_load_u8 m (field p 0)"
    using i by (simp add: assms(2) llc_flags_at_def p_def)
  have line: "line_only p m (imperator_relaxed_store_u8 1 (field p 0) m)"
    by (simp add: store_lines)
  have "llc_flags_at (imperator_relaxed_store_u8 1 (field p 0) m) base = (llc_flags_at m base)[i := 1]"
    unfolding llc_flags_at_def
    using slots_update [OF line [unfolded p_def] assms(1) i,
        of "\<lambda>m q. imperator_relaxed_load_u8 m (field q 0)"] line al
    by (simp add: p_def load_stores load_lines [OF line [unfolded p_def]] slot_aligned assms(1) i)
  then show ?thesis
    using read assms(2)
    by (simp add: llc_mark_nonempty_def llc_mark_nonempty_mem_def Let_def flip: i_def p_def)
qed

theorem llc_mark_nonempty_refines_witness:
  "llc_nonempty (llc_mark_nonempty 9 bss_zero) = llc_flags_at (llc_mark_nonempty_mem 0x4000 9 (\<lambda>_. 0)) 0x4000"
proof -
  have "llc_nonempty bss_zero = llc_flags_at (\<lambda>_. 0) 0x4000"
    by (simp add: bss_zero_def llc_flags_at_def imperator_relaxed_load_u8_def map_replicate_const)
  from llc_mark_nonempty_refines [OF _ this] show ?thesis by (simp add: line_aligned_def)
qed

end
