(* ===== verification/Profiles.thy ===== *)
theory Profiles
  imports Deadline
begin

text \<open>
  \<open>enum Profile\<close> of the loader (\<open>src/src/main.rs\<close>): the three shipped parameter sets and the
  computation of \<open>tier_configs\<close> from them. The integers are \<open>u64\<close> of a release build, whose
  arithmetic wraps. The lemmas show for which parameters the deadline contract of \<open>Deadline\<close> holds.
\<close>

section \<open>The parameter sets\<close>

datatype profile = Esports | Default | Sim

fun profile_values :: "profile \<Rightarrow> u64 \<times> u64 \<times> u64" where
  \<comment> \<open>quantum, new-flow bonus and starvation limit in microseconds\<close>
  "profile_values Esports = (1000, 4000, 50000)"
| "profile_values Default = (2000, 8000, 100000)"
| "profile_values Sim = (4000, 8000, 200000)"

fun starvation_threshold :: "profile \<Rightarrow> u64 list" where
  "starvation_threshold Esports =
     [1500000, 4000000, 20000000, 50000000, 50000000, 50000000, 50000000, 50000000]"
| "starvation_threshold Default =
     [1500000, 8000000, 20000000, 100000000, 100000000, 100000000, 100000000, 100000000]"
| "starvation_threshold Sim =
     [3000000, 8000000, 80000000, 200000000, 200000000, 200000000, 200000000, 200000000]"

fun tier_multiplier :: "profile \<Rightarrow> u32 list" where
  "tier_multiplier Esports = [256, 1024, 2048, 4095, 4095, 4095, 4095, 4095]"
| "tier_multiplier Default = [256, 1024, 2048, 4095, 4095, 4095, 4095, 4095]"
| "tier_multiplier Sim = [256, 1024, 2048, 4095, 4095, 4095, 4095, 4095]"

definition starvation_with :: "profile \<Rightarrow> u64 option \<Rightarrow> u64 list" where
  \<comment> \<open>the thresholds, scaled when the command line overrides the one of T3\<close>
  "starvation_with p starvation_override =
     (let base_starvation = starvation_threshold p
      in case starvation_override of
           Some cli_us \<Rightarrow>
             (let cli_ns = cli_us * 1000; default_t3 = base_starvation ! 3
              in if default_t3 > 0 then map (\<lambda>s. s * cli_ns div default_t3) base_starvation
                 else base_starvation)
         | None \<Rightarrow> base_starvation)"

definition profile_tier_configs :: "profile \<Rightarrow> u64 \<Rightarrow> u64 option \<Rightarrow> u64 list" where
  "profile_tier_configs p quantum_us starvation_override =
     (let multiplier = tier_multiplier p;
          starvation = starvation_with p starvation_override
      in map (\<lambda>i. let quantum_kns = drop_bit 10 (quantum_us * 1000)
                  in (ucast (multiplier ! i) AND 0xFFF)
                     OR push_bit 12 (quantum_kns AND 0xFFFF)
                     OR push_bit 28 (drop_bit 10 (starvation ! i) AND 0xFFFFF)) [0..<8])"

section \<open>What the scheduler unpacks\<close>

lemma profile_config_pack:
  "i < 8 \<Longrightarrow> profile_tier_configs p q ovr ! i =
    PACK_CONFIG (drop_bit 10 (q * 1000)) (ucast (tier_multiplier p ! i)) (drop_bit 10 (starvation_with p ovr ! i))"
  by (simp add: profile_tier_configs_def PACK_CONFIG_def Let_def)

lemma unat_starvation_field: "unat (push_bit 10 (x AND 0xFFFFF) :: u64) = unat x mod 2 ^ 20 * 2 ^ 10"
proof -
  have "x AND 0xFFFFF = take_bit 20 x" by (simp add: take_bit_eq_mask mask_eq_exp_minus_1)
  then have "push_bit 10 (x AND 0xFFFFF) = take_bit 20 x * 2 ^ 10" by (simp add: push_bit_eq_mult)
  moreover have "unat x mod 2 ^ 20 * 2 ^ 10 < 2 ^ 64" by (simp add: less_imp_le_nat)
  ultimately show ?thesis by (simp add: unat_word_ariths unsigned_take_bit_eq take_bit_eq_mod)
qed

lemma budget_profile:
  assumes "t < 8" "tier_configs R = profile_tier_configs p q ovr"
  shows "budget_ns R t = unat (starvation_with p ovr ! t) div 1024 mod 2 ^ 20 * 1024"
  unfolding budget_ns_def assms(2) profile_config_pack [OF assms(1)] UNPACK_STARVATION_NS_PACK unat_starvation_field
  by (simp add: unat_drop_bit)

text \<open>The scaled thresholds, as long as nothing overflows.\<close>

definition threshold :: "profile \<Rightarrow> nat \<Rightarrow> nat" where
  "threshold p t = unat (starvation_threshold p ! t)"

lemma threshold_simps:
  "threshold Esports 0 = 1500000" "threshold Esports (Suc 0) = 4000000" "threshold Esports 2 = 20000000" "threshold Esports 3 = 50000000"
  "threshold Default 0 = 1500000" "threshold Default (Suc 0) = 8000000" "threshold Default 2 = 20000000" "threshold Default 3 = 100000000"
  "threshold Sim 0 = 3000000" "threshold Sim (Suc 0) = 8000000" "threshold Sim 2 = 80000000" "threshold Sim 3 = 200000000"
  by (simp_all add: threshold_def)

lemma threshold_bounds:
  assumes "t < 4" shows "0 < threshold p 3" "threshold p t \<le> threshold p 3" "threshold p 3 \<le> 200000000"
proof -
  have "t = 0 \<or> t = Suc 0 \<or> t = 2 \<or> t = 3" using assms by linarith
  then show "0 < threshold p 3" "threshold p t \<le> threshold p 3" "threshold p 3 \<le> 200000000"
    by (cases p; auto simp: threshold_simps)+
qed

lemma unat_scaled:
  assumes "t < 4" "unat cli_us < 2 ^ 21"
  shows "unat (starvation_with p (Some cli_us) ! t) = threshold p t * (unat cli_us * 1000) div threshold p 3"
proof -
  note b = threshold_bounds [OF assms(1), of p]
  have len: "length (starvation_threshold p) = 8" by (cases p) simp_all
  have ns: "unat (cli_us * 1000) = unat cli_us * 1000" using assms(2) by (simp add: unat_word_ariths)
  have "threshold p t * (unat cli_us * 1000) \<le> 200000000 * (2 ^ 21 * 1000)"
    using b assms(2) by (intro mult_le_mono) auto
  then have "threshold p t * (unat cli_us * 1000) < 2 ^ 64" by simp
  then have "unat (starvation_threshold p ! t * (cli_us * 1000)) = threshold p t * (unat cli_us * 1000)"
    by (subst unat_word_ariths(2)) (simp only: ns threshold_def mod_less len_of_numeral_defs, simp)
  moreover have "starvation_threshold p ! 3 > 0" using b(1) by (simp add: threshold_def word_less_nat_alt)
  ultimately show ?thesis
    using assms(1) len by (simp add: starvation_with_def Let_def unat_div threshold_def)
qed

lemma scaled_gap:
  fixes s s' n d :: nat
  assumes "0 < d" "s \<le> s'" "1024 * d \<le> (s' - s) * n"
  shows "s * n div d div 1024 < s' * n div d div 1024"
proof -
  have "s * n \<le> s' * n" using assms(2) by simp
  then have "s * n + 1024 * d \<le> s' * n" using assms(3) unfolding diff_mult_distrib by linarith
  then have "(s * n + 1024 * d) div d \<le> s' * n div d" by (rule div_le_mono)
  then have "s * n div d + 1024 \<le> s' * n div d" using assms(1) by simp
  then have "(s * n div d + 1024) div 1024 \<le> s' * n div d div 1024" by (rule div_le_mono)
  then show ?thesis by simp
qed

lemma budget_scaled:
  assumes "t < 4" "unat cli_us \<le> 1073741" "tier_configs R = profile_tier_configs p q (Some cli_us)"
  shows "budget_ns R t = threshold p t * (unat cli_us * 1000) div threshold p 3 div 1024 * 1024"
proof -
  note b = threshold_bounds [OF assms(1), of p]
  have "threshold p t * (unat cli_us * 1000) div threshold p 3 \<le> threshold p 3 * (unat cli_us * 1000) div threshold p 3"
    using b by (intro div_le_mono mult_le_mono) simp_all
  also have "\<dots> \<le> 1073741000" using b(1) assms(2) by simp
  finally have "threshold p t * (unat cli_us * 1000) div threshold p 3 div 1024 < 2 ^ 20" by simp
  then show ?thesis
    using assms by (simp add: budget_profile unat_scaled)
qed

section \<open>Properties\<close>

text \<open>
  Every shipped profile satisfies the deadline contract, at every quantum.
\<close>

lemma budgets_increase_profile:
  "tier_configs R = profile_tier_configs p q None \<Longrightarrow> budgets_increase R"
  by (cases p) (simp_all add: budgets_increase_def budget_profile starvation_with_def)

lemma budgets_increase_override:
  assumes "100 \<le> unat cli_us" "unat cli_us \<le> 1073741" "tier_configs R = profile_tier_configs p q (Some cli_us)"
  shows "budgets_increase R"
proof -
  have gap: "s * (unat cli_us * 1000) div threshold p 3 div 1024 < s' * (unat cli_us * 1000) div threshold p 3 div 1024"
    if "s \<le> s'" "1024 * threshold p 3 \<le> (s' - s) * 100000" for s s'
  proof (rule scaled_gap)
    have "(s' - s) * 100000 \<le> (s' - s) * (unat cli_us * 1000)" using assms(1) by (intro mult_le_mono2) simp
    with that(2) show "1024 * threshold p 3 \<le> (s' - s) * (unat cli_us * 1000)" by (rule order_trans)
  qed (use that threshold_bounds [of 0 p] in simp_all)
  have "threshold p i \<le> threshold p j \<and> 1024 * threshold p 3 \<le> (threshold p j - threshold p i) * 100000"
    if "(i, j) \<in> {(0, 1), (1, 2), (2, 3)}" for i j
    using that by (cases p) (auto simp: threshold_simps)
  then have "threshold p i * (unat cli_us * 1000) div threshold p 3 div 1024
      < threshold p j * (unat cli_us * 1000) div threshold p 3 div 1024" if "(i, j) \<in> {(0, 1), (1, 2), (2, 3)}" for i j
    using that gap by blast
  note lt = this [of 0 1] this [of 1 2] this [of 2 3]
  note b = budget_scaled [OF _ assms(2,3)]
  show ?thesis
    using lt by (simp add: budgets_increase_def b)
qed

interpretation profile_key: edf_key "tier_deadline (rodata_default\<lparr>tier_configs := profile_tier_configs p q None\<rparr>)"
    "budget_ns (rodata_default\<lparr>tier_configs := profile_tier_configs p q None\<rparr>)" clock_ok for p q
  by (intro edf_key_tier_deadline budgets_increase_profile [of _ p q]) simp

text \<open>
  C24. In every shipped profile, at every quantum, without an override of the T3 starvation limit or
  with one from 100 to 1073741 microseconds, the budgets rise strictly with the tier, tasks queued at
  the same time run in strict tier order whatever advance they got, and the budgets are the profile's
  thresholds, scaled in proportion to the override. Below 100 microseconds budgets can
  coincide, above 1073741 the field wraps.
\<close>

theorem profiles_keep_tier_order:
  assumes R: "tier_configs R = profile_tier_configs p quantum ovr"
    and ovr: "case ovr of None \<Rightarrow> True | Some us \<Rightarrow> 100 \<le> unat us \<and> unat us \<le> 1073741"
    and "clock_ok now" "unat t < unat t'" "unat t' < 4"
  shows "budgets_increase R \<and> tier_deadline R now t adv < tier_deadline R now t' adv'
    \<and> budget_ns R (unat t) = (case ovr of None \<Rightarrow> threshold p (unat t) div 1024
        | Some us \<Rightarrow> threshold p (unat t) * (unat us * 1000) div threshold p 3 div 1024) * 1024"
proof (intro conjI)
  show inc: "budgets_increase R"
    using R ovr budgets_increase_profile budgets_increase_override by (cases ovr) auto
  then show "tier_deadline R now t adv < tier_deadline R now t' adv'"
    using assms(3-5) by (intro edf_key.same_time_order [OF edf_key_tier_deadline])
  show "budget_ns R (unat t) = (case ovr of None \<Rightarrow> threshold p (unat t) div 1024
        | Some us \<Rightarrow> threshold p (unat t) * (unat us * 1000) div threshold p 3 div 1024) * 1024"
  proof (cases ovr)
    case None
    have "unat t < 4" using assms(4,5) by simp
    then have "threshold p (unat t) \<le> 200000000" using threshold_bounds [of "unat t" p] by (blast intro: order_trans)
    then show ?thesis
      using R None assms(4,5) by (simp add: budget_profile starvation_with_def threshold_def)
  next
    case (Some us)
    then show ?thesis using R ovr assms(4,5) by (simp add: budget_scaled)
  qed
qed

theorem profiles_keep_tier_order_witness:
  "tier_deadline (rodata_default\<lparr>tier_configs := profile_tier_configs Sim 4000 (Some 1000)\<rparr>) 5000000 1 0
     < tier_deadline (rodata_default\<lparr>tier_configs := profile_tier_configs Sim 4000 (Some 1000)\<rparr>) 5000000 2 9000"
  using profiles_keep_tier_order [of "rodata_default\<lparr>tier_configs := profile_tier_configs Sim 4000 (Some 1000)\<rparr>"
      Sim 4000 "Some 1000" 5000000 1 2 0 9000]
  by (simp add: clock_ok_def)

text \<open>
  An override below 100 microseconds can make budgets coincide: one of 1 microsecond gives T0, T1 and T2 of the
  default profile the budget 0.
\<close>

lemma tiny_override_collapses:
  assumes "tier_configs R = profile_tier_configs Default q (Some 1)"
  shows "budget_ns R 0 = 0 \<and> budget_ns R 1 = 0 \<and> budget_ns R 2 = 0 \<and> \<not> budgets_increase R"
  using budget_scaled [OF _ _ assms] by (simp add: budgets_increase_def threshold_simps)

text \<open>
  A newcomer with an advance passes beyond the gap of the budgets: in the default profile a T0 newcomer
  with the new-flow bonus of 8 ms passes a T1 task that has waited 14 ms, where the gap is 6.5 ms, and a T1
  newcomer a T2 task that has waited 18 ms, where the gap is 12 ms.
\<close>

theorem newcomer_passes_beyond_gap:
  assumes R: "tier_configs R = profile_tier_configs Default q None" and "8000000 \<le> unat now" "unat now < 2 ^ 62"
  shows "tier_deadline R (now + 14000000) 0 8000000 < tier_deadline R now 1 0
    \<and> tier_deadline R (now + 18000000) 1 8000000 < tier_deadline R now 2 0"
proof -
  have later: "unat (now + 14000000) = unat now + 14000000" "unat (now + 18000000) = unat now + 18000000"
    using assms(3) by (simp_all add: unat_word_ariths)
  have ok: "clock_ok now" "clock_ok (now + 14000000)" "clock_ok (now + 18000000)"
    using assms(3) later by (simp_all add: clock_ok_def)
  have b: "budget_ns R 0 = 1499136" "budget_ns R (Suc 0) = 7999488" "budget_ns R 2 = 19999744"
    by (simp_all add: budget_profile [OF _ R] starvation_with_def)
  show ?thesis
    using later tier_deadline_unat [OF clock_ok_budget [OF ok(1)], of 1 R 0] tier_deadline_unat [OF clock_ok_budget [OF ok(1)], of 2 R 0]
      tier_deadline_unat [OF clock_ok_budget [OF ok(2)], of 0 R 8000000] tier_deadline_unat [OF clock_ok_budget [OF ok(3)], of 1 R 8000000]
    by (simp add: word_less_nat_alt b capped_advance_def)
qed



end
