(* ===== verification/Topology.thy ===== *)
theory Topology
  imports Sched_State
begin

text \<open>
  \<open>src/src/topology.rs\<close>: how the loader numbers the last-level caches and fills the per-CPU and
  per-core tables. What the library \<open>scx_utils\<close> reports of the machine is the argument
  \<open>scx_topology\<close>: the maps of that library as lists in key order. Shifts behave as in a release
  build, where the amount is reduced modulo the width.
\<close>

section \<open>The tables\<close>

abbreviation (input) MAX_CPUS :: nat where "MAX_CPUS \<equiv> 64"
abbreviation (input) MAX_LLCS :: nat where "MAX_LLCS \<equiv> 8"

record scx_core =
  core_key :: nat
  core_little :: bool  \<comment> \<open>\<open>CoreType::Little\<close>\<close>
  core_cpus :: "nat list"

record scx_topology =
  all_cpus_len :: nat
  all_llcs :: "nat list list"  \<comment> \<open>the CPUs of each LLC\<close>
  all_cores :: "scx_core list"
  smt_on :: bool
  sibling_cpus :: "int list"

record topology_info =
  ti_nr_cpus :: nat
  ti_has_dual_ccd :: bool
  ti_has_hybrid_cores :: bool
  ti_smt_enabled :: bool
  ti_cpu_sibling_map :: "u8 list"
  ti_cpu_llc_id :: "u8 list"
  ti_cpu_is_big :: "u8 list"
  ti_cpu_core_id :: "u8 list"
  ti_cpu_thread_bit :: "u8 list"
  ti_core_cpu_mask :: "u64 list"
  ti_core_thread_mask :: "u8 list"
  ti_llc_cpu_mask :: "u64 list"
  ti_big_cpu_mask :: u64
  ti_threads_per_ccd :: u32

definition add_sibling :: "nat \<times> int \<Rightarrow> u8 list \<Rightarrow> u8 list" where
  "add_sibling = (\<lambda>(cpu, sibling) m.
     if cpu < MAX_CPUS \<and> sibling \<ge> 0 \<and> nat sibling < MAX_CPUS then m[cpu := word_of_nat (nat sibling)] else m)"

definition topology_zero :: "scx_topology \<Rightarrow> topology_info" where
  \<comment> \<open>the sibling table and the initialiser of \<open>info\<close>\<close>
  "topology_zero topo = \<lparr>ti_nr_cpus = all_cpus_len topo, ti_has_dual_ccd = length (all_llcs topo) > 1,
     ti_has_hybrid_cores = False, ti_smt_enabled = smt_on topo,
     ti_cpu_sibling_map = fold add_sibling (enumerate 0 (sibling_cpus topo)) (map word_of_nat [0..<MAX_CPUS]),
     ti_cpu_llc_id = replicate MAX_CPUS 0, ti_cpu_is_big = replicate MAX_CPUS 0,
     ti_cpu_core_id = replicate MAX_CPUS 0, ti_cpu_thread_bit = replicate MAX_CPUS 0,
     ti_core_cpu_mask = replicate MAX_CPUS 0, ti_core_thread_mask = replicate MAX_CPUS 0,
     ti_llc_cpu_mask = replicate MAX_LLCS 0, ti_big_cpu_mask = 0, ti_threads_per_ccd = 0\<rparr>"

definition add_llc_cpu :: "nat \<Rightarrow> nat \<Rightarrow> topology_info \<times> u64 \<times> u32 \<Rightarrow> topology_info \<times> u64 \<times> u32" where
  "add_llc_cpu llc_idx cpu = (\<lambda>(info, mask, thread_count).
     if cpu < MAX_CPUS
     then (info\<lparr>ti_cpu_llc_id := (ti_cpu_llc_id info)[cpu := word_of_nat llc_idx]\<rparr>,
           mask OR push_bit cpu 1, thread_count + 1)
     else (info, mask, thread_count))"

fun map_llcs :: "nat \<Rightarrow> nat list list \<Rightarrow> topology_info \<Rightarrow> topology_info" where
  "map_llcs llc_idx [] info = info"
| "map_llcs llc_idx (llc # llcs) info =
     (if llc_idx \<ge> MAX_LLCS then info
      else (let (info, mask, thread_count) = fold (add_llc_cpu llc_idx) llc (info, 0, 0);
                info = info\<lparr>ti_llc_cpu_mask := (ti_llc_cpu_mask info)[llc_idx := mask]\<rparr>;
                info = (if thread_count > ti_threads_per_ccd info then info\<lparr>ti_threads_per_ccd := thread_count\<rparr> else info)
            in map_llcs (Suc llc_idx) llcs info))"

definition add_core_cpu :: "nat \<Rightarrow> u8 \<Rightarrow> nat \<Rightarrow> topology_info \<times> nat \<Rightarrow> topology_info \<times> nat" where
  "add_core_cpu core_id is_big cpu = (\<lambda>(info, thread_idx).
     if cpu < MAX_CPUS
     then (let info = info\<lparr>ti_cpu_is_big := (ti_cpu_is_big info)[cpu := is_big],
                           ti_cpu_core_id := (ti_cpu_core_id info)[cpu := word_of_nat core_id],
                           ti_cpu_thread_bit := (ti_cpu_thread_bit info)[cpu := push_bit (thread_idx mod 8) 1]\<rparr>;
               info = (if core_id < MAX_CPUS
                       then info\<lparr>ti_core_cpu_mask := (ti_core_cpu_mask info)[core_id := ti_core_cpu_mask info ! core_id OR push_bit cpu 1]\<rparr>
                       else info);
               info = (if is_big = 1 then info\<lparr>ti_big_cpu_mask := ti_big_cpu_mask info OR push_bit cpu 1\<rparr> else info)
           in (info, Suc thread_idx))
     else (info, thread_idx))"

definition add_core :: "scx_core \<Rightarrow> topology_info \<times> nat \<times> nat \<Rightarrow> topology_info \<times> nat \<times> nat" where
  "add_core core = (\<lambda>(info, p_cores_found, e_cores_found).
     (let core_id = core_key core;
          is_big = (if core_little core then 0 else 1);
          (p_cores_found, e_cores_found) =
            (if is_big = 1 then (Suc p_cores_found, e_cores_found) else (p_cores_found, Suc e_cores_found));
          info = (if core_id < MAX_CPUS
                  then info\<lparr>ti_core_thread_mask := (ti_core_thread_mask info)[core_id :=
                         ucast (push_bit (length (core_cpus core) mod 16) 1 - 1 :: u16)]\<rparr>
                  else info);
          (info, thread_idx) = fold (add_core_cpu core_id is_big) (sort (core_cpus core)) (info, 0)
      in (info, p_cores_found, e_cores_found)))"

definition detect :: "scx_topology \<Rightarrow> topology_info" where
  "detect topo =
     (let info = map_llcs 0 (all_llcs topo) (topology_zero topo);
          (info, p_cores_found, e_cores_found) = fold add_core (all_cores topo) (info, 0, 0)
      in if p_cores_found > 0 \<and> e_cores_found > 0 then info\<lparr>ti_has_hybrid_cores := True\<rparr> else info)"

section \<open>The LLC tables\<close>

definition cpu_mask :: "nat list \<Rightarrow> u64" where
  \<comment> \<open>the CPUs of a list that fit into a mask\<close>
  "cpu_mask cpus = fold (\<lambda>cpu m. if cpu < 64 then m OR push_bit cpu 1 else m) cpus 0"

lemma bit_mask_fold:
  "bit (fold (\<lambda>cpu m. if cpu < 64 then m OR push_bit cpu 1 else m) cpus (m :: u64)) n
     \<longleftrightarrow> bit m n \<or> n < 64 \<and> n \<in> set cpus"
  by (induction cpus arbitrary: m) (auto simp: bit_simps dest: bit_imp_le_length)

lemma bit_cpu_mask: "bit (cpu_mask cpus) n \<longleftrightarrow> n < 64 \<and> n \<in> set cpus"
  by (simp add: cpu_mask_def bit_mask_fold)

lemma add_llc_cpu_app:
  "add_llc_cpu idx cpu (info, m, tc) =
     (if cpu < 64 then (info\<lparr>ti_cpu_llc_id := (ti_cpu_llc_id info)[cpu := word_of_nat idx]\<rparr>, m OR push_bit cpu 1, tc + 1)
      else (info, m, tc))"
  by (simp add: add_llc_cpu_def)

lemma llc_fold:
  "\<exists>ids tc'. fold (add_llc_cpu idx) cpus (info, m, tc) = (info\<lparr>ti_cpu_llc_id := ids\<rparr>,
       fold (\<lambda>cpu m. if cpu < 64 then m OR push_bit cpu 1 else m) cpus m, tc')
     \<and> length ids = length (ti_cpu_llc_id info)
     \<and> (\<forall>c < length ids. ids ! c = (if c < 64 \<and> c \<in> set cpus then word_of_nat idx else ti_cpu_llc_id info ! c))"
proof (induction cpus arbitrary: info m tc)
  case Nil
  show ?case by (intro exI [of _ "ti_cpu_llc_id info"] exI [of _ tc]) simp
next
  case (Cons c cpus)
  show ?case
  proof (cases "c < 64")
    case True
    let ?i = "info\<lparr>ti_cpu_llc_id := (ti_cpu_llc_id info)[c := word_of_nat idx]\<rparr>"
    obtain ids tc' where *: "fold (add_llc_cpu idx) cpus (?i, m OR push_bit c 1, tc + 1) = (?i\<lparr>ti_cpu_llc_id := ids\<rparr>,
        fold (\<lambda>cpu m. if cpu < 64 then m OR push_bit cpu 1 else m) cpus (m OR push_bit c 1), tc')"
      "length ids = length (ti_cpu_llc_id ?i)"
      "\<forall>d < length ids. ids ! d = (if d < 64 \<and> d \<in> set cpus then word_of_nat idx else ti_cpu_llc_id ?i ! d)"
      using Cons.IH by blast
    then show ?thesis using True
      by (intro exI [of _ ids] exI [of _ tc']) (auto simp: add_llc_cpu_app nth_list_update)
  next
    case False
    then have "d < 64 \<and> d \<in> set (c # cpus) \<longleftrightarrow> d < 64 \<and> d \<in> set cpus" for d by auto
    then show ?thesis using Cons.IH [of info m tc] False
      by (simp only: fold_simps comp_apply add_llc_cpu_app if_False)
  qed
qed

lemma map_llcs_effect:
  assumes "length (ti_cpu_llc_id info) = 64" "length (ti_llc_cpu_mask info) = 8"
  shows "length (ti_cpu_llc_id (map_llcs k llcs info)) = 64 \<and> length (ti_llc_cpu_mask (map_llcs k llcs info)) = 8
    \<and> (\<forall>l < 8. ti_llc_cpu_mask (map_llcs k llcs info) ! l =
         (if k \<le> l \<and> l < k + length llcs then cpu_mask (llcs ! (l - k)) else ti_llc_cpu_mask info ! l))
    \<and> (\<forall>c < 64. ti_cpu_llc_id (map_llcs k llcs info) ! c = ti_cpu_llc_id info ! c \<and> (\<forall>i < length llcs. k + i < 8 \<longrightarrow> c \<notin> set (llcs ! i))
         \<or> (\<exists>i < length llcs. k + i < 8 \<and> c \<in> set (llcs ! i) \<and> ti_cpu_llc_id (map_llcs k llcs info) ! c = word_of_nat (k + i)))"
  using assms
proof (induction llcs arbitrary: k info)
  case (Cons llc llcs)
  show ?case
  proof (cases "8 \<le> k")
    case True
    then show ?thesis using Cons.prems by auto
  next
    case False
    obtain ids tc where f: "fold (add_llc_cpu k) llc (info, 0, 0) = (info\<lparr>ti_cpu_llc_id := ids\<rparr>, cpu_mask llc, tc)"
      "length ids = 64" "\<And>c. c < 64 \<Longrightarrow> ids ! c = (if c \<in> set llc then word_of_nat k else ti_cpu_llc_id info ! c)"
      using llc_fold [of k llc info 0 0] Cons.prems(1) unfolding cpu_mask_def by auto
    define mid where "mid = info\<lparr>ti_cpu_llc_id := ids, ti_llc_cpu_mask := (ti_llc_cpu_mask info)[k := cpu_mask llc],
        ti_threads_per_ccd := (if tc > ti_threads_per_ccd info then tc else ti_threads_per_ccd info)\<rparr>"
    have "map_llcs k (llc # llcs) info = map_llcs (Suc k) llcs mid"
      using False f(1) by (simp add: mid_def Let_def)
    moreover have "length (ti_cpu_llc_id mid) = 64" "length (ti_llc_cpu_mask mid) = 8"
      using f(2) Cons.prems by (simp_all add: mid_def)
    note IH = Cons.IH [OF this, of "Suc k"]
    have eq: "map_llcs k (llc # llcs) info = map_llcs (Suc k) llcs mid" by fact
    let ?r = "map_llcs (Suc k) llcs mid"
    have "ti_llc_cpu_mask ?r ! l =
        (if k \<le> l \<and> l < k + length (llc # llcs) then cpu_mask ((llc # llcs) ! (l - k)) else ti_llc_cpu_mask info ! l)"
      if "l < 8" for l
    proof -
      have "ti_llc_cpu_mask ?r ! l = (if Suc k \<le> l \<and> l < Suc k + length llcs then cpu_mask (llcs ! (l - Suc k))
          else if l = k then cpu_mask llc else ti_llc_cpu_mask info ! l)"
        using IH that Cons.prems(2) by (simp add: mid_def nth_list_update)
      then show ?thesis by (cases "l = k") (auto simp: nth_Cons')
    qed
    moreover have "ti_cpu_llc_id ?r ! c = ti_cpu_llc_id info ! c \<and> (\<forall>i < length (llc # llcs). k + i < 8 \<longrightarrow> c \<notin> set ((llc # llcs) ! i))
         \<or> (\<exists>i < length (llc # llcs). k + i < 8 \<and> c \<in> set ((llc # llcs) ! i) \<and> ti_cpu_llc_id ?r ! c = word_of_nat (k + i))"
      if c: "c < 64" for c
    proof (cases "\<exists>i < length llcs. Suc k + i < 8 \<and> c \<in> set (llcs ! i) \<and> ti_cpu_llc_id ?r ! c = word_of_nat (Suc k + i)")
      case True
      then obtain i where "i < length llcs" "Suc k + i < 8" "c \<in> set (llcs ! i)" "ti_cpu_llc_id ?r ! c = word_of_nat (Suc k + i)"
        by blast
      then show ?thesis by (intro disjI2 exI [of _ "Suc i"]) simp
    next
      case not_later: False
      then have r: "ti_cpu_llc_id ?r ! c = ids ! c" "\<And>i. i < length llcs \<Longrightarrow> Suc k + i < 8 \<Longrightarrow> c \<notin> set (llcs ! i)"
        using IH c by (auto simp: mid_def)
      show ?thesis
      proof (cases "c \<in> set llc")
        case True
        then show ?thesis using r(1) f(3) [OF c] False by (intro disjI2 exI [of _ 0]) simp
      next
        case no: False
        have "c \<notin> set ((llc # llcs) ! i)" if "i < length (llc # llcs)" "k + i < 8" for i
          using that r(2) no by (cases i) auto
        then show ?thesis using r(1) f(3) [OF c] no by simp
      qed
    qed
    ultimately show ?thesis unfolding eq using IH by blast
  qed
qed auto

section \<open>The core tables\<close>

lemma add_core_cpu_app:
  "add_core_cpu core_id is_big cpu (info, thread_idx) =
    (if cpu < 64 then
       (info\<lparr>ti_cpu_is_big := (ti_cpu_is_big info)[cpu := is_big],
             ti_cpu_core_id := (ti_cpu_core_id info)[cpu := word_of_nat core_id],
             ti_cpu_thread_bit := (ti_cpu_thread_bit info)[cpu := push_bit (thread_idx mod 8) 1],
             ti_core_cpu_mask := (if core_id < 64 then (ti_core_cpu_mask info)[core_id := ti_core_cpu_mask info ! core_id OR push_bit cpu 1]
                                  else ti_core_cpu_mask info),
             ti_big_cpu_mask := (if is_big = 1 then ti_big_cpu_mask info OR push_bit cpu 1 else ti_big_cpu_mask info)\<rparr>,
        Suc thread_idx)
     else (info, thread_idx))"
  by (simp add: add_core_cpu_def Let_def)

lemma add_core_app:
  "add_core core (info, p, e) =
    (fst (fold (add_core_cpu (core_key core) (if core_little core then 0 else 1)) (sort (core_cpus core))
       (info\<lparr>ti_core_thread_mask := (if core_key core < 64
            then (ti_core_thread_mask info)[core_key core := ucast (push_bit (length (core_cpus core) mod 16) 1 - 1 :: u16)]
            else ti_core_thread_mask info)\<rparr>, 0)),
     if core_little core then p else Suc p, if core_little core then Suc e else e)"
  by (simp add: add_core_def Let_def split_def)

definition tables_sized :: "topology_info \<Rightarrow> bool" where
  "tables_sized info \<longleftrightarrow> length (ti_cpu_core_id info) = 64 \<and> length (ti_cpu_thread_bit info) = 64
     \<and> length (ti_core_cpu_mask info) = 64 \<and> length (ti_core_thread_mask info) = 64"

definition same_llc_tables :: "topology_info \<Rightarrow> topology_info \<Rightarrow> bool" where
  "same_llc_tables i j \<longleftrightarrow> ti_cpu_llc_id j = ti_cpu_llc_id i \<and> ti_llc_cpu_mask j = ti_llc_cpu_mask i \<and> ti_nr_cpus j = ti_nr_cpus i
     \<and> ti_threads_per_ccd j = ti_threads_per_ccd i"

lemma core_fold:
  assumes "fold (add_core_cpu key big) cs (info, k) = (info', k')" "tables_sized info" "key < 64"
    "\<forall>c \<in> set cs. c < 64" "distinct cs"
  shows "tables_sized info' \<and> same_llc_tables info info' \<and> ti_core_thread_mask info' = ti_core_thread_mask info
    \<and> (\<forall>c < 64. ti_cpu_core_id info' ! c = (if c \<in> set cs then word_of_nat key else ti_cpu_core_id info ! c))
    \<and> (\<forall>j < 64. \<forall>n. bit (ti_core_cpu_mask info' ! j) n \<longleftrightarrow> bit (ti_core_cpu_mask info ! j) n \<or> j = key \<and> n \<in> set cs)
    \<and> (\<forall>n. bit (ti_big_cpu_mask info') n \<longleftrightarrow> bit (ti_big_cpu_mask info) n \<or> big = 1 \<and> n \<in> set cs)
    \<and> (\<forall>c < 64. c \<notin> set cs \<longrightarrow> ti_cpu_thread_bit info' ! c = ti_cpu_thread_bit info ! c)
    \<and> (\<forall>c \<in> set cs. \<exists>i < length cs. ti_cpu_thread_bit info' ! c = push_bit ((k + i) mod 8) 1)"
  using assms
proof (induction cs arbitrary: info k)
  case (Cons c cs)
  define mid where "mid = fst (add_core_cpu key big c (info, k))"
  have c: "c < 64" "c \<notin> set cs" using Cons.prems by auto
  have step: "fold (add_core_cpu key big) cs (mid, Suc k) = (info', k')"
    using Cons.prems(1) c by (simp add: mid_def add_core_cpu_app)
  have sized: "tables_sized mid"
    using Cons.prems(2) by (simp add: mid_def add_core_cpu_app tables_sized_def)
  have bc: "bit (2 ^ c :: u64) n \<longleftrightarrow> n = c" for n using c(1) by (auto simp: bit_simps)
  have m: "same_llc_tables info mid" "ti_core_thread_mask mid = ti_core_thread_mask info"
    "\<forall>d < 64. ti_cpu_core_id mid ! d = (if d = c then word_of_nat key else ti_cpu_core_id info ! d)"
    "\<forall>j < 64. \<forall>n. bit (ti_core_cpu_mask mid ! j) n \<longleftrightarrow> bit (ti_core_cpu_mask info ! j) n \<or> j = key \<and> n = c"
    "\<forall>n. bit (ti_big_cpu_mask mid) n \<longleftrightarrow> bit (ti_big_cpu_mask info) n \<or> big = 1 \<and> n = c"
    "\<forall>d < 64. ti_cpu_thread_bit mid ! d = (if d = c then push_bit (k mod 8) 1 else ti_cpu_thread_bit info ! d)"
    using c Cons.prems(2,3)
    by (auto simp: mid_def add_core_cpu_app tables_sized_def same_llc_tables_def nth_list_update bit_or_iff bc)
  have "\<forall>d \<in> set cs. d < 64" "distinct cs" using Cons.prems(4,5) by auto
  note IH = Cons.IH [OF step sized Cons.prems(3) this]
  have "\<exists>i < length (c # cs). ti_cpu_thread_bit info' ! d = push_bit ((k + i) mod 8) 1" if "d \<in> set (c # cs)" for d
  proof (cases "d = c")
    case True
    then show ?thesis using IH m(6) c by (intro exI [of _ 0]) simp
  next
    case False
    then have "d \<in> set cs" using that by simp
    with IH obtain i where "i < length cs" "ti_cpu_thread_bit info' ! d = push_bit ((Suc k + i) mod 8) 1" by blast
    then show ?thesis by (intro exI [of _ "Suc i"]) simp
  qed
  then show ?case using IH m c by (auto simp: same_llc_tables_def)
qed (auto simp: same_llc_tables_def)

definition cores_ok :: "scx_core list \<Rightarrow> bool" where
  \<comment> \<open>cores have different ids and no CPU in common; the machine fits into the tables\<close>
  "cores_ok cores \<longleftrightarrow> distinct (map core_key cores) \<and> distinct (concat (map core_cpus cores))
     \<and> (\<forall>core \<in> set cores. core_key core < 64 \<and> (\<forall>c \<in> set (core_cpus core). c < 64) \<and> length (core_cpus core) \<le> 8)"

definition core_tables :: "scx_core list \<Rightarrow> topology_info \<Rightarrow> bool" where
  "core_tables cores info \<longleftrightarrow> tables_sized info
     \<and> (\<forall>core \<in> set cores. (\<forall>n. bit (ti_core_cpu_mask info ! core_key core) n \<longleftrightarrow> n \<in> set (core_cpus core))
          \<and> ti_core_thread_mask info ! core_key core = ucast (push_bit (length (core_cpus core)) 1 - 1 :: u16)
          \<and> (\<forall>c \<in> set (core_cpus core). ti_cpu_core_id info ! c = word_of_nat (core_key core)
               \<and> (\<exists>i < length (core_cpus core). ti_cpu_thread_bit info ! c = push_bit i 1)))
     \<and> (\<forall>k < 64. k \<notin> core_key ` set cores \<longrightarrow> ti_core_cpu_mask info ! k = 0)
     \<and> (\<forall>n. bit (ti_big_cpu_mask info) n \<longleftrightarrow> (\<exists>core \<in> set cores. \<not> core_little core \<and> n \<in> set (core_cpus core)))"

lemma core_tables_step:
  assumes t: "core_tables cores info" and ok: "cores_ok (cores @ [core])" and r: "add_core core (info, p, e) = (info', p', e')"
  shows "core_tables (cores @ [core]) info' \<and> same_llc_tables info info'"
proof -
  let ?k = "core_key core" and ?cs = "sort (core_cpus core)" and ?big = "if core_little core then 0 else 1 :: u8"
  have k: "?k < 64" "\<forall>c \<in> set ?cs. c < 64" "distinct ?cs" "length ?cs \<le> 8" "?k \<notin> core_key ` set cores"
    using ok by (auto simp: cores_ok_def)
  have "set (concat (map core_cpus cores)) \<inter> set (core_cpus core) = {}"
    using ok unfolding cores_ok_def map_append concat_append distinct_append by simp
  then have disj: "c \<notin> set (core_cpus core)" "c < 64" if "d \<in> set cores" "c \<in> set (core_cpus d)" for d c
    using that ok by (auto simp: cores_ok_def)
  have dk: "core_key d < 64" "core_key d \<noteq> ?k" if d: "d \<in> set cores" for d
  proof -
    show "core_key d < 64" using d ok by (simp add: cores_ok_def)
    have "core_key d \<in> core_key ` set cores" using d by (rule imageI)
    with k(5) show "core_key d \<noteq> ?k" by metis
  qed
  define mid where "mid = info\<lparr>ti_core_thread_mask := (ti_core_thread_mask info)[?k := ucast (push_bit (length ?cs) 1 - 1 :: u16)]\<rparr>"
  obtain k' where f: "fold (add_core_cpu ?k ?big) ?cs (mid, 0) = (info', k')"
    using r k(1,4) by (cases "fold (add_core_cpu ?k ?big) ?cs (mid, 0)") (auto simp: add_core_app mid_def)
  have sized: "tables_sized mid" using t by (simp add: mid_def core_tables_def tables_sized_def)
  note c = core_fold [OF f sized k(1-3)]
  have mid: "ti_core_cpu_mask mid = ti_core_cpu_mask info" "ti_cpu_core_id mid = ti_cpu_core_id info"
    "ti_cpu_thread_bit mid = ti_cpu_thread_bit info" "ti_big_cpu_mask mid = ti_big_cpu_mask info" "same_llc_tables info mid"
    "ti_core_thread_mask mid ! j = (if j = ?k then ucast (push_bit (length ?cs) 1 - 1 :: u16) else ti_core_thread_mask info ! j)" for j
    using k(1) t by (auto simp: mid_def same_llc_tables_def core_tables_def tables_sized_def)
  have new: "\<forall>n. bit (ti_core_cpu_mask info' ! ?k) n \<longleftrightarrow> n \<in> set (core_cpus core)"
    using c k(1,5) t unfolding mid core_tables_def by simp
  have old: "bit (ti_core_cpu_mask info' ! core_key d) n \<longleftrightarrow> n \<in> set (core_cpus d)" if "d \<in> set cores" for d n
    using c dk [OF that] that t unfolding mid core_tables_def by simp
  have tm: "ti_core_thread_mask info' ! core_key d = ucast (push_bit (length (core_cpus d)) 1 - 1 :: u16)" if "d \<in> set (cores @ [core])" for d
    using that c dk t unfolding core_tables_def by (auto simp: mid)
  have cpu: "ti_cpu_core_id info' ! x = word_of_nat (core_key d) \<and> (\<exists>i < length (core_cpus d). ti_cpu_thread_bit info' ! x = push_bit i 1)"
    if "d \<in> set (cores @ [core])" "x \<in> set (core_cpus d)" for d x
  proof (cases "d = core")
    case True
    then have x: "x \<in> set ?cs" "x < 64" using that k(2) by auto
    with c obtain i where "i < length ?cs" "ti_cpu_thread_bit info' ! x = push_bit ((0 + i) mod 8) 1" by blast
    then have "i < length (core_cpus d)" "ti_cpu_thread_bit info' ! x = push_bit i 1" using True k(4) by simp_all
    then show ?thesis using c x True by auto
  next
    case False
    then have d: "d \<in> set cores" using that by simp
    note x = disj [OF d that(2)]
    have "x \<notin> set ?cs" using x by simp
    with c x have "ti_cpu_core_id info' ! x = ti_cpu_core_id info ! x" "ti_cpu_thread_bit info' ! x = ti_cpu_thread_bit info ! x"
      unfolding mid by simp_all
    then show ?thesis using t d that(2) unfolding core_tables_def by simp
  qed
  have none: "ti_core_cpu_mask info' ! j = 0" if "j < 64" "j \<notin> core_key ` set (cores @ [core])" for j
  proof (rule bit_word_eqI)
    fix n show "bit (ti_core_cpu_mask info' ! j) n \<longleftrightarrow> bit (0 :: u64) n"
      using c that t unfolding mid core_tables_def by auto
  qed
  have big: "bit (ti_big_cpu_mask info') n \<longleftrightarrow> (\<exists>d \<in> set (cores @ [core]). \<not> core_little d \<and> n \<in> set (core_cpus d))" for n
    using c t unfolding mid core_tables_def by (auto split: if_splits)
  have mask: "\<forall>d \<in> set (cores @ [core]). (\<forall>n. bit (ti_core_cpu_mask info' ! core_key d) n \<longleftrightarrow> n \<in> set (core_cpus d))"
    using new old by simp
  have "same_llc_tables info info'" using c mid(5) by (simp add: same_llc_tables_def)
  moreover have "tables_sized info'" using c by (rule conjunct1)
  ultimately show ?thesis
    unfolding core_tables_def using mask tm cpu none big by (intro conjI ballI allI impI) blast+
qed

lemma core_tables_fold:
  assumes "cores_ok (seen @ cores)" "core_tables seen info" "fold add_core cores (info, p, e) = (info', p', e')"
  shows "core_tables (seen @ cores) info' \<and> same_llc_tables info info'"
  using assms
proof (induction cores arbitrary: seen info p e)
  case (Cons core cores)
  obtain i1 p1 e1 where s: "add_core core (info, p, e) = (i1, p1, e1)" by (metis prod_cases3)
  have "cores_ok (seen @ [core])" using Cons.prems(1) by (auto simp: cores_ok_def)
  note st = core_tables_step [OF Cons.prems(2) this s]
  have "cores_ok ((seen @ [core]) @ cores)" using Cons.prems(1) by simp
  from Cons.IH [OF this conjunct1 [OF st]] Cons.prems(3) s
  have "core_tables ((seen @ [core]) @ cores) info' \<and> same_llc_tables i1 info'" by simp
  then show ?case using st by (simp add: same_llc_tables_def)
qed (simp add: same_llc_tables_def)

lemma map_llcs_frame:
  "\<exists>ids masks n. map_llcs k llcs info = info\<lparr>ti_cpu_llc_id := ids, ti_llc_cpu_mask := masks, ti_threads_per_ccd := n\<rparr>"
proof (induction llcs arbitrary: k info)
  case Nil
  show ?case by (intro exI [of _ "ti_cpu_llc_id info"] exI [of _ "ti_llc_cpu_mask info"] exI [of _ "ti_threads_per_ccd info"]) simp
next
  case (Cons llc llcs)
  show ?case
  proof (cases "8 \<le> k")
    case True
    then show ?thesis
      by (intro exI [of _ "ti_cpu_llc_id info"] exI [of _ "ti_llc_cpu_mask info"] exI [of _ "ti_threads_per_ccd info"]) simp
  next
    case False
    obtain ids m tc where f: "fold (add_llc_cpu k) llc (info, 0, 0) = (info\<lparr>ti_cpu_llc_id := ids\<rparr>, m, tc)"
      using llc_fold [of k llc info 0 0] by blast
    define mid where "mid = info\<lparr>ti_cpu_llc_id := ids, ti_llc_cpu_mask := (ti_llc_cpu_mask info)[k := m],
        ti_threads_per_ccd := (if tc > ti_threads_per_ccd info then tc else ti_threads_per_ccd info)\<rparr>"
    have eq: "map_llcs k (llc # llcs) info = map_llcs (Suc k) llcs mid"
      using False f by (simp add: mid_def Let_def)
    obtain ids' masks n where "map_llcs (Suc k) llcs mid =
        mid\<lparr>ti_cpu_llc_id := ids', ti_llc_cpu_mask := masks, ti_threads_per_ccd := n\<rparr>" using Cons.IH by blast
    then show ?thesis unfolding eq by (intro exI [of _ ids'] exI [of _ masks] exI [of _ n]) (simp add: mid_def)
  qed
qed

lemma same_llc_refl: "same_llc_tables info info"
  and same_llc_trans: "same_llc_tables i j \<Longrightarrow> same_llc_tables j k \<Longrightarrow> same_llc_tables i k"
  by (simp_all add: same_llc_tables_def)

lemma same_llc_cpus: "same_llc_tables info (fst (fold (add_core_cpu key big) cs (info, k)))"
proof (induction cs arbitrary: info k)
  case (Cons c cs)
  obtain i1 k1 where s: "add_core_cpu key big c (info, k) = (i1, k1)" by (metis prod.exhaust)
  then have "same_llc_tables info i1"
    by (auto simp: add_core_cpu_app same_llc_tables_def split: if_splits)
  then show ?case using Cons.IH [of i1 k1] s by (auto intro: same_llc_trans)
qed (simp add: same_llc_refl)

lemma same_llc_cores: "same_llc_tables info (fst (fold add_core cores (info, p, e)))"
proof (induction cores arbitrary: info p e)
  case (Cons core cores)
  obtain i1 p1 e1 where s: "add_core core (info, p, e) = (i1, p1, e1)" by (metis prod_cases3)
  let ?i = "info\<lparr>ti_core_thread_mask := (if core_key core < 64
      then (ti_core_thread_mask info)[core_key core := ucast (push_bit (length (core_cpus core) mod 16) 1 - 1 :: u16)]
      else ti_core_thread_mask info)\<rparr>"
  have "same_llc_tables info ?i" by (simp add: same_llc_tables_def)
  then have "same_llc_tables info i1"
    using same_llc_cpus [of ?i] s unfolding add_core_app by (auto intro: same_llc_trans)
  then show ?case using Cons.IH [of i1 p1 e1] s by (auto intro: same_llc_trans)
qed (simp add: same_llc_refl)

lemma detect_split:
  "\<exists>i p e h. fold add_core (all_cores topo) (map_llcs 0 (all_llcs topo) (topology_zero topo), 0, 0) = (i, p, e)
    \<and> detect topo = i\<lparr>ti_has_hybrid_cores := h\<rparr>"
proof -
  obtain i p e where f: "fold add_core (all_cores topo) (map_llcs 0 (all_llcs topo) (topology_zero topo), 0, 0) = (i, p, e)"
    by (metis prod_cases3)
  have "detect topo = i\<lparr>ti_has_hybrid_cores := (if p > 0 \<and> e > 0 then True else ti_has_hybrid_cores i)\<rparr>"
    by (simp add: detect_def Let_def f)
  with f show ?thesis by blast
qed

lemma detect_llc_tables:
  fixes topo :: scx_topology
  defines "info \<equiv> detect topo"
  shows "length (ti_cpu_llc_id info) = 64" "length (ti_llc_cpu_mask info) = 8" "ti_nr_cpus info = all_cpus_len topo"
    "l < 8 \<Longrightarrow> ti_llc_cpu_mask info ! l = (if l < length (all_llcs topo) then cpu_mask (all_llcs topo ! l) else 0)"
    "c < 64 \<Longrightarrow> ti_cpu_llc_id info ! c = 0 \<and> (\<forall>i < length (all_llcs topo). i < 8 \<longrightarrow> c \<notin> set (all_llcs topo ! i))
       \<or> (\<exists>i < length (all_llcs topo). i < 8 \<and> c \<in> set (all_llcs topo ! i) \<and> ti_cpu_llc_id info ! c = word_of_nat i)"
proof -
  let ?m = "map_llcs 0 (all_llcs topo) (topology_zero topo)"
  obtain i p e h where d: "fold add_core (all_cores topo) (?m, 0, 0) = (i, p, e)" "detect topo = i\<lparr>ti_has_hybrid_cores := h\<rparr>"
    using detect_split by blast
  then have same: "ti_cpu_llc_id info = ti_cpu_llc_id ?m" "ti_llc_cpu_mask info = ti_llc_cpu_mask ?m" "ti_nr_cpus info = ti_nr_cpus ?m"
    using same_llc_cores [of ?m "all_cores topo" 0 0] by (simp_all add: info_def same_llc_tables_def)
  have len: "length (ti_cpu_llc_id (topology_zero topo)) = 64" "length (ti_llc_cpu_mask (topology_zero topo)) = 8"
    by (simp_all add: topology_zero_def)
  note m = map_llcs_effect [OF len, of 0 "all_llcs topo"]
  have zero: "ti_llc_cpu_mask (topology_zero topo) ! l = 0" if "l < 8" for l
    using that by (simp add: topology_zero_def)
  have zero': "ti_cpu_llc_id (topology_zero topo) ! c = 0" if "c < 64" for c
    using that by (simp add: topology_zero_def)
  show "length (ti_cpu_llc_id info) = 64" "length (ti_llc_cpu_mask info) = 8"
    using m unfolding same by blast+
  show "ti_nr_cpus info = all_cpus_len topo"
    unfolding same using map_llcs_frame [of 0 "all_llcs topo" "topology_zero topo"] by (auto simp: topology_zero_def)
  show "l < 8 \<Longrightarrow> ti_llc_cpu_mask info ! l = (if l < length (all_llcs topo) then cpu_mask (all_llcs topo ! l) else 0)"
    using m zero unfolding same by simp
  show "c < 64 \<Longrightarrow> ti_cpu_llc_id info ! c = 0 \<and> (\<forall>i < length (all_llcs topo). i < 8 \<longrightarrow> c \<notin> set (all_llcs topo ! i))
       \<or> (\<exists>i < length (all_llcs topo). i < 8 \<and> c \<in> set (all_llcs topo ! i) \<and> ti_cpu_llc_id info ! c = word_of_nat i)"
    unfolding same using m [THEN conjunct2, THEN conjunct2, THEN conjunct2, rule_format, of c] zero' [of c]
    by (simp only: add_0)
qed

lemma detect_core_tables:
  assumes "cores_ok (all_cores topo)"
  shows "core_tables (all_cores topo) (detect topo)"
proof -
  let ?m = "map_llcs 0 (all_llcs topo) (topology_zero topo)"
  obtain i p e h where d: "fold add_core (all_cores topo) (?m, 0, 0) = (i, p, e)" "detect topo = i\<lparr>ti_has_hybrid_cores := h\<rparr>"
    using detect_split by blast
  have "core_tables [] ?m"
    using map_llcs_frame [of 0 "all_llcs topo" "topology_zero topo"]
    by (auto simp: core_tables_def tables_sized_def topology_zero_def)
  with core_tables_fold [of "[]" "all_cores topo" ?m 0 0 i p e] assms d
  have "core_tables (all_cores topo) i" by simp
  then show ?thesis by (simp add: d(2) core_tables_def tables_sized_def)
qed

end
