(* ===== verification/Loader.thy ===== *)
theory Loader
  imports Profiles Topology System
begin

text \<open>
  \<open>Scheduler::new\<close> of \<open>src/src/main.rs\<close>: the loader fills the RODATA of the BPF program from the
  command line, the profile and the topology. The lemmas discharge what the other theories assume of
  the configuration, and say when the assumption fails.
\<close>

section \<open>Filling RODATA\<close>

record args =
  arg_profile :: profile
  arg_quantum :: "u64 option"
  arg_new_flow_bonus :: "u64 option"
  arg_starvation :: "u64 option"
  arg_verbose :: bool
  arg_stats :: bool

definition unwrap_or :: "'a option \<Rightarrow> 'a \<Rightarrow> 'a" where
  "unwrap_or x d = (case x of Some v \<Rightarrow> v | None \<Rightarrow> d)"

definition effective_values :: "args \<Rightarrow> u64 \<times> u64 \<times> u64" where
  "effective_values a =
     (let (q, nfb, starv) = profile_values (arg_profile a)
      in (unwrap_or (arg_quantum a) q, unwrap_or (arg_new_flow_bonus a) nfb, unwrap_or (arg_starvation a) starv))"

definition llc_count :: "topology_info \<Rightarrow> u32" where
  "llc_count topo = word_of_nat (length (filter (\<lambda>m. m \<noteq> 0) (ti_llc_cpu_mask topo)))"

definition configure_rodata :: "args \<Rightarrow> topology_info \<Rightarrow> rodata \<Rightarrow> rodata" where
  "configure_rodata a topo R =
     (let (quantum, new_flow_bonus, _) = effective_values a
      in R\<lparr>quantum_ns := quantum * 1000, new_flow_bonus_ns := new_flow_bonus * 1000,
           enable_stats := arg_verbose a \<or> arg_stats a,
           tier_configs := profile_tier_configs (arg_profile a) quantum (arg_starvation a),
           has_hybrid := ti_has_hybrid_cores topo, big_cpu_mask := ti_big_cpu_mask topo,
           cpu_core_id := map ucast (take 64 (ti_cpu_core_id topo)),
           cpu_thread_bit := map ucast (take 64 (ti_cpu_thread_bit topo)),
           core_cpu_mask := take 64 (ti_core_cpu_mask topo),
           core_thread_mask := map ucast (take 64 (ti_core_thread_mask topo)),
           threads_per_ccd := ti_threads_per_ccd topo,
           sim_mode := (arg_profile a = Sim),
           nr_llcs := max (llc_count topo) 1,
           nr_cpus := word_of_nat (min (ti_nr_cpus topo) 64),
           cpu_llc_id := map ucast (ti_cpu_llc_id topo)\<rparr>)"

lemma configure_sel [simp]:
  "nr_llcs (configure_rodata a topo R) = max (llc_count topo) 1"
  "nr_cpus (configure_rodata a topo R) = word_of_nat (min (ti_nr_cpus topo) 64)"
  "cpu_llc_id (configure_rodata a topo R) = map ucast (ti_cpu_llc_id topo)"
  "big_cpu_mask (configure_rodata a topo R) = ti_big_cpu_mask topo"
  "cpu_core_id (configure_rodata a topo R) = map ucast (take 64 (ti_cpu_core_id topo))"
  "cpu_thread_bit (configure_rodata a topo R) = map ucast (take 64 (ti_cpu_thread_bit topo))"
  "core_cpu_mask (configure_rodata a topo R) = take 64 (ti_core_cpu_mask topo)"
  "core_thread_mask (configure_rodata a topo R) = map ucast (take 64 (ti_core_thread_mask topo))"
  by (simp_all add: configure_rodata_def Let_def split_def)

section \<open>The number of LLCs\<close>

definition llcs_populated :: "scx_topology \<Rightarrow> bool" where
  \<comment> \<open>every LLC the tables have room for has a CPU below 64\<close>
  "llcs_populated topo \<longleftrightarrow> (\<forall>llc \<in> set (take 8 (all_llcs topo)). \<exists>c \<in> set llc. c < 64)"

lemma mask_nonzero: "cpu_mask cpus \<noteq> 0 \<longleftrightarrow> (\<exists>c \<in> set cpus. c < 64)"
  by (metis bit_cpu_mask bit_0_eq bot_apply bot_bool_def word_nonzero_bit)

lemma llc_masks_list:
  "ti_llc_cpu_mask (detect topo) = map (\<lambda>l. if l < length (all_llcs topo) then cpu_mask (all_llcs topo ! l) else 0) [0..<8]"
  by (rule nth_equalityI) (simp_all add: detect_llc_tables(2,4))

lemma filter_upt: "filter (\<lambda>l. l < n) [0..<k] = [0..<min k n]"
proof (induction k)
  case (Suc k)
  then show ?case by (cases "k < n") (simp_all add: min_def not_less le_Suc_eq)
qed simp

lemma populated_masks:
  assumes "llcs_populated topo"
  shows "filter (\<lambda>m. m \<noteq> 0) (ti_llc_cpu_mask (detect topo))
         = map (\<lambda>l. cpu_mask (all_llcs topo ! l)) [0..<min 8 (length (all_llcs topo))]"
proof -
  let ?f = "\<lambda>l. if l < length (all_llcs topo) then cpu_mask (all_llcs topo ! l) else 0"
  have "?f l \<noteq> 0 \<longleftrightarrow> l < length (all_llcs topo)" if "l < 8" for l
  proof (cases "l < length (all_llcs topo)")
    case True
    then have "all_llcs topo ! l \<in> set (take 8 (all_llcs topo))"
      using that by (metis nth_take nth_mem length_take min_less_iff_conj)
    then show ?thesis using True assms mask_nonzero by (simp add: llcs_populated_def)
  qed simp
  then have "filter (\<lambda>l. ?f l \<noteq> 0) [0..<8] = filter (\<lambda>l. l < length (all_llcs topo)) [0..<8]"
    by (intro filter_cong) simp_all
  then have "filter (\<lambda>m. m \<noteq> 0) (ti_llc_cpu_mask (detect topo)) = map ?f [0..<min 8 (length (all_llcs topo))]"
    by (simp only: llc_masks_list filter_map comp_def filter_upt)
  also have "\<dots> = map (\<lambda>l. cpu_mask (all_llcs topo ! l)) [0..<min 8 (length (all_llcs topo))]"
    by (intro map_cong) simp_all
  finally show ?thesis .
qed

lemma llc_count_populated:
  "llcs_populated topo \<Longrightarrow> llc_count (detect topo) = word_of_nat (min 8 (length (all_llcs topo)))"
  by (simp add: llc_count_def populated_masks)

lemma llc_count_le: "unat (llc_count topo) \<le> length (ti_llc_cpu_mask topo)"
proof -
  have "unat (llc_count topo) \<le> length (filter (\<lambda>m. m \<noteq> 0) (ti_llc_cpu_mask topo))"
    by (simp add: llc_count_def unat_of_nat)
  then show ?thesis using length_filter_le by (rule order_trans)
qed

lemma loader_config_ok:
  assumes "llcs_populated topo"
  shows "config_ok (configure_rodata a (detect topo) R)"
proof -
  let ?n = "min 8 (length (all_llcs topo))"
  have cnt: "unat (max (llc_count (detect topo)) 1) = max ?n 1"
    by (simp add: llc_count_populated [OF assms] max_def word_le_nat_alt unat_of_nat min_def)
  have "map ucast (ti_cpu_llc_id (detect topo)) ! c < max (llc_count (detect topo)) 1" if c: "c < 64" for c
  proof -
    have "unat (ti_cpu_llc_id (detect topo) ! c) < max ?n 1"
      using detect_llc_tables(5) [OF c, of topo] by (auto simp: unat_of_nat)
    then show ?thesis
      using c cnt detect_llc_tables(1) [of topo] by (simp add: word_less_nat_alt unat_ucast_id)
  qed
  then show ?thesis using cnt by (simp add: config_ok_def)
qed

section \<open>One core\<close>

lemma cpu_core_unique:
  "distinct (concat (map core_cpus cores)) \<Longrightarrow> a \<in> set cores \<Longrightarrow> b \<in> set cores
    \<Longrightarrow> x \<in> set (core_cpus a) \<Longrightarrow> x \<in> set (core_cpus b) \<Longrightarrow> a = b"
  by (induction cores) auto

lemma only_cpu: "distinct cs \<Longrightarrow> c \<in> set cs \<Longrightarrow> (\<forall>d \<in> set cs. d = c) \<longleftrightarrow> length cs = 1"
proof (cases cs)
  case (Cons x xs)
  assume "distinct cs" "c \<in> set cs"
  then show ?thesis using Cons by (cases xs) auto
qed simp

text \<open>The thread mask of a core is the bit of its only thread, or neither is.\<close>

lemma thread_mask_bit:
  assumes "i < n" "n \<le> 8"
  shows "(ucast (ucast (push_bit n 1 - 1 :: u16) :: u8) :: u32) = ucast (push_bit i 1 :: u8) \<longleftrightarrow> n = 1"
proof -
  have l: "bit (ucast (ucast (push_bit n 1 - 1 :: u16) :: u8) :: u32) j \<longleftrightarrow> j < n" for j
    using assms by (auto simp: bit_simps simp flip: mask_eq_exp_minus_1)
  have r: "bit (ucast (push_bit i 1 :: u8) :: u32) j \<longleftrightarrow> j = i" for j
    using assms by (auto simp: bit_simps)
  show ?thesis
  proof
    assume "(ucast (ucast (push_bit n 1 - 1 :: u16) :: u8) :: u32) = ucast (push_bit i 1 :: u8)"
    then have "j < n \<longleftrightarrow> j = i" for j using l r by metis
    from this [of 0] this [of "n - 1"] show "n = 1" using assms by auto
  next
    assume "n = 1"
    then show "(ucast (ucast (push_bit n 1 - 1 :: u16) :: u8) :: u32) = ucast (push_bit i 1 :: u8)"
      using assms by simp
  qed
qed

section \<open>Properties\<close>

definition example_args :: args where
  "example_args = \<lparr>arg_profile = Default, arg_quantum = None, arg_new_flow_bonus = None, arg_starvation = None,
     arg_verbose = False, arg_stats = True\<rparr>"

definition example_topology :: scx_topology where
  \<comment> \<open>two LLCs, two dual-threaded big cores and a single-threaded little one, which has no CPU 4\<close>
  "example_topology = \<lparr>all_cpus_len = 5, all_llcs = [[0, 1, 2, 3], [5]],
     all_cores = [\<lparr>core_key = 0, core_little = False, core_cpus = [0, 2]\<rparr>, \<lparr>core_key = 1, core_little = False, core_cpus = [1, 3]\<rparr>,
       \<lparr>core_key = 2, core_little = True, core_cpus = [5]\<rparr>],
     smt_on = True, sibling_cpus = [2, 3, 0, 1, -1, -1]\<rparr>"

text \<open>
  C8. The loader discharges the scheduler's assumptions. For every topology each of whose first eight LLCs has
  a CPU below 64, whatever the command line, it writes at most eight LLCs and every CPU into one of
  them (a CPU that only one LLC names, into that one). The budgets rise with the tier without a
  starvation override and with every override from 100 to 1073741 microseconds.
\<close>

theorem loaded_configuration_ok:
  assumes "llcs_populated topo" "R = configure_rodata a (detect topo) R0"
  shows "config_ok R
    \<and> ((case arg_starvation a of None \<Rightarrow> True | Some us \<Rightarrow> 100 \<le> unat us \<and> unat us \<le> 1073741) \<longrightarrow> budgets_increase R)
    \<and> unat (nr_llcs R) = max 1 (min 8 (length (all_llcs topo)))
    \<and> (\<forall>cpu < 64. \<forall>l < 8. l < length (all_llcs topo) \<longrightarrow> (\<forall>k < length (all_llcs topo). k \<noteq> l \<longrightarrow> cpu \<notin> set (all_llcs topo ! k))
         \<longrightarrow> cpu \<in> set (all_llcs topo ! l) \<longrightarrow> llc_of R cpu = l)"
proof (intro conjI impI)
  show ok: "config_ok R" unfolding assms(2) by (rule loader_config_ok [OF assms(1)])
  assume ovr: "case arg_starvation a of None \<Rightarrow> True | Some us \<Rightarrow> 100 \<le> unat us \<and> unat us \<le> 1073741"
  have "tier_configs R = profile_tier_configs (arg_profile a) (fst (effective_values a)) (arg_starvation a)"
    by (simp add: assms(2) configure_rodata_def Let_def split_def)
  then show "budgets_increase R"
    using ovr budgets_increase_profile budgets_increase_override by (cases "arg_starvation a") auto
next
  show "unat (nr_llcs R) = max 1 (min 8 (length (all_llcs topo)))"
    by (simp add: assms(2) llc_count_populated [OF assms(1)] max_def word_le_nat_alt unat_of_nat min_def)
next
  show "\<forall>cpu < 64. \<forall>l < 8. l < length (all_llcs topo) \<longrightarrow> (\<forall>k < length (all_llcs topo). k \<noteq> l \<longrightarrow> cpu \<notin> set (all_llcs topo ! k))
         \<longrightarrow> cpu \<in> set (all_llcs topo ! l) \<longrightarrow> llc_of R cpu = l"
  proof (intro allI impI)
    fix cpu l assume *: "cpu < 64" "l < 8" "l < length (all_llcs topo)" "cpu \<in> set (all_llcs topo ! l)"
      "\<forall>k < length (all_llcs topo). k \<noteq> l \<longrightarrow> cpu \<notin> set (all_llcs topo ! k)"
    then have "ti_cpu_llc_id (detect topo) ! cpu = word_of_nat l"
      using detect_llc_tables(5) [OF *(1), of topo] by blast
    then show "llc_of R cpu = l"
      using * detect_llc_tables(1) [of topo] by (simp add: assms(2) llc_of_def unat_and_low unat_ucast_id unat_of_nat)
  qed
qed

theorem loaded_configuration_ok_witness:
  "config_ok (configure_rodata example_args (detect example_topology) rodata_default)
   \<and> unat (nr_llcs (configure_rodata example_args (detect example_topology) rodata_default)) = 2"
  using loaded_configuration_ok [of example_topology _ example_args rodata_default, OF _ refl]
  by (simp add: llcs_populated_def example_topology_def)

text \<open>
  C37. CPUs behind a gap are never kicked. The loader passes the number of online CPUs as \<open>nr_cpus\<close>, and
  initialisation takes it as the bound of CPU ids: a CPU whose id is not below the number of online
  CPUs, as after taking siblings offline, is in the mask of no LLC, so the enqueue path never
  chooses it as a victim, whatever it runs.
\<close>

theorem cpu_behind_gap_never_kicked:
  assumes "R = configure_rodata a (detect topo) R0" "all_cpus_len topo \<le> unat v"
    and "imperator_init R create bss_zero = (ret, s0)" "llc_cpu_mask s = llc_cpu_mask s0" "unat l < 8"
  shows "kick_victim l s \<noteq> Some v"
proof
  assume v: "kick_victim l s = Some v"
  have l: "l AND 7 = l" using assms(5) by (simp add: word_unat_eq_iff unat_and_low)
  have "bit (llc_cpu_mask s ! unat l) (unat v)"
    using kick_victim_spec(2) [OF l v] by (auto simp: victims_def Let_def split: if_splits)
  then have "unat v < unat (nr_cpus R)"
    using init_effect(1) [OF assms(3) _ assms(5), of "unat v"] assms(4,5) by (simp add: bss_zero_def)
  moreover have "unat (nr_cpus R) \<le> all_cpus_len topo"
    by (simp add: assms(1) detect_llc_tables(3) unat_of_nat min_def)
  ultimately show False using assms(2) by simp
qed

theorem cpu_behind_gap_never_kicked_witness:
  "kick_victim 1 ((snd (imperator_init (configure_rodata example_args (detect example_topology) rodata_default) (\<lambda>_. 0) bss_zero))
     \<lparr>tier_cpu_mask := [0, 0, 0, 32]\<rparr>) \<noteq> Some 5"
proof -
  obtain ret s0 where "imperator_init (configure_rodata example_args (detect example_topology) rodata_default) (\<lambda>_. 0) bss_zero = (ret, s0)"
    by (metis prod.exhaust)
  moreover have "all_cpus_len example_topology \<le> unat (5 :: u32)" by (simp add: example_topology_def)
  ultimately show ?thesis
    using cpu_behind_gap_never_kicked [OF refl, of example_topology 5 example_args rodata_default "\<lambda>_. 0" ret s0
        "s0\<lparr>tier_cpu_mask := [0, 0, 0, 32]\<rparr>" 1] by simp
qed

text \<open>
  What the P-core scan calls a fully idle core is a core with one hardware thread: for every
  topology whose cores fit into the tables, the test on \<open>core_cpu_mask\<close>, and equally a comparison of
  \<open>core_thread_mask\<close> with \<open>cpu_thread_bit\<close>, holds exactly for the only CPU of its core, and the siblings
  of a P-core CPU are P-core CPUs.
\<close>

theorem core_tables_equivalent:
  assumes "cores_ok (all_cores topo)" "core \<in> set (all_cores topo)" "c \<in> set (core_cpus core)"
    and "R = configure_rodata a (detect topo) R0"
  shows "core_unshared R (word_of_nat c) = Some (length (core_cpus core) = 1)
    \<and> (core_thread_mask R ! unat (cpu_core_id R ! c) = cpu_thread_bit R ! c \<longleftrightarrow> length (core_cpus core) = 1)
    \<and> (\<forall>d \<in> set (core_cpus core). bit (big_cpu_mask R) d \<longleftrightarrow> bit (big_cpu_mask R) c)"
proof (intro conjI ballI)
  let ?info = "detect topo" and ?key = "core_key core" and ?n = "length (core_cpus core)"
  have t: "core_tables (all_cores topo) ?info" by (rule detect_core_tables [OF assms(1)])
  have ok: "?key < 64" "c < 64" "distinct (core_cpus core)" "?n \<le> 8" "0 < ?n"
    using assms(1-3) by (auto simp: cores_ok_def distinct_concat_iff)
  have len: "length (ti_cpu_core_id ?info) = 64" "length (ti_cpu_thread_bit ?info) = 64"
    "length (ti_core_cpu_mask ?info) = 64" "length (ti_core_thread_mask ?info) = 64"
    using t by (simp_all add: core_tables_def tables_sized_def)
  have id: "unat (cpu_core_id R ! c) = ?key"
    using t ok assms(2,3) len by (simp add: assms(4) core_tables_def unat_ucast_id unat_of_nat)
  have mask: "bit (core_cpu_mask R ! ?key) n \<longleftrightarrow> n \<in> set (core_cpus core)" for n
    using t ok assms(2) len by (simp add: assms(4) core_tables_def)
  have u: "unat (word_of_nat c :: u32) = c" "unat (word_of_nat c AND (63 :: u32)) = c"
    using ok by (simp_all add: unat_and_low unat_of_nat)
  have "core_cpu_mask R ! ?key \<noteq> 0" using mask assms(3) by (metis bit_0_eq bot_apply bot_bool_def)
  moreover have "core_cpu_mask R ! ?key AND NOT (push_bit c 1) = 0 \<longleftrightarrow> (\<forall>d \<in> set (core_cpus core). d = c)"
  proof -
    have "bit (core_cpu_mask R ! ?key AND NOT (push_bit c 1)) n \<longleftrightarrow> n \<in> set (core_cpus core) \<and> n \<noteq> c" for n
      using mask [of n] ok(2) bit_imp_le_length [of "core_cpu_mask R ! ?key" n] by (auto simp: bit_simps)
    then show ?thesis by (metis bit_0_eq bot_apply bot_bool_def word_nonzero_bit)
  qed
  ultimately show "core_unshared R (word_of_nat c) = Some (?n = 1)"
    using id ok(1) only_cpu [OF ok(3) assms(3)] by (simp add: core_unshared_def Let_def u word_less_nat_alt)
  obtain i where "i < ?n" "ti_cpu_thread_bit ?info ! c = push_bit i 1"
    using t assms(2,3) unfolding core_tables_def by blast
  moreover have "core_thread_mask R ! ?key = ucast (ucast (push_bit ?n 1 - 1 :: u16) :: u8)"
    using t ok(1) assms(2) len by (simp add: assms(4) core_tables_def)
  moreover have "cpu_thread_bit R ! c = ucast (ti_cpu_thread_bit ?info ! c)"
    using ok(2) len by (simp add: assms(4))
  ultimately show "core_thread_mask R ! unat (cpu_core_id R ! c) = cpu_thread_bit R ! c \<longleftrightarrow> ?n = 1"
    using thread_mask_bit [OF _ ok(4)] unfolding id by simp
  fix d assume "d \<in> set (core_cpus core)"
  have "bit (big_cpu_mask R) x \<longleftrightarrow> \<not> core_little core" if "x \<in> set (core_cpus core)" for x
    using t assms(1,2) that cpu_core_unique [of "all_cores topo"]
    by (auto simp: assms(4) core_tables_def cores_ok_def)
  then show "bit (big_cpu_mask R) d \<longleftrightarrow> bit (big_cpu_mask R) c"
    using \<open>d \<in> set (core_cpus core)\<close> assms(3) by simp
qed

theorem core_tables_equivalent_witness:
  "core_unshared (configure_rodata example_args (detect example_topology) rodata_default) (word_of_nat 5) = Some True"
  using core_tables_equivalent [of example_topology "\<lparr>core_key = 2, core_little = True, core_cpus = [5]\<rparr>" 5
      _ example_args rodata_default, OF _ _ _ refl]
  by (simp add: cores_ok_def example_topology_def)

end
