(* ===== verification/Slices.thy ===== *)
theory Slices
  imports System Loader
begin

text \<open>
  The slices that reach the tick. Every stored context carries the quantum it was created with, the slice
  of its tier, or an extended slice of at most the one of T2; against the budgets the loader writes
  this bounds when the starvation path of \<open>imperator_tick\<close> can run at all.
\<close>

section \<open>The invariant\<close>

definition slice_ok :: "rodata \<Rightarrow> imperator_task_ctx \<Rightarrow> bool" where
  "slice_ok R c \<longleftrightarrow> next_slice c = quantum_ns R \<or> next_slice c = tier_slice R (ctx_tier c)
     \<or> (ctx_tier c \<noteq> 0 \<and> next_slice c \<le> tier_slice R 2)"

definition slices_ok :: "rodata \<Rightarrow> sched \<Rightarrow> bool" where
  "slices_ok R s \<longleftrightarrow> (\<forall>p c. task_ctx s p = Some c \<longrightarrow> slice_ok R c)"

lemma slices_same: "task_ctx s' = task_ctx s \<Longrightarrow> slices_ok R s \<Longrightarrow> slices_ok R s'"
  by (simp add: slices_ok_def)

lemma slices_upd:
  assumes "slices_ok R s" "task_ctx s' = (task_ctx s)(p := x)" "\<And>c. x = Some c \<Longrightarrow> slice_ok R c"
  shows "slices_ok R s'"
  using assms by (auto simp: slices_ok_def)

lemma slices_map:
  assumes "slices_ok R s" "task_ctx s' = (task_ctx s)(p := map_option f (task_ctx s p))"
    and "\<And>c. task_ctx s p = Some c \<Longrightarrow> slice_ok R c \<Longrightarrow> slice_ok R (f c)"
  shows "slices_ok R s'"
  using assms(1) by (rule slices_upd [OF _ assms(2)]) (use assms(1,3) in \<open>auto simp: slices_ok_def\<close>)

lemma slice_ok_cong: "next_slice c' = next_slice c \<Longrightarrow> ctx_tier c' = ctx_tier c \<Longrightarrow> slice_ok R c \<Longrightarrow> slice_ok R c'"
  by (simp add: slice_ok_def)

subsection \<open>What each operation does to a context\<close>

lemma slice_ok_reclassify:
  assumes "slice_ok R c"
  shows "slice_ok R (reclassify_task_cold R now run c)"
proof -
  consider "last_run_at c = 0" | "last_run_at c \<noteq> 0" "takes_backoff c" | "last_run_at c \<noteq> 0" "\<not> takes_backoff c" by blast
  then show ?thesis
  proof cases
    case 1
    then show ?thesis using assms by (simp add: reclassify_never_ran)
  next
    case 2
    with assms show ?thesis by (intro slice_ok_cong [OF reclassify_backoff_pass(2,1) [OF 2 refl]])
  next
    case 3
    obtain nt hist st where "chosen run (sample_of now c) c = (nt, hist, st)" by (metis prod.exhaust)
    from reclassify_full_pass(1,3) [OF 3 this refl, of R] show ?thesis by (simp add: slice_ok_def)
  qed
qed

lemma slice_ok_stop: "slice_ok R c \<Longrightarrow> slice_ok R (stop_ctx R now now2 run c)"
  unfolding stop_ctx_def by (rule slice_ok_reclassify) (simp add: slice_ok_def ctx_tier_def)

lemma slice_ok_run: "slice_ok R c \<Longrightarrow> slice_ok R (run_ctx now c)"
  by (erule slice_ok_cong [rotated 2]) (simp_all add: run_ctx_def ctx_tier_def)

lemma slice_ok_enq:
  assumes "slice_ok R c" "burst_credit c = 0"
  shows "slice_ok R (enq_ctx R K inp c)"
proof (cases "burst_earns R K (enq_flags inp) (ctx_tier c)")
  case True
  then have "ctx_tier c \<noteq> 0" by (auto simp: burst_earns_def)
  then show ?thesis
    using assms by (auto simp: slice_ok_def next_slice_enq_ctx enq_slice_eq enq_ctx_sel)
next
  case False
  then show ?thesis
    using assms by (intro slice_ok_cong [OF _ _ assms(1)]) (simp_all add: next_slice_enq_ctx enq_slice_eq enq_ctx_sel)
qed

lemma slice_ok_flags:
  "slice_ok R c \<Longrightarrow> slice_ok R (stamped K inp c)" "slice_ok R c \<Longrightarrow> slice_ok R (cleared c)"
  by (erule slice_ok_cong [rotated 2]; simp add: stamped_def cleared_def ctx_tier_def flag_simps)+

lemma slice_ok_lock:
  assumes "slice_ok R c" "f \<in> {hold, release} \<union> range enter_ctx \<union> range exit_ctx"
  shows "slice_ok R (f c)"
proof -
  have e: "next_slice (apply_effect e r c) = next_slice c" for e r
    by (cases e) (simp_all add: hold_def release_def)
  have "next_slice (f c) = next_slice c"
    using assms(2) e by (auto simp: hold_def release_def enter_ctx_def exit_ctx_def)
  moreover have "ctx_tier (f c) = ctx_tier c" using assms(2) lock_ctx_sel by auto
  ultimately show ?thesis using assms(1) by (rule slice_ok_cong)
qed

lemma slice_ok_exec: "slice_ok R (exec_reset R prio c)"
  using unat_init_tier [of prio] by (simp add: slice_ok_def exec_reset_eq ctx_tier_def packed_tier_put)

lemma slice_ok_fork: "slice_ok R (fork_inherit R pc c)"
  using fork_packed_fields(1) [OF unat_ctx_tier [of pc], of "packed_info c"]
  by (simp add: slice_ok_def fork_inherit_def Let_def fork_packed_def ctx_tier_def)

section \<open>Every step keeps it\<close>

lemma slices_running: "slices_ok R s \<Longrightarrow> slices_ok R (imperator_running R' smp now p s)"
proof (cases "task_ctx s p")
  case (Some c)
  assume "slices_ok R s"
  then show ?thesis
    using Some by (intro slices_upd [OF _ running_state(1) [OF Some]]) (auto simp: slices_ok_def slice_ok_run)
qed (simp add: imperator_running_def)

lemma slices_stopping:
  assumes "slices_ok R s"
  shows "slices_ok R (imperator_stopping R smp now now2 p runnable s)"
proof -
  consider "task_ctx s p = None" | c where "task_ctx s p = Some c" "last_run_at c = 0"
    | c where "task_ctx s p = Some c" "last_run_at c \<noteq> 0" by (cases "task_ctx s p") auto
  then show ?thesis
  proof cases
    case (3 c)
    then have "slice_ok R (stop_ctx R now now2 runnable c)" using assms by (auto simp: slices_ok_def slice_ok_stop)
    then show ?thesis
      by (intro slices_upd [OF assms, of _ p "Some (stop_ctx R now now2 runnable c)"]) (auto simp: stopping_state [OF 3] frame_simps)
  qed (use assms in \<open>simp_all add: stopping_unstamped\<close>)
qed

lemma slices_tick:
  assumes "slices_ok R s" "good R s"
  shows "slices_ok R (imperator_tick R K inp p s)"
proof -
  have wf: "unat (in_smp_id inp AND 63) < length (mega_mailbox s)" using assms(2) unat_and_63 by (simp add: good_def sched_wf_def)
  consider "task_ctx s p = None" | c where "task_ctx s p = Some c" "last_run_at c = 0"
    | c where "task_ctx s p = Some c" "last_run_at c \<noteq> 0" by (cases "task_ctx s p") auto
  then show ?thesis
  proof cases
    case 1
    then show ?thesis using assms(1) by (simp add: tick_unstamped)
  next
    case (2 c)
    then have "slice_ok R c" using assms(1) by (simp add: slices_ok_def)
    then show ?thesis
      using 2 by (intro slices_upd [OF assms(1), of _ p "Some (c\<lparr>last_run_at := ucast (in_now inp)\<rparr>)"])
        (auto simp: tick_unstamped(2) frame_simps slice_ok_def ctx_tier_def)
  next
    case (3 c)
    then have "slice_ok R c" using assms(1) by (simp add: slices_ok_def)
    then show ?thesis
      by (intro slices_upd [OF assms(1) tick_effect(3) [OF wf 3 HOL.refl HOL.refl HOL.refl]]) (auto simp: slice_ok_def ctx_tier_def)
  qed
qed

lemma slices_enqueue:
  assumes "slices_ok R s" "good R s"
  shows "slices_ok R (imperator_enqueue R K inp t s)"
proof (cases "task_ctx s (ts_id t)")
  case None
  then show ?thesis
    using assms(1) by (intro slices_same [OF _ assms(1)]) (auto simp: imperator_enqueue_eq frame_simps split: option.split)
next
  case (Some c)
  then have "slice_ok R c" "burst_credit c = 0" using assms by (auto simp: slices_ok_def good_def ctxs_ok_def ctx_inv_def)
  then have c': "slice_ok R (enq_ctx R K inp c)" by (rule slice_ok_enq)
  have "slices_ok R (enqueue_full R K inp t c l s)" for l
    using c' by (intro slices_upd [OF assms(1) enqueue_full_effect(1) [OF HOL.refl HOL.refl]]) simp
  then show ?thesis
    using Some assms(1) by (auto simp: imperator_enqueue_eq frame_simps intro: slices_same [OF _ assms(1)])
qed

lemma slices_select:
  assumes "slices_ok R s" "good R s"
  shows "slices_ok R (snd (imperator_select_cpu R K inp t prev s))"
proof -
  obtain cpu0 idle where d: "sel_dfl inp prev = (cpu0, idle)" by (metis prod.exhaust)
  obtain cpu s' where r: "imperator_select_cpu R K inp t prev s = (cpu, s')" by (metis prod.exhaust)
  have len: "length (dummy_idle s) = 64" using assms(2) by (simp add: good_def sched_wf_def)
  show ?thesis
  proof (cases idle)
    case True
    from select_cpu_idle(3) [OF d [unfolded eqTrueI [OF True]] len r]
    show ?thesis unfolding r snd_conv by (rule slices_map [OF assms(1) _ slice_ok_flags(2)])
  next
    case False
    then have "snd (sel_dfl inp prev) = False" by (simp add: d)
    from select_cpu_busy(3) [OF this len, of R K t]
    show ?thesis by (rule slices_map [OF assms(1) _ slice_ok_flags(1)])
  qed
qed

lemma slices_enable: "slices_ok R s \<Longrightarrow> slices_ok R (snd (imperator_enable R ok t s))"
  by (auto simp: imperator_enable_def get_task_ctx_def alloc_task_ctx_cold_def Let_def slices_ok_def slice_ok_def
      split: option.split)

lemma slices_init_task:
  assumes "slices_ok R s"
  shows "slices_ok R (snd (imperator_init_task R t fork s))"
proof -
  have u: "slices_ok R (upd_ctx p f s)" if "\<And>c. slice_ok R (f c)" for p f
    using assms that by (auto simp: slices_ok_def upd_ctx_def split: option.splits)
  show ?thesis
    using assms u [OF slice_ok_exec] u [OF slice_ok_fork] by (auto simp: imperator_init_task_def split: option.split)
qed

lemma slices_lock:
  assumes "slices_ok R s"
  shows "slices_ok R (lock_handler cur e s)"
  using lock_handler_upd [of cur e s]
proof (elim disjE exE conjE)
  fix p f assume h: "lock_handler cur e s = upd_ctx p f s" "f \<in> {hold, release} \<union> range enter_ctx \<union> range exit_ctx"
  show ?thesis
    using assms slice_ok_lock [OF _ h(2)] by (auto simp: h(1) slices_ok_def upd_ctx_def split: option.splits)
qed (simp add: assms)

lemma slices_dispatch: "slices_ok R s \<Longrightarrow> slices_ok R (imperator_dispatch R' inp s)"
  by (rule slices_same [OF dispatch_ctx])

lemma slices_step:
  assumes "sched_step R K m m'" "slices_ok R (kern m)" "good R (kern m)"
  shows "slices_ok R (kern m')"
  using assms(1)
proof cases
  case (task_freed p)
  then show ?thesis using assms(2) by (auto simp: slices_ok_def)
next
  case (cost_written a b v)
  then show ?thesis by (simp add: slices_same [OF _ assms(2)] frame_simps)
next
  case (stats_reset i)
  then show ?thesis by (simp add: slices_same [OF _ assms(2)] frame_simps)
qed (use assms(2,3) in \<open>simp_all add: slices_select slices_enqueue slices_dispatch slices_running slices_tick slices_stopping
      slices_enable slices_init_task slices_lock\<close>)

lemma reachable_slices: "reachable R K m \<Longrightarrow> config_ok R \<Longrightarrow> slices_ok R (kern m)"
proof (induction rule: reachable.induct)
  case (loaded create s)
  have "length (llc_cpu_mask bss_zero) = 8" by (simp add: bss_zero_def)
  from arg_cong [OF init_effect(3) [OF loaded.hyps this, of 0], of task_ctx]
  have "task_ctx s = task_ctx bss_zero" by simp
  then show ?case by (simp add: slices_ok_def bss_zero_def)
next
  case (step m m')
  then show ?case using slices_step machine_invD(1) [OF reachable_inv] by blast
qed

section \<open>The slices and budgets the loader writes\<close>

definition stock_config :: "args \<Rightarrow> topology_info \<Rightarrow> rodata \<Rightarrow> bool" where
  \<comment> \<open>the configuration of a command line without \<open>--quantum\<close> and \<open>--starvation\<close>\<close>
  "stock_config a topo R \<longleftrightarrow> arg_quantum a = None \<and> arg_starvation a = None \<and> (\<exists>R0. R = configure_rodata a topo R0)"

lemma stock_values:
  assumes "stock_config a topo R"
  shows "quantum_ns R = fst (profile_values (arg_profile a)) * 1000"
    "tier_configs R = profile_tier_configs (arg_profile a) (fst (profile_values (arg_profile a))) None"
  using assms
  by (auto simp: stock_config_def configure_rodata_def effective_values_def unwrap_or_def Let_def split_def)

lemma stock_budget:
  assumes "stock_config a topo R"
  shows "budget_ns R 0 = (case arg_profile a of Sim \<Rightarrow> 2999296 | _ \<Rightarrow> 1499136)"
    "budget_ns R 1 = (case arg_profile a of Esports \<Rightarrow> 3999744 | _ \<Rightarrow> 7999488)"
    "budget_ns R 2 = (case arg_profile a of Sim \<Rightarrow> 80000000 | _ \<Rightarrow> 19999744)"
    "budget_ns R 3 = (case arg_profile a of Esports \<Rightarrow> 49999872 | Default \<Rightarrow> 99999744 | Sim \<Rightarrow> 199999488)"
proof -
  have "budget_ns R t = threshold (arg_profile a) t div 1024 mod 2 ^ 20 * 1024" if "t < 8" for t
    using budget_profile [OF that stock_values(2) [OF assms]] by (simp add: starvation_with_def threshold_def)
  from this [of 0] this [of "Suc 0"] this [of 2] this [of 3]
  show "budget_ns R 0 = (case arg_profile a of Sim \<Rightarrow> 2999296 | _ \<Rightarrow> 1499136)"
    "budget_ns R 1 = (case arg_profile a of Esports \<Rightarrow> 3999744 | _ \<Rightarrow> 7999488)"
    "budget_ns R 2 = (case arg_profile a of Sim \<Rightarrow> 80000000 | _ \<Rightarrow> 19999744)"
    "budget_ns R 3 = (case arg_profile a of Esports \<Rightarrow> 49999872 | Default \<Rightarrow> 99999744 | Sim \<Rightarrow> 199999488)"
    by (cases "arg_profile a"; simp add: threshold_simps)+
qed

lemma stock_slice:
  assumes "stock_config a topo R" "unat t < 4"
  shows "tier_slice R t = drop_bit 10 (fst (profile_values (arg_profile a)) * 1000
    * (ucast (tier_multiplier (arg_profile a) ! unat t) AND 0xFFF))"
proof -
  have "CAKE_TIER_IDX t = t" using assms(2) by (intro CAKE_TIER_IDX_id) simp
  then show ?thesis
    using assms(2) stock_values [OF assms(1)] UNPACK_MULTIPLIER_PACK
    by (simp add: tier_slice_def tier_cfg_def profile_config_pack)
qed

lemma stock_slices:
  assumes "stock_config a topo R"
  shows "unat (tier_slice R 0) = unat (quantum_ns R) div 4" "unat (tier_slice R 1) = unat (quantum_ns R)"
    "unat (tier_slice R 2) = unat (quantum_ns R) * 2" "unat (tier_slice R 3) \<le> unat (quantum_ns R) * 4"
    "unat (quantum_ns R) = (case arg_profile a of Esports \<Rightarrow> 1000000 | Default \<Rightarrow> 2000000 | Sim \<Rightarrow> 4000000)"
proof -
  note q = stock_values(1) [OF assms]
  show "unat (tier_slice R 0) = unat (quantum_ns R) div 4"
    using stock_slice [OF assms, of 0] q by (cases "arg_profile a") simp_all
  show "unat (tier_slice R 1) = unat (quantum_ns R)"
    using stock_slice [OF assms, of 1] q by (cases "arg_profile a") simp_all
  show "unat (tier_slice R 2) = unat (quantum_ns R) * 2"
    using stock_slice [OF assms, of 2] q by (cases "arg_profile a") simp_all
  show "unat (tier_slice R 3) \<le> unat (quantum_ns R) * 4"
    using stock_slice [OF assms, of 3] q by (cases "arg_profile a") simp_all
  show "unat (quantum_ns R) = (case arg_profile a of Esports \<Rightarrow> 1000000 | Default \<Rightarrow> 2000000 | Sim \<Rightarrow> 4000000)"
    using q by (cases "arg_profile a") simp_all
qed

section \<open>When the starvation check can act\<close>

definition early_window :: "profile \<Rightarrow> rodata \<Rightarrow> imperator_task_ctx \<Rightarrow> nat \<Rightarrow> bool" where
  \<comment> \<open>runtimes past the budget of the tier and within the slice\<close>
  "early_window pr R c t \<longleftrightarrow>
     (ctx_tier c = 0 \<and> next_slice c = quantum_ns R
        \<and> (case pr of Esports \<Rightarrow> False | Default \<Rightarrow> 1499136 < t \<and> t \<le> 2000000 | Sim \<Rightarrow> 2999296 < t \<and> t \<le> 4000000))
     \<or> (pr = Sim \<and> ctx_tier c = 1 \<and> 7999488 < t \<and> t \<le> unat (next_slice c) \<and> t \<le> 8000000)"

lemma early_iff:
  assumes "stock_config a topo R" "slice_ok R c"
  shows "budget_ns R (unat (ctx_tier c)) < t \<and> t \<le> unat (next_slice c) \<longleftrightarrow> early_window (arg_profile a) R c t"
proof -
  note sl = stock_slices [OF assms(1)] and bu = stock_budget [OF assms(1)]
  have "ctx_tier c = 0 \<or> ctx_tier c = 1 \<or> ctx_tier c = 2 \<or> ctx_tier c = 3"
    using unat_ctx_tier [of c] by (auto simp: word_unat_eq_iff)
  moreover have "unat (next_slice c) = unat (quantum_ns R) \<or> unat (next_slice c) = unat (tier_slice R (ctx_tier c))
      \<or> ctx_tier c \<noteq> 0 \<and> unat (next_slice c) \<le> unat (tier_slice R 2)"
    using assms(2) by (auto simp: slice_ok_def word_le_nat_alt)
  moreover have "next_slice c = quantum_ns R \<longleftrightarrow> unat (next_slice c) = unat (quantum_ns R)"
    by (simp add: word_unat_eq_iff)
  ultimately show ?thesis
    using sl bu by (cases "arg_profile a") (elim disjE; auto simp: early_window_def)+
qed

lemma tick_unchanged_ctx:
  assumes "unat cpu < length (mega_mailbox s)" "task_ctx s p = Some c" "last_run_at c \<noteq> 0"
    "cpu = in_smp_id inp AND 63" "tc = tick_counter (get_mbox cpu s)" "expired R K inp c \<or> \<not> starving R inp c tc"
  shows "task_ctx (imperator_tick R K inp p s) = task_ctx s"
  using tick_effect(3) [OF assms(1-4) HOL.refl assms(5), of R K] assms(2,6)
  by (auto simp: next_skips_def fun_eq_iff)

lemma fresh_t0:
  assumes "fst (imperator_init R (\<lambda>_. 0) bss_zero) = 0"
  shows "\<exists>m c. reachable R K m \<and> on_run m 4 = Some 7 \<and> task_ctx (kern m) 7 = Some c \<and> last_run_at c = 1024
    \<and> ctx_tier c = 0 \<and> next_slice c = quantum_ns R \<and> \<not> has_flag CAKE_FLAG_LOCK_HOLDER (packed_info c)
    \<and> tick_counter (get_mbox 4 (kern m)) = 0"
proof -
  let ?t = "example_task\<lparr>ts_static_prio := 100\<rparr>"
  obtain s where s: "imperator_init R (\<lambda>_. 0) bss_zero = (0, s)" using assms by (metis prod.collapse)
  have len: "length (llc_cpu_mask bss_zero) = 8" by (simp add: bss_zero_def)
  note r0 = reachable.loaded [OF s, of K]
  have "task_ctx s = Map.empty" "mega_mailbox s = mega_mailbox bss_zero"
    using arg_cong [OF init_effect(3) [OF s len, of 0], of task_ctx] arg_cong [OF init_effect(3) [OF s len, of 0], of mega_mailbox]
    by (simp_all add: bss_zero_def)
  note k = this
  obtain c where c: "snd (imperator_enable R True ?t s) = s\<lparr>task_ctx := [7 \<mapsto> c]\<rparr>" "seeded R 100 c" "next_slice c = quantum_ns R"
  proof -
    obtain r s' where a: "alloc_task_ctx_cold R True ?t s = (r, s')" by (metis prod.exhaust)
    from alloc_seeded [OF a] obtain c where "r = Some c" "s' = s\<lparr>task_ctx := [7 \<mapsto> c]\<rparr>" "seeded R 100 c"
      using k by (auto simp: example_task_def)
    moreover have "next_slice c = quantum_ns R"
      using a \<open>r = Some c\<close> by (auto simp: alloc_task_ctx_cold_def Let_def)
    ultimately show thesis using that [of c] a k by (simp add: imperator_enable_def get_task_ctx_def example_task_def)
  qed
  define m1 where "m1 = \<lparr>kern = s\<lparr>task_ctx := [7 \<mapsto> c]\<rparr>, on_run = Map.empty, waiting = (\<lambda>_. 0)\<rparr>"
  have r1: "reachable R K m1"
    using reachable.step [OF r0 sched_step.enable [of ?t _ R K True]] by (simp add: c(1) m1_def)
  define m2 where "m2 = m1\<lparr>kern := imperator_running R 4 1024 7 (kern m1), on_run := (on_run m1)(smp_cpu 4 \<mapsto> 7)\<rparr>"
  have r2: "reachable R K m2"
    unfolding m2_def by (rule reachable.step [OF r1 sched_step.running]) (simp_all add: m1_def)
  have "task_ctx (kern m1) 7 = Some c" by (simp add: m1_def)
  note run = running_state [OF this, of R 4 1024]
  have "task_ctx (kern m2) 7 = Some (run_ctx 1024 c)" by (simp add: m2_def run)
  moreover have "tick_counter (get_mbox 4 (kern m2)) = 0"
    using run(4) k by (simp add: m2_def m1_def get_mbox_def publish_running_tier_def Let_def frame_simps bss_zero_def)
  moreover have "last_run_at (run_ctx 1024 c) = 1024" "ctx_tier (run_ctx 1024 c) = 0" "next_slice (run_ctx 1024 c) = quantum_ns R"
    "\<not> has_flag CAKE_FLAG_LOCK_HOLDER (packed_info (run_ctx 1024 c))"
    using c(2,3) by (simp_all add: seeded_def run_ctx_def ctx_tier_def init_tier_of_prio_def)
  moreover have "on_run m2 4 = Some 7" by (simp add: m2_def smp_cpu_def)
  ultimately show ?thesis using r2 by blast
qed

definition early_tick :: tick_input where
  \<comment> \<open>1.9 ms into the run of the fresh task, with another task queued\<close>
  "early_tick = \<lparr>in_smp_id = 4, in_now = 1901024, in_nr_queued = (\<lambda>dsq. 1), in_nr_running = Some 2, in_cpuperf_cap = 1024\<rparr>"

section \<open>Property\<close>

text \<open>
  C20. The starvation path of the tick is confined to a narrow window, but not dead. Under a
  command line without \<open>--quantum\<close> and \<open>--starvation\<close>, in every reachable state and with work waiting
  on the CPU, a check finds the running task starving others before its slice is over exactly when
  it is due and contended and the task is either in T0 with the quantum it was created with, after
  1.499136 to 2 ms of Default or 2.999296 to 4 ms of Sim, or in T1 of Sim with an extended slice,
  after 7.999488 to 8 ms (extensions come from burst credit only). In that window a task without the lock-holder flag is preempted; outside
  it the tick preempts exactly when the slice is over, and no lock skip is counted.
\<close>

theorem starvation_path_confined:
  assumes "reachable R K m" "config_ok R" "stock_config a topo R"
    and c: "task_ctx (kern m) p = Some c" "last_run_at c \<noteq> 0"
    and cpu: "cpu = in_smp_id inp AND 63" "work_waiting R K inp cpu" and tc: "tc = tick_counter (get_mbox cpu (kern m))"
    and s': "s' = imperator_tick R K inp p (kern m)" and w: "w = early_window (arg_profile a) R c (tick_runtime inp c)"
  shows "(starving R inp c tc \<and> \<not> expired R K inp c \<longleftrightarrow> check_due tc \<and> contended inp \<and> w)
    \<and> (\<exists>new. kcalls s' = kcalls (kern m) @ new
         \<and> (w \<longrightarrow> check_due tc \<longrightarrow> contended inp \<longrightarrow> \<not> has_flag CAKE_FLAG_LOCK_HOLDER (packed_info c) \<longrightarrow>
              new = [Kick_cpu cpu (SCX_KICK_PREEMPT K)])
         \<and> (\<not> w \<longrightarrow> task_ctx s' = task_ctx (kern m)
              \<and> (Kick_cpu cpu (SCX_KICK_PREEMPT K) \<in> set new \<longleftrightarrow> unat (next_slice c) < tick_runtime inp c)))"
proof -
  have "slice_ok R c" using reachable_slices [OF assms(1,2)] c by (auto simp: slices_ok_def)
  note e = early_iff [OF assms(3) this, of "tick_runtime inp c", folded w]
  have x: "expired R K inp c \<longleftrightarrow> unat (next_slice c) < tick_runtime inp c"
    using cpu by (simp add: expired_def)
  have st: "starving R inp c tc \<and> \<not> expired R K inp c \<longleftrightarrow> check_due tc \<and> contended inp \<and> w"
    using e x by (auto simp: starving_def not_less)
  have "length (mega_mailbox (kern m)) = 64"
    using machine_invD(1) [OF reachable_inv [OF assms(1,2)]] by (simp add: good_def sched_wf_def)
  then have len: "unat cpu < length (mega_mailbox (kern m))" using unat_and_63 [of "in_smp_id inp"] by (simp add: cpu)
  have same: "\<not> w \<Longrightarrow> task_ctx s' = task_ctx (kern m)"
    unfolding s' using st by (intro tick_unchanged_ctx [OF len c cpu(1) tc]) blast
  obtain new where n: "kcalls s' = kcalls (kern m) @ new"
    "if expired R K inp c \<or> (starving R inp c tc \<and> \<not> lock_exempt c) then new = [Kick_cpu cpu (SCX_KICK_PREEMPT K)]
     else new = [] \<or> (\<exists>f. new = [Cpuperf_set cpu f] \<and> (f = SCX_CPUPERF_ONE K \<or> (starving R inp c tc \<and> lock_exempt c)))"
    using tick_kcalls [OF c cpu(1) tc, of R K] unfolding s' by blast
  show ?thesis
    using st same n x by (intro conjI exI [of _ new]) (auto simp: lock_exempt_def split: if_splits)
qed

theorem starvation_path_confined_witness:
  "\<exists>R m c. stock_config example_args (detect example_topology) R \<and> reachable R example_kabi m \<and> on_run m 4 = Some 7
     \<and> task_ctx (kern m) 7 = Some c \<and> tick_runtime early_tick c = 1900000 \<and> unat (next_slice c) = 2000000
     \<and> kcalls (imperator_tick R example_kabi early_tick 7 (kern m)) = kcalls (kern m) @ [Kick_cpu 4 2]"
proof -
  define R where "R = configure_rodata example_args (detect example_topology) rodata_default"
  have st: "stock_config example_args (detect example_topology) R"
    by (auto simp: stock_config_def R_def example_args_def)
  have ok: "config_ok R"
    unfolding R_def by (rule loader_config_ok) (simp add: llcs_populated_def example_topology_def)
  have "fst (imperator_init R (\<lambda>_. 0) bss_zero) = 0" by (simp add: imperator_init_def Let_def create_dsqs_eq)
  from fresh_t0 [OF this, of example_kabi] obtain m c where m: "reachable R example_kabi m" "on_run m 4 = Some 7"
    and c: "task_ctx (kern m) 7 = Some c" "last_run_at c = 1024" "ctx_tier c = 0" "next_slice c = quantum_ns R"
      "\<not> has_flag CAKE_FLAG_LOCK_HOLDER (packed_info c)" "tick_counter (get_mbox 4 (kern m)) = 0" by blast
  have rt: "tick_runtime early_tick c = 1900000" using c(2) by (simp add: tick_runtime_def early_tick_def)
  have cpu: "4 = in_smp_id early_tick AND 63" "work_waiting R example_kabi early_tick 4"
    by (simp_all add: early_tick_def work_waiting_def Let_def)
  have w: "True = early_window (arg_profile example_args) R c (tick_runtime early_tick c)"
    using c(3,4) by (simp add: early_window_def rt example_args_def)
  have "check_due 0" "contended early_tick" by (simp_all add: check_due_def contended_def early_tick_def)
  moreover from c(2) have "last_run_at c \<noteq> 0" by simp
  ultimately have "kcalls (imperator_tick R example_kabi early_tick 7 (kern m)) = kcalls (kern m) @ [Kick_cpu 4 2]"
    using starvation_path_confined [OF m(1) ok st c(1) _ cpu c(6) [symmetric] HOL.refl w] c(5)
    by (auto simp: example_kabi_def)
  moreover have "unat (next_slice c) = 2000000"
    using stock_slices(5) [OF st] by (simp add: c(4) example_args_def)
  ultimately show ?thesis using st m c(1) rt by blast
qed

end
