(* ===== verification/Etd.thy ===== *)
theory Etd
  imports Complex_Main Loader
begin

text \<open>
  The latency calibration: \<open>select_etd_pairs\<close> and \<open>try_write_etd_costs\<close> of \<open>src/src/main.rs\<close>,
  \<open>calibrate_pairs\<close> and \<open>calibrate_full_matrix\<close> of \<open>src/src/calibrate.rs\<close>. They fill
  \<open>llc_etd_cost\<close>, the table the steal scan of \<open>imperator_dispatch\<close> orders its victims by. The timed
  ping-pong between two pinned threads is the argument \<open>meas\<close>: the samples of the \<open>k\<close>-th attempt
  on a pair of CPUs, or None when a thread could not be pinned. Latencies are rationals
  (floating-point rounding is not represented); an index out of range, which
  panics, is None.
\<close>

section \<open>Choosing the pairs\<close>

definition llc_members :: "topology_info \<Rightarrow> nat list list" where
  "llc_members topo =
     map (\<lambda>mask. filter (\<lambda>cpu. mask AND push_bit cpu 1 \<noteq> 0) [0..<MAX_CPUS])
       (filter (\<lambda>mask. mask \<noteq> 0) (ti_llc_cpu_mask topo))"

definition spread_indices :: "nat \<Rightarrow> nat \<Rightarrow> nat list" where
  "spread_indices len k =
     (if len = 0 \<or> k = 0 then []
      else let k = min k len
           in if k = 1 then [0] else map (\<lambda>i. i * (len - 1) div (k - 1)) [0..<k])"

definition llc_pair_samples :: "nat list \<Rightarrow> nat list \<Rightarrow> (nat \<times> nat) list" where
  "llc_pair_samples cpus_a cpus_b =
     (let k = min (min 3 (length cpus_a)) (length cpus_b);
          idx_a = spread_indices (length cpus_a) k;
          idx_b = spread_indices (length cpus_b) k
      in map (\<lambda>i. (cpus_a ! (idx_a ! i), cpus_b ! (idx_b ! i))) [0..<k])"

definition select_etd_pairs :: "topology_info \<Rightarrow> (nat \<times> nat) list" where
  "select_etd_pairs topo =
     (let members = llc_members topo
      in if length members \<le> 1 then []
         else concat (map (\<lambda>a. concat (map (\<lambda>b. llc_pair_samples (members ! a) (members ! b))
                                          [a + 1..<length members]))
                          [0..<length members]))"

section \<open>Measuring them\<close>

type_synonym matrix = "rat list list"
type_synonym measurement = "nat \<Rightarrow> nat \<Rightarrow> nat \<Rightarrow> rat list option"

definition variance :: "rat list \<Rightarrow> rat" where
  "variance samples =
     (let n = of_nat (length samples); mean = sum_list samples / n
      in sum_list (map (\<lambda>x. (x - mean) ^ 2) samples) / n)"

definition median :: "rat list \<Rightarrow> rat" where
  "median samples = sort samples ! (length samples div 2)"

abbreviation (input) MAX_RETRIES :: nat where "MAX_RETRIES \<equiv> 3"
abbreviation (input) max_stddev :: rat where "max_stddev \<equiv> 15"
abbreviation (input) ETD_FALLBACK_NS :: rat where "ETD_FALLBACK_NS \<equiv> 500"

function measure_until_stable :: "(nat \<Rightarrow> rat list option) \<Rightarrow> nat \<Rightarrow> rat option" where
  \<comment> \<open>the \<open>while let\<close> loop; the deviation is at most \<open>max_stddev\<close> iff the variance is at most its square\<close>
  "measure_until_stable attempt retry_count =
     (case attempt retry_count of
        None \<Rightarrow> None
      | Some samples \<Rightarrow>
          if variance samples \<le> max_stddev ^ 2 \<or> retry_count \<ge> MAX_RETRIES then Some (median samples)
          else measure_until_stable attempt (retry_count + 1))"
  by pat_completeness auto
termination by (relation "measure (\<lambda>(_, r). MAX_RETRIES - r)") auto

declare measure_until_stable.simps [simp del]

definition set_entry :: "nat \<Rightarrow> nat \<Rightarrow> rat \<Rightarrow> matrix \<Rightarrow> matrix option" where
  \<comment> \<open>\<open>matrix[a][b] = v\<close>\<close>
  "set_entry a b v m = (if a < length m \<and> b < length (m ! a) then Some (m[a := (m ! a)[b := v]]) else None)"

definition get_entry :: "nat \<Rightarrow> nat \<Rightarrow> matrix \<Rightarrow> rat option" where
  \<comment> \<open>\<open>matrix[a][b]\<close>\<close>
  "get_entry a b m = (if a < length m \<and> b < length (m ! a) then Some (m ! a ! b) else None)"

definition set_both :: "nat \<Rightarrow> nat \<Rightarrow> rat \<Rightarrow> matrix \<Rightarrow> matrix option" where
  "set_both a b v m = Option.bind (set_entry a b v m) (set_entry b a v)"

definition calibrate_pair :: "measurement \<Rightarrow> nat \<times> nat \<Rightarrow> matrix \<Rightarrow> matrix option" where
  "calibrate_pair meas = (\<lambda>(cpu_a, cpu_b) m.
     Option.bind (case measure_until_stable (meas cpu_a cpu_b) 0 of
                    Some med \<Rightarrow> set_both cpu_a cpu_b med m
                  | None \<Rightarrow> Some m) (\<lambda>m.
     Option.bind (get_entry cpu_a cpu_b m) (\<lambda>v.
     if v = 0 then set_both cpu_a cpu_b ETD_FALLBACK_NS m else Some m)))"

definition calibrate_pairs :: "measurement \<Rightarrow> nat \<Rightarrow> (nat \<times> nat) list \<Rightarrow> matrix option" where
  "calibrate_pairs meas cpus pairs =
     fold (\<lambda>p m. Option.bind m (calibrate_pair meas p)) pairs
       (Some (replicate cpus (replicate cpus 0)))"

definition calibrate_full_matrix :: "measurement \<Rightarrow> nat \<Rightarrow> matrix option" where
  "calibrate_full_matrix meas cpus =
     calibrate_pairs meas cpus
       (concat (map (\<lambda>cpu_a. map (\<lambda>cpu_b. (cpu_a, cpu_b)) [cpu_a + 1..<cpus]) [0..<cpus]))"

section \<open>Writing the cost table\<close>

definition f64_MAX :: rat where "f64_MAX = 2 ^ 1024 - 2 ^ 971"

definition min_latency :: "matrix \<Rightarrow> topology_info \<Rightarrow> nat \<Rightarrow> nat \<Rightarrow> rat" where
  "min_latency m topo llc_a llc_b =
     (let cpus = min (length m) MAX_CPUS
      in fold min
           (concat (map (\<lambda>ca. filter (\<lambda>v. v > 0)
                        (map (\<lambda>cb. m ! ca ! cb) (filter (\<lambda>cb. unat (ti_cpu_llc_id topo ! cb) = llc_b) [0..<cpus])))
              (filter (\<lambda>ca. unat (ti_cpu_llc_id topo ! ca) = llc_a) [0..<cpus])))
           f64_MAX)"

definition etd_cost :: "rat \<Rightarrow> u8" where
  "etd_cost min_ns =
     (if min_ns = f64_MAX then 0
      else word_of_nat (max (min (min (nat \<lfloor>min_ns / 4\<rfloor>) (2 ^ 64 - 1)) 255) 1))"

definition try_write_etd_costs :: "matrix option \<Rightarrow> topology_info \<Rightarrow> sched \<Rightarrow> sched \<times> bool" where
  \<comment> \<open>None is a contested lock; the matrix is all zero until the calibration thread has published its result\<close>
  "try_write_etd_costs locked topo s =
     (case locked of
        None \<Rightarrow> (s, False)
      | Some m \<Rightarrow>
          if \<not> (\<exists>v \<in> set (concat m). v > 0) then (s, False)
          else (let llcs = min (length (filter (\<lambda>m. m \<noteq> 0) (ti_llc_cpu_mask topo))) MAX_LLCS
                in (s\<lparr>llc_etd_cost :=
                       fold (\<lambda>(llc_a, llc_b) t.
                               if llc_a = llc_b then t
                               else t[llc_a := (t ! llc_a)[llc_b := etd_cost (min_latency m topo llc_a llc_b)]])
                         (List.product [0..<llcs] [0..<llcs]) (llc_etd_cost s)\<rparr>, True)))"

section \<open>The sampled pairs\<close>

lemma and_cpu_bit: "cpu < 64 \<Longrightarrow> (w :: u64) AND push_bit cpu 1 \<noteq> 0 \<longleftrightarrow> bit w cpu"
  by (simp add: push_bit_eq_mult and_exp_eq_0_iff_not_bit)

lemma llc_members_bits: "llc_members topo = map bits_asc (filter (\<lambda>mask. mask \<noteq> 0) (ti_llc_cpu_mask topo))"
  unfolding llc_members_def bits_asc_def
  by (intro map_cong refl filter_cong) (auto simp: push_bit_eq_mult and_exp_eq_0_iff_not_bit)

lemma llc_members_nth:
  assumes "a < length (llc_members topo)"
  shows "sorted (llc_members topo ! a)" "distinct (llc_members topo ! a)" "llc_members topo ! a \<noteq> []"
    "\<forall>c \<in> set (llc_members topo ! a). c < 64"
proof -
  have "llc_members topo ! a \<in> bits_asc ` {w \<in> set (ti_llc_cpu_mask topo). w \<noteq> 0}"
    using nth_mem [OF assms] by (simp only: llc_members_bits set_map set_filter)
  then obtain w :: u64 where m: "w \<noteq> 0" "llc_members topo ! a = bits_asc w"
    by auto
  then show "sorted (llc_members topo ! a)" "distinct (llc_members topo ! a)" "llc_members topo ! a \<noteq> []"
    "\<forall>c \<in> set (llc_members topo ! a). c < 64"
    by (auto simp: sorted_bits_asc bits_asc_Nil set_bits_asc dest: bit_imp_le_length)
qed

lemma spread_nth:
  assumes "i < k" "k \<le> len"
  shows "spread_indices len k ! i = (if k = 1 then 0 else i * (len - 1) div (k - 1))"
  using assms by (auto simp: spread_indices_def Let_def min_def)

lemma spread_less:
  assumes "i < j" "j < k" "k \<le> len"
  shows "spread_indices len k ! i < spread_indices len k ! j"
proof -
  have "i * (len - 1) div (k - 1) < j * (len - 1) div (k - 1)"
  proof -
    have "Suc i * (len - 1) \<le> j * (len - 1)" using assms(1) by (intro mult_le_mono1) simp
    moreover have "i * (len - 1) + (k - 1) \<le> Suc i * (len - 1)" using assms by simp
    ultimately have "(i * (len - 1) + (k - 1)) div (k - 1) \<le> j * (len - 1) div (k - 1)"
      by (intro div_le_mono) linarith
    moreover have "(i * (len - 1) + (k - 1)) div (k - 1) = Suc (i * (len - 1) div (k - 1))"
      using assms by (subst div_add_self2) simp_all
    ultimately show ?thesis by linarith
  qed
  then show ?thesis using assms by (simp add: spread_nth)
qed

lemma spread_last: "1 < k \<Longrightarrow> k \<le> len \<Longrightarrow> spread_indices len k ! (k - 1) = len - 1"
  by (simp add: spread_nth)

lemma spread_bound:
  assumes "i < k" "k \<le> len"
  shows "spread_indices len k ! i < len"
proof (cases "i < k - 1")
  case True
  then have "spread_indices len k ! i < spread_indices len k ! (k - 1)"
    using assms by (intro spread_less) simp_all
  moreover have "spread_indices len k ! (k - 1) = len - 1" using True assms by (intro spread_last) simp_all
  ultimately show ?thesis by linarith
next
  case False
  with assms have "i = k - 1" by simp
  then show ?thesis using assms by (cases "k = 1") (simp_all add: spread_nth spread_last)
qed


lemma set_pair_samples:
  "set (llc_pair_samples xs ys) \<subseteq> set xs \<times> set ys"
  by (auto simp: llc_pair_samples_def Let_def intro!: nth_mem spread_bound)

lemma length_pair_samples: "length (llc_pair_samples xs ys) = min (min 3 (length xs)) (length ys)"
  by (simp add: llc_pair_samples_def Let_def)

lemma distinct_pair_samples:
  assumes "distinct xs"
  shows "distinct (llc_pair_samples xs ys)"
proof -
  let ?k = "min (min 3 (length xs)) (length ys)"
  have "xs ! (spread_indices (length xs) ?k ! i) \<noteq> xs ! (spread_indices (length xs) ?k ! j)"
    if "i < j" "j < ?k" for i j
  proof -
    have "spread_indices (length xs) ?k ! i < spread_indices (length xs) ?k ! j"
      using that by (intro spread_less) simp_all
    moreover have "spread_indices (length xs) ?k ! j < length xs"
      using that by (intro spread_bound) simp_all
    ultimately show ?thesis using assms by (simp add: nth_eq_iff_index_eq)
  qed
  then have "inj_on (\<lambda>i. xs ! (spread_indices (length xs) ?k ! i)) {0..<?k}"
    by (intro linorder_inj_onI') auto
  then show ?thesis
    by (auto simp: llc_pair_samples_def Let_def distinct_map inj_on_def)
qed

lemma last_pair_sampled:
  assumes "2 \<le> length xs" "2 \<le> length ys"
  shows "(last xs, last ys) \<in> set (llc_pair_samples xs ys)"
proof -
  let ?k = "min (min 3 (length xs)) (length ys)"
  have k: "1 < ?k" "?k \<le> length xs" "?k \<le> length ys" using assms by simp_all
  have "last xs = xs ! (spread_indices (length xs) ?k ! (?k - 1))"
    "last ys = ys ! (spread_indices (length ys) ?k ! (?k - 1))"
    unfolding spread_last [OF k(1,2)] spread_last [OF k(1,3)]
    using assms by (intro last_conv_nth; force)+
  moreover have "?k - 1 < ?k" using k(1) by linarith
  then have "?k - 1 \<in> set [0..<?k]" by (simp only: set_upt atLeastLessThan_iff le0 simp_thms)
  ultimately show ?thesis
    unfolding llc_pair_samples_def Let_def set_map by (intro image_eqI [of _ _ "?k - 1"]) (simp_all only: prod.inject)
qed

lemma set_select:
  assumes "1 < length (llc_members topo)"
  shows "set (select_etd_pairs topo) =
    (\<Union>a \<in> {0..<length (llc_members topo)}. \<Union>b \<in> {a + 1..<length (llc_members topo)}.
       set (llc_pair_samples (llc_members topo ! a) (llc_members topo ! b)))"
  using assms by (simp add: select_etd_pairs_def Let_def)


section \<open>The latency matrix\<close>

definition meas_ok :: "measurement \<Rightarrow> bool" where
  \<comment> \<open>samples are positive finite durations, and there is at least one of them\<close>
  "meas_ok meas \<longleftrightarrow> (\<forall>a b k s. meas a b k = Some s \<longrightarrow> s \<noteq> [] \<and> (\<forall>x \<in> set s. 0 < x \<and> x < f64_MAX))"

lemma median_in: "s \<noteq> [] \<Longrightarrow> median s \<in> set s"
  by (metis median_def div_less_dividend length_greater_0_conv length_sort nth_mem one_less_numeral_iff
      semiring_norm(76) set_sort)

lemma measured_ok:
  "meas_ok meas \<Longrightarrow> measure_until_stable (meas a b) r = Some v \<Longrightarrow> 0 < v \<and> v < f64_MAX"
proof (induction "meas a b" r rule: measure_until_stable.induct)
  case (1 r)
  have "0 < median s \<and> median s < f64_MAX" if "meas a b r = Some s" for s
    using 1(2) that median_in [of s] by (auto simp: meas_ok_def)
  with 1 show ?case
    by (subst (asm) (2) measure_until_stable.simps) (auto split: option.splits if_splits)
qed

lemma f64_MAX_gt: "500 < f64_MAX" "0 < f64_MAX"
  by (simp_all add: f64_MAX_def)

definition square :: "nat \<Rightarrow> matrix \<Rightarrow> bool" where
  "square n m \<longleftrightarrow> length m = n \<and> (\<forall>a < n. length (m ! a) = n)"

definition put_both :: "nat \<Rightarrow> nat \<Rightarrow> rat \<Rightarrow> matrix \<Rightarrow> matrix" where
  "put_both a b v m = (let m = m[a := (m ! a)[b := v]] in m[b := (m ! b)[a := v]])"

lemma set_both_square:
  assumes "square n m"
  shows "set_both a b v m = (if a < n \<and> b < n then Some (put_both a b v m) else None)"
  using assms by (auto simp: set_both_def set_entry_def put_both_def square_def Let_def nth_list_update)

lemma square_put: "square n m \<Longrightarrow> a < n \<Longrightarrow> b < n \<Longrightarrow> square n (put_both a b v m)"
  by (auto simp: square_def put_both_def Let_def nth_list_update)

lemma nth_put_both:
  assumes "square n m" "a < n" "b < n" "x < n" "y < n"
  shows "put_both a b v m ! x ! y = (if x = a \<and> y = b \<or> x = b \<and> y = a then v else m ! x ! y)"
  using assms by (auto simp: square_def put_both_def Let_def nth_list_update)

definition lat_ok :: "nat \<Rightarrow> matrix \<Rightarrow> bool" where
  \<comment> \<open>square, symmetric, entries zero or a finite latency\<close>
  "lat_ok n m \<longleftrightarrow> square n m \<and> (\<forall>a < n. \<forall>b < n. m ! a ! b = m ! b ! a \<and> 0 \<le> m ! a ! b \<and> m ! a ! b < f64_MAX)"

lemma lat_ok_put:
  assumes "lat_ok n m" "a < n" "b < n" "0 < v" "v < f64_MAX"
  shows "lat_ok n (put_both a b v m)"
  using assms by (auto simp: lat_ok_def square_put nth_put_both)

lemma put_both_id:
  assumes "lat_ok n m" "a < n" "b < n"
  shows "put_both a b (m ! a ! b) m = m"
proof -
  have "m ! a ! b = m ! b ! a" using assms by (simp add: lat_ok_def)
  then show ?thesis by (simp add: put_both_def Let_def list_update_id) (metis list_update_id)
qed

text \<open>One pair: both entries get one positive latency, or an index is out of range and the thread panics.\<close>

lemma calibrate_pair_ok:
  assumes "meas_ok meas" "lat_ok n m" "a < n" "b < n"
  obtains v where "0 < v" "v < f64_MAX" "calibrate_pair meas (a, b) m = Some (put_both a b v m)"
proof (cases "measure_until_stable (meas a b) 0")
  case (Some v)
  note v = measured_ok [OF assms(1) Some]
  have sq: "square n m" using assms(2) by (simp add: lat_ok_def)
  have "get_entry a b (put_both a b v m) = Some v"
    using square_put [OF sq assms(3,4), of v] nth_put_both [OF sq assms(3,4,3,4)] assms(3,4)
    by (simp add: get_entry_def square_def)
  then have "calibrate_pair meas (a, b) m = Some (put_both a b v m)"
    using Some v assms(3,4) by (simp add: calibrate_pair_def set_both_square [OF sq])
  with v that show thesis by blast
next
  case None
  have sq: "square n m" using assms(2) by (simp add: lat_ok_def)
  have g: "get_entry a b m = Some (m ! a ! b)" using sq assms(3,4) by (simp add: get_entry_def square_def)
  show thesis
  proof (cases "m ! a ! b = 0")
    case True
    then have "calibrate_pair meas (a, b) m = Some (put_both a b 500 m)"
      using None g assms(3,4) by (simp add: calibrate_pair_def set_both_square [OF sq])
    with f64_MAX_gt(1) that [of 500] show thesis by simp
  next
    case False
    then have "calibrate_pair meas (a, b) m = Some (put_both a b (m ! a ! b) m)"
      using None g by (simp add: calibrate_pair_def put_both_id [OF assms(2-4)])
    moreover have "0 < m ! a ! b" "m ! a ! b < f64_MAX"
      using False assms(2-4) by (auto simp: lat_ok_def less_le)
    ultimately show thesis using that by blast
  qed
qed

lemma calibrate_pair_panics:
  assumes "square n m" "\<not> (a < n \<and> b < n)"
  shows "calibrate_pair meas (a, b) m = None"
  using assms(2)
  by (auto simp: calibrate_pair_def set_both_square [OF assms(1)] get_entry_def assms(1) [unfolded square_def]
      split: option.split)


lemma calibrate_fold:
  assumes "meas_ok meas" "lat_ok n m" "\<forall>(a, b) \<in> set pairs. a < n \<and> b < n"
  shows "\<exists>m'. fold (\<lambda>p m. Option.bind m (calibrate_pair meas p)) pairs (Some m) = Some m' \<and> lat_ok n m'
    \<and> (\<forall>x < n. \<forall>y < n. 0 < m' ! x ! y \<longleftrightarrow> 0 < m ! x ! y \<or> (x, y) \<in> set pairs \<or> (y, x) \<in> set pairs)"
  using assms(2,3)
proof (induction pairs arbitrary: m)
  case (Cons p pairs)
  obtain a b where p: "p = (a, b)" by force
  then have ab: "a < n" "b < n" using Cons.prems(2) by auto
  obtain v where v: "0 < v" "v < f64_MAX" "calibrate_pair meas (a, b) m = Some (put_both a b v m)"
    using calibrate_pair_ok [OF assms(1) Cons.prems(1) ab] by blast
  have sq: "square n m" using Cons.prems(1) by (simp add: lat_ok_def)
  from Cons.IH [OF lat_ok_put [OF Cons.prems(1) ab v(1,2)]] Cons.prems(2)
  obtain m' where m': "fold (\<lambda>p m. Option.bind m (calibrate_pair meas p)) pairs (Some (put_both a b v m)) = Some m'"
      "lat_ok n m'"
      "\<forall>x < n. \<forall>y < n. 0 < m' ! x ! y \<longleftrightarrow>
         0 < put_both a b v m ! x ! y \<or> (x, y) \<in> set pairs \<or> (y, x) \<in> set pairs"
    by auto
  then show ?case
    using v by (intro exI [of _ m']) (auto simp: p nth_put_both [OF sq ab])
qed simp

lemma lat_ok_zero: "lat_ok n (replicate n (replicate n 0))"
  using f64_MAX_gt by (simp add: lat_ok_def square_def)

lemma calibrate_pairs_ok:
  assumes "meas_ok meas" "\<forall>(a, b) \<in> set pairs. a < n \<and> b < n"
  obtains m where "calibrate_pairs meas n pairs = Some m" "lat_ok n m"
    "\<And>x y. x < n \<Longrightarrow> y < n \<Longrightarrow> 0 < m ! x ! y \<longleftrightarrow> (x, y) \<in> set pairs \<or> (y, x) \<in> set pairs"
  using calibrate_fold [OF assms(1) lat_ok_zero assms(2)] unfolding calibrate_pairs_def by auto

lemma fold_bind_None: "fold (\<lambda>p m. Option.bind m (f p)) ps None = None"
  by (induction ps) simp_all

lemma calibrate_pairs_panics:
  assumes "meas_ok meas" "(a, b) \<in> set pairs" "\<not> (a < n \<and> b < n)"
  shows "calibrate_pairs meas n pairs = None"
proof -
  let ?f = "fold (\<lambda>p m. Option.bind m (calibrate_pair meas p))"
  have "?f pairs (Some m) = None" if "lat_ok n m" for m
    using assms(2) that
  proof (induction pairs arbitrary: m)
    case (Cons p pairs)
    obtain c d where p: "p = (c, d)" by force
    show ?case
    proof (cases "c < n \<and> d < n")
      case True
      then obtain v where "0 < v" "v < f64_MAX" "calibrate_pair meas (c, d) m = Some (put_both c d v m)"
        using calibrate_pair_ok [OF assms(1) Cons.prems(2)] by blast
      then show ?thesis
        using True Cons.prems assms(3) Cons.IH [OF _ lat_ok_put [OF Cons.prems(2)]] by (auto simp: p)
    next
      case False
      then have "calibrate_pair meas (c, d) m = None"
        using Cons.prems(2) by (intro calibrate_pair_panics) (auto simp: lat_ok_def)
      then show ?thesis by (simp add: p fold_bind_None)
    qed
  qed simp
  then show ?thesis unfolding calibrate_pairs_def using lat_ok_zero by blast
qed

section \<open>The cost table\<close>

definition latencies :: "matrix \<Rightarrow> topology_info \<Rightarrow> nat \<Rightarrow> nat \<Rightarrow> rat set" where
  \<comment> \<open>the measured latencies between two LLCs\<close>
  "latencies m topo la lb = {m ! ca ! cb |ca cb. ca < min (length m) 64 \<and> cb < min (length m) 64
     \<and> unat (ti_cpu_llc_id topo ! ca) = la \<and> unat (ti_cpu_llc_id topo ! cb) = lb \<and> 0 < m ! ca ! cb}"

lemma min_latency_Min:
  "finite (latencies m topo la lb)"
  "min_latency m topo la lb = Min (insert f64_MAX (latencies m topo la lb))"
proof -
  let ?n = "min (length m) 64"
  let ?xs = "concat (map (\<lambda>ca. filter (\<lambda>v. v > 0)
               (map (\<lambda>cb. m ! ca ! cb) (filter (\<lambda>cb. unat (ti_cpu_llc_id topo ! cb) = lb) [0..<?n])))
             (filter (\<lambda>ca. unat (ti_cpu_llc_id topo ! ca) = la) [0..<?n]))"
  have set: "set ?xs = latencies m topo la lb" by (auto simp: latencies_def)
  then show "finite (latencies m topo la lb)" by (metis List.finite_set)
  have "min_latency m topo la lb = Min (set (f64_MAX # ?xs))"
    unfolding min_latency_def Let_def by (rule Min.set_eq_fold [symmetric])
  then show "min_latency m topo la lb = Min (insert f64_MAX (latencies m topo la lb))"
    unfolding list.set(2) set .
qed

lemma min_latency_measured:
  assumes "\<forall>v \<in> latencies m topo la lb. v < f64_MAX"
  shows "min_latency m topo la lb \<noteq> f64_MAX \<longleftrightarrow> latencies m topo la lb \<noteq> {}"
proof (cases "latencies m topo la lb = {}")
  case False
  then obtain v where "v \<in> latencies m topo la lb" by blast
  then have "Min (insert f64_MAX (latencies m topo la lb)) \<le> v" "v < f64_MAX"
    using min_latency_Min(1) assms by (auto intro: Min_le)
  then show ?thesis using False by (simp add: min_latency_Min(2))
qed (simp add: min_latency_Min(2))

lemma latencies_sym:
  assumes "lat_ok n m"
  shows "latencies m topo la lb = latencies m topo lb la"
proof -
  have "v \<in> latencies m topo lb la" if "v \<in> latencies m topo la lb" for v la lb
  proof -
    from that obtain ca cb where c: "v = m ! ca ! cb" "ca < min (length m) 64" "cb < min (length m) 64"
      "unat (ti_cpu_llc_id topo ! ca) = la" "unat (ti_cpu_llc_id topo ! cb) = lb" "0 < m ! ca ! cb"
      unfolding latencies_def by blast
    then have "m ! ca ! cb = m ! cb ! ca"
      using assms by (auto simp: lat_ok_def square_def)
    with c show ?thesis unfolding latencies_def by auto
  qed
  then show ?thesis by blast
qed

lemma etd_cost_eq: "etd_cost v = (if v = f64_MAX then 0 else word_of_nat (max 1 (min 255 (nat \<lfloor>v / 4\<rfloor>))))"
  by (simp add: etd_cost_def min.commute max.commute min.left_commute)

lemma etd_cost_nonzero: "v \<noteq> f64_MAX \<Longrightarrow> 1 \<le> unat (etd_cost v)"
  by (simp add: etd_cost_eq unat_of_nat)

lemma table_fold:
  assumes "length t = 8" "\<forall>i < 8. length (t ! i) = 8" "\<forall>(i, j) \<in> set ps. i < 8 \<and> j < 8" "a < 8" "b < 8"
  shows "fold (\<lambda>(llc_a, llc_b) t. if llc_a = llc_b then t else t[llc_a := (t ! llc_a)[llc_b := c llc_a llc_b]]) ps t ! a ! b
         = (if (a, b) \<in> set ps \<and> a \<noteq> b then c a b else t ! a ! b)"
  using assms
proof (induction ps arbitrary: t)
  case (Cons p ps)
  obtain i j where p: "p = (i, j)" by force
  then have ij: "i < 8" "j < 8" using Cons.prems(3) by auto
  define t' where "t' = (if i = j then t else t[i := (t ! i)[j := c i j]])"
  let ?F = "\<lambda>(i, j) t. if i = j then t else t[i := (t ! i)[j := c i j]]"
  have "length t' = 8" "\<forall>k < 8. length (t' ! k) = 8"
    using Cons.prems(1,2) ij by (auto simp: t'_def nth_list_update)
  then have IH: "fold ?F ps t' ! a ! b = (if (a, b) \<in> set ps \<and> a \<noteq> b then c a b else t' ! a ! b)"
    using Cons.prems(3-5) by (intro Cons.IH) simp_all
  have "t' ! a ! b = (if (a, b) = (i, j) \<and> a \<noteq> b then c a b else t ! a ! b)"
    using Cons.prems(1,2,4,5) ij by (auto simp: t'_def nth_list_update)
  moreover have "fold ?F (p # ps) t = fold ?F ps t'" by (simp add: p t'_def)
  ultimately show ?case using IH by (simp only: p list.set insert_iff split: if_split) blast
qed simp

section \<open>Calibration of a detected topology\<close>

definition llc_cpus :: "scx_topology \<Rightarrow> nat \<Rightarrow> nat set" where
  \<comment> \<open>the CPUs of an LLC that the tables have room for\<close>
  "llc_cpus topo l = {c \<in> set (all_llcs topo ! l). c < 64}"

definition llcs_disjoint :: "scx_topology \<Rightarrow> bool" where
  "llcs_disjoint topo \<longleftrightarrow> (\<forall>i < length (all_llcs topo). \<forall>j < i. set (all_llcs topo ! i) \<inter> set (all_llcs topo ! j) = {})"

lemma members_detect:
  "llcs_populated topo \<Longrightarrow> llc_members (detect topo)
     = map (\<lambda>l. bits_asc (cpu_mask (all_llcs topo ! l))) [0..<min 8 (length (all_llcs topo))]"
  by (simp add: llc_members_bits populated_masks)

lemma set_members:
  assumes "llcs_populated topo" "l < min 8 (length (all_llcs topo))"
  shows "set (llc_members (detect topo) ! l) = llc_cpus topo l"
  using assms by (auto simp: members_detect set_bits_asc bit_cpu_mask llc_cpus_def)

lemma llc_id_detect:
  assumes "llcs_disjoint topo" "l < min 8 (length (all_llcs topo))" "c \<in> llc_cpus topo l"
  shows "unat (ti_cpu_llc_id (detect topo) ! c) = l"
proof -
  have c: "c < 64" "l < length (all_llcs topo)" "l < 8" "c \<in> set (all_llcs topo ! l)"
    using assms(2,3) by (auto simp: llc_cpus_def)
  then obtain i where "i < length (all_llcs topo)" "i < 8" "c \<in> set (all_llcs topo ! i)"
      and id: "ti_cpu_llc_id (detect topo) ! c = word_of_nat i"
    using detect_llc_tables(5) [OF c(1), of topo] by blast
  then have "i = l"
    using assms(1) c by (cases i l rule: linorder_cases) (auto simp: llcs_disjoint_def)
  then show ?thesis using c(3) id by (simp add: unat_of_nat)
qed

text \<open>
  What each pair of LLCs contributes to the sampled pairs, and that a CPU of each LLC is below a
  bound when the ids have no gap.
\<close>

definition ids_dense :: "scx_topology \<Rightarrow> bool" where
  \<comment> \<open>CPU ids have no gap: every id is below the number of CPUs\<close>
  "ids_dense topo \<longleftrightarrow> (\<forall>llc \<in> set (all_llcs topo). \<forall>c \<in> set llc. c < all_cpus_len topo)"

lemma select_pairs_detect:
  assumes "llcs_populated topo" "1 < length (all_llcs topo)"
  shows "set (select_etd_pairs (detect topo)) =
    (\<Union>a \<in> {0..<min 8 (length (all_llcs topo))}. \<Union>b \<in> {a + 1..<min 8 (length (all_llcs topo))}.
       set (llc_pair_samples (llc_members (detect topo) ! a) (llc_members (detect topo) ! b)))"
  using set_select [of "detect topo"] assms by (simp add: members_detect)

lemma select_pair_cpus:
  assumes "llcs_populated topo" "(x, y) \<in> set (select_etd_pairs (detect topo))"
  obtains a b where "a < b" "b < min 8 (length (all_llcs topo))" "x \<in> llc_cpus topo a" "y \<in> llc_cpus topo b"
proof -
  have "1 < length (all_llcs topo)"
    using assms by (cases "1 < length (all_llcs topo)") (auto simp: select_etd_pairs_def members_detect)
  with assms obtain a b where "a < b" "b < min 8 (length (all_llcs topo))"
      "(x, y) \<in> set (llc_pair_samples (llc_members (detect topo) ! a) (llc_members (detect topo) ! b))"
    by (auto simp: select_pairs_detect dest!: Suc_le_lessD)
  then show thesis
    using that [of a b] set_pair_samples set_members [OF assms(1)] by (metis (no_types, lifting) SigmaD1 SigmaD2 order.strict_trans subsetD)
qed

lemma select_contains:
  assumes "llcs_populated topo" "a < b" "b < min 8 (length (all_llcs topo))"
  shows "set (llc_pair_samples (llc_members (detect topo) ! a) (llc_members (detect topo) ! b))
    \<subseteq> set (select_etd_pairs (detect topo))"
  using assms by (subst select_pairs_detect; force)

lemma select_covers:
  assumes "llcs_populated topo" "a < b" "b < min 8 (length (all_llcs topo))"
  obtains x y where "(x, y) \<in> set (select_etd_pairs (detect topo))" "x \<in> llc_cpus topo a" "y \<in> llc_cpus topo b"
proof -
  let ?s = "llc_pair_samples (llc_members (detect topo) ! a) (llc_members (detect topo) ! b)"
  have len: "length (llc_members (detect topo)) = min 8 (length (all_llcs topo))"
    by (simp add: members_detect [OF assms(1)])
  have "llc_members (detect topo) ! a \<noteq> []" "llc_members (detect topo) ! b \<noteq> []"
    using llc_members_nth(3) [of a "detect topo"] llc_members_nth(3) [of b "detect topo"] assms(2,3) len by simp_all
  then have "0 < length ?s" unfolding length_pair_samples by simp
  then obtain x y where xy: "(x, y) \<in> set ?s" by (cases ?s) auto
  moreover have "set ?s \<subseteq> set (select_etd_pairs (detect topo))"
    using assms by (rule select_contains)
  ultimately show thesis
    using that [of x y] set_pair_samples set_members [OF assms(1)] assms(2,3)
    by (metis (no_types, lifting) SigmaD1 SigmaD2 order.strict_trans subsetD)
qed


lemma dense_bound: "ids_dense topo \<Longrightarrow> l < length (all_llcs topo) \<Longrightarrow> c \<in> llc_cpus topo l \<Longrightarrow> c < all_cpus_len topo"
  by (auto simp: ids_dense_def llc_cpus_def)

lemma select_in_range:
  assumes "llcs_populated topo" "ids_dense topo" "(x, y) \<in> set (select_etd_pairs (detect topo))"
  shows "x < all_cpus_len topo" "y < all_cpus_len topo"
  using select_pair_cpus [OF assms(1,3)] dense_bound [OF assms(2)]
  by (metis min_less_iff_conj order.strict_trans)+

lemma full_pairs: "set (concat (map (\<lambda>a. map (\<lambda>b. (a, b)) [a + 1..<n]) [0..<n])) = {(a, b). a < b \<and> b < n}"
  by (auto simp: image_iff)

text \<open>Whichever pairs were measured: the costs between two LLCs joined by one of them are set, and equal.\<close>

lemma costs_written:
  assumes "lat_ok n m" "sched_wf s"
    and "x < n" "y < n" "x \<in> llc_cpus topo a" "y \<in> llc_cpus topo b" "0 < m ! x ! y"
    and "llcs_populated topo" "llcs_disjoint topo" "a \<noteq> b" "a < min 8 (length (all_llcs topo))" "b < min 8 (length (all_llcs topo))"
  shows "snd (try_write_etd_costs (Some m) (detect topo) s)"
    and "llc_etd_cost (fst (try_write_etd_costs (Some m) (detect topo) s)) ! a ! b = etd_cost (min_latency m (detect topo) a b)"
    and "1 \<le> unat (etd_cost (min_latency m (detect topo) a b))"
proof -
  let ?N = "min 8 (length (all_llcs topo))"
  have len: "length m = n" "length (m ! x) = n" using assms(1,3) by (auto simp: lat_ok_def square_def)
  have "m ! x ! y \<in> set (concat m)"
    using len assms(3,4) by (auto intro!: bexI [of _ "m ! x"] nth_mem)
  then have ex: "\<exists>v \<in> set (concat m). 0 < v" using assms(7) by blast
  have wf: "length (llc_etd_cost s) = 8" "\<forall>i < 8. length (llc_etd_cost s ! i) = 8"
    using assms(2) by (auto simp: sched_wf_def)
  have cnt: "min (length (filter (\<lambda>m. m \<noteq> 0) (ti_llc_cpu_mask (detect topo)))) 8 = ?N"
    by (simp add: populated_masks [OF assms(8)])
  show "snd (try_write_etd_costs (Some m) (detect topo) s)"
    using ex by (simp only: try_write_etd_costs_def option.case not_not if_not_P if_False Let_def snd_conv if_True HOL.simp_thms)
  have "llc_etd_cost (fst (try_write_etd_costs (Some m) (detect topo) s))
      = fold (\<lambda>(llc_a, llc_b) t. if llc_a = llc_b then t
               else t[llc_a := (t ! llc_a)[llc_b := etd_cost (min_latency m (detect topo) llc_a llc_b)]])
          (List.product [0..<?N] [0..<?N]) (llc_etd_cost s)"
    using ex by (simp add: try_write_etd_costs_def Let_def cnt)
  then show "llc_etd_cost (fst (try_write_etd_costs (Some m) (detect topo) s)) ! a ! b = etd_cost (min_latency m (detect topo) a b)"
    using assms(10-12) wf by (simp add: table_fold)
  have "m ! x ! y \<in> latencies m (detect topo) a b"
    unfolding latencies_def
    using assms(3-7) llc_id_detect [OF assms(9)] assms(11,12) len(1) by (auto simp: llc_cpus_def)
  moreover have "\<forall>v \<in> latencies m (detect topo) a b. v < f64_MAX"
    using assms(1) len(1) by (auto simp: latencies_def lat_ok_def)
  ultimately show "1 \<le> unat (etd_cost (min_latency m (detect topo) a b))"
    using min_latency_measured by (intro etd_cost_nonzero) blast
qed


lemma llc_cpus_disjoint:
  assumes "llcs_disjoint topo" "a \<noteq> b" "a < length (all_llcs topo)" "b < length (all_llcs topo)"
  shows "llc_cpus topo a \<inter> llc_cpus topo b = {}"
proof -
  have "set (all_llcs topo ! a) \<inter> set (all_llcs topo ! b) = {}"
    using assms by (cases a b rule: linorder_cases) (auto simp: llcs_disjoint_def)
  then show ?thesis by (auto simp: llc_cpus_def)
qed

lemma card_llc_cpus:
  assumes "llcs_populated topo" "l < min 8 (length (all_llcs topo))"
  shows "card (llc_cpus topo l) = length (llc_members (detect topo) ! l)"
  unfolding set_members [OF assms, symmetric]
  using assms by (intro distinct_card llc_members_nth(2)) (simp add: members_detect)

lemma distinct_concat_map:
  assumes "distinct ks" "\<And>k. k \<in> set ks \<Longrightarrow> distinct (f k)"
    and "\<And>j k. j \<in> set ks \<Longrightarrow> k \<in> set ks \<Longrightarrow> j \<noteq> k \<Longrightarrow> set (f j) \<inter> set (f k) = {}"
  shows "distinct (concat (map f ks))"
  using assms by (induction ks) fastforce+

lemma samples_between:
  assumes "llcs_populated topo" "a < min 8 (length (all_llcs topo))" "b < min 8 (length (all_llcs topo))"
  shows "set (llc_pair_samples (llc_members (detect topo) ! a) (llc_members (detect topo) ! b))
    \<subseteq> llc_cpus topo a \<times> llc_cpus topo b"
  using set_pair_samples [of "llc_members (detect topo) ! a" "llc_members (detect topo) ! b"]
  by (simp only: set_members [OF assms(1,2)] set_members [OF assms(1,3)])

lemma samples_disjoint:
  assumes "llcs_populated topo" "llcs_disjoint topo" "(a, b) \<noteq> (c, d)"
    and "a < min 8 (length (all_llcs topo))" "b < min 8 (length (all_llcs topo))"
    and "c < min 8 (length (all_llcs topo))" "d < min 8 (length (all_llcs topo))"
  shows "(llc_cpus topo a \<times> llc_cpus topo b) \<inter> (llc_cpus topo c \<times> llc_cpus topo d) = {}"
  using assms(3-7) llc_cpus_disjoint [OF assms(2), of a c] llc_cpus_disjoint [OF assms(2), of b d] by auto

lemma distinct_select:
  assumes "llcs_populated topo" "llcs_disjoint topo"
  shows "distinct (select_etd_pairs (detect topo))"
proof -
  let ?N = "min 8 (length (all_llcs topo))"
  let ?s = "\<lambda>a b. llc_pair_samples (llc_members (detect topo) ! a) (llc_members (detect topo) ! b)"
  have len: "length (llc_members (detect topo)) = ?N" by (simp add: members_detect [OF assms(1)])
  have dis: "set (?s a b) \<inter> set (?s c d) = {}" if "(a, b) \<noteq> (c, d)" "a < ?N" "b < ?N" "c < ?N" "d < ?N" for a b c d
    using samples_disjoint [OF assms that] samples_between [OF assms(1) that(2,3)] samples_between [OF assms(1) that(4,5)]
    by blast
  have "distinct (concat (map (\<lambda>a. concat (map (?s a) [a + 1..<?N])) [0..<?N]))"
  proof (intro distinct_concat_map)
    show "distinct (?s a b)" if "a \<in> set [0..<?N]" for a b
      using that llc_members_nth(2) [of a "detect topo"] len by (intro distinct_pair_samples) simp
    show "set (?s a b) \<inter> set (?s a c) = {}" if "a \<in> set [0..<?N]" "b \<in> set [a + 1..<?N]" "c \<in> set [a + 1..<?N]" "b \<noteq> c" for a b c
      using that by (intro dis) simp_all
    show "set (concat (map (?s a) [a + 1..<?N])) \<inter> set (concat (map (?s c) [c + 1..<?N])) = {}"
      if "a \<in> set [0..<?N]" "c \<in> set [0..<?N]" "a \<noteq> c" for a c
      using that dis [of a _ c] by fastforce
  qed simp_all
  then show ?thesis by (simp add: select_etd_pairs_def Let_def len)
qed

lemma card_between:
  assumes "llcs_populated topo" "llcs_disjoint topo" "a < b" "b < min 8 (length (all_llcs topo))"
  shows "card {p \<in> set (select_etd_pairs (detect topo)). fst p \<in> llc_cpus topo a \<and> snd p \<in> llc_cpus topo b}
    = min 3 (min (card (llc_cpus topo a)) (card (llc_cpus topo b)))"
proof -
  let ?N = "min 8 (length (all_llcs topo))"
  let ?s = "\<lambda>a b. llc_pair_samples (llc_members (detect topo) ! a) (llc_members (detect topo) ! b)"
  have a: "a < ?N" using assms(3,4) by linarith
  have one: "1 < length (all_llcs topo)" using assms(3,4) by linarith
  have "{p \<in> set (select_etd_pairs (detect topo)). fst p \<in> llc_cpus topo a \<and> snd p \<in> llc_cpus topo b} = set (?s a b)"
  proof
    show "set (?s a b) \<subseteq> {p \<in> set (select_etd_pairs (detect topo)). fst p \<in> llc_cpus topo a \<and> snd p \<in> llc_cpus topo b}"
      using samples_between [OF assms(1) a assms(4)] select_contains [OF assms(1,3,4)] by force
    show "{p \<in> set (select_etd_pairs (detect topo)). fst p \<in> llc_cpus topo a \<and> snd p \<in> llc_cpus topo b} \<subseteq> set (?s a b)"
    proof
      fix p assume "p \<in> {p \<in> set (select_etd_pairs (detect topo)). fst p \<in> llc_cpus topo a \<and> snd p \<in> llc_cpus topo b}"
      then obtain c d where p: "p \<in> llc_cpus topo a \<times> llc_cpus topo b" "p \<in> set (?s c d)" "c < d" "d < ?N"
        unfolding select_pairs_detect [OF assms(1) one] by (auto simp: mem_Times_iff dest!: Suc_le_lessD)
      then have "p \<in> llc_cpus topo c \<times> llc_cpus topo d"
        using samples_between [OF assms(1), of c d] by auto
      moreover have c: "c < ?N" using p(3,4) by (rule order.strict_trans)
      ultimately have "(a, b) = (c, d)"
        using samples_disjoint [OF assms(1,2) _ a assms(4) c p(4)] p(1) by blast
      with p show "p \<in> set (?s a b)" by simp
    qed
  qed
  moreover have "distinct (?s a b)"
    using a by (intro distinct_pair_samples llc_members_nth(2)) (simp add: members_detect [OF assms(1)])
  ultimately show ?thesis
    using distinct_card [of "?s a b"] length_pair_samples card_llc_cpus [OF assms(1) a] card_llc_cpus [OF assms(1,4)]
    by (simp add: min.assoc)
qed

text \<open>Either sweep measures a pair between every two LLCs.\<close>

lemma calibration_joins:
  assumes "llcs_populated topo" "llcs_disjoint topo" "ids_dense topo" "meas_ok meas"
    and "calibrated = calibrate_pairs meas n (select_etd_pairs (detect topo)) \<or> calibrated = calibrate_full_matrix meas n"
    and "n = all_cpus_len topo"
  obtains m where "calibrated = Some m" "lat_ok n m"
    "\<And>a b. a < b \<Longrightarrow> b < min 8 (length (all_llcs topo)) \<Longrightarrow>
       \<exists>x y. x < n \<and> y < n \<and> x \<in> llc_cpus topo a \<and> y \<in> llc_cpus topo b \<and> 0 < m ! x ! y"
proof (cases "calibrated = calibrate_full_matrix meas n")
  case True
  let ?ps = "concat (map (\<lambda>a. map (\<lambda>b. (a, b)) [a + 1..<n]) [0..<n])"
  have "\<forall>(a, b) \<in> set ?ps. a < n \<and> b < n" unfolding full_pairs by auto
  from calibrate_pairs_ok [OF assms(4) this]
  obtain m where m: "calibrated = Some m" "lat_ok n m"
      "\<And>x y. x < n \<Longrightarrow> y < n \<Longrightarrow> 0 < m ! x ! y \<longleftrightarrow> x < y \<or> y < x"
    unfolding full_pairs True calibrate_full_matrix_def by auto
  have "\<exists>x y. x < n \<and> y < n \<and> x \<in> llc_cpus topo a \<and> y \<in> llc_cpus topo b \<and> 0 < m ! x ! y"
    if "a < b" "b < min 8 (length (all_llcs topo))" for a b
  proof -
    note ab = that
    obtain x y where xy: "x \<in> llc_cpus topo a" "y \<in> llc_cpus topo b"
      using select_covers [OF assms(1) ab] by blast
    then have "x \<noteq> y" using llc_cpus_disjoint [OF assms(2), of a b] ab by auto
    moreover have "x < n" "y < n"
      using xy ab dense_bound [OF assms(3)] unfolding assms(6) by (meson min_less_iff_conj order.strict_trans)+
    ultimately show ?thesis using xy m(3) [of x y] by (metis linorder_neqE_nat)
  qed
  with m show thesis using that by blast
next
  case False
  have "\<forall>(x, y) \<in> set (select_etd_pairs (detect topo)). x < n \<and> y < n"
    using select_in_range [OF assms(1,3)] assms(6) by auto
  from calibrate_pairs_ok [OF assms(4) this]
  obtain m where m: "calibrated = Some m" "lat_ok n m"
      "\<And>x y. x < n \<Longrightarrow> y < n \<Longrightarrow> 0 < m ! x ! y \<longleftrightarrow>
         (x, y) \<in> set (select_etd_pairs (detect topo)) \<or> (y, x) \<in> set (select_etd_pairs (detect topo))"
    using False assms(5) by metis
  have "\<exists>x y. x < n \<and> y < n \<and> x \<in> llc_cpus topo a \<and> y \<in> llc_cpus topo b \<and> 0 < m ! x ! y"
    if "a < b" "b < min 8 (length (all_llcs topo))" for a b
  proof -
    note ab = that
    obtain x y where xy: "(x, y) \<in> set (select_etd_pairs (detect topo))" "x \<in> llc_cpus topo a" "y \<in> llc_cpus topo b"
      using select_covers [OF assms(1) ab] by blast
    then have "x < n" "y < n" using select_in_range [OF assms(1,3)] assms(6) by simp_all
    then show ?thesis using xy m(3) [of x y] by blast
  qed
  with m show thesis using that by blast
qed

lemma calibration_writes:
  assumes "llcs_populated topo" "llcs_disjoint topo" "ids_dense topo" "meas_ok meas"
    and "calibrated = calibrate_pairs meas (ti_nr_cpus (detect topo)) (select_etd_pairs (detect topo))
       \<or> calibrated = calibrate_full_matrix meas (ti_nr_cpus (detect topo))"
  obtains m where "calibrated = Some m" "lat_ok (ti_nr_cpus (detect topo)) m"
    "\<And>s a b. sched_wf s \<Longrightarrow> a < min 8 (length (all_llcs topo)) \<Longrightarrow> b < min 8 (length (all_llcs topo)) \<Longrightarrow> a \<noteq> b \<Longrightarrow>
       snd (try_write_etd_costs (Some m) (detect topo) s)
       \<and> llc_etd_cost (fst (try_write_etd_costs (Some m) (detect topo) s)) ! a ! b = etd_cost (min_latency m (detect topo) a b)
       \<and> 1 \<le> unat (etd_cost (min_latency m (detect topo) a b))"
proof -
  let ?N = "min 8 (length (all_llcs topo))" and ?n = "all_cpus_len topo"
  have n: "ti_nr_cpus (detect topo) = ?n" by (rule detect_llc_tables(3))
  obtain m where m: "calibrated = Some m" "lat_ok ?n m"
      and pos: "\<And>a b. a < b \<Longrightarrow> b < ?N \<Longrightarrow> \<exists>x y. x < ?n \<and> y < ?n \<and> x \<in> llc_cpus topo a \<and> y \<in> llc_cpus topo b \<and> 0 < m ! x ! y"
    using calibration_joins [OF assms(1-4) assms(5) [unfolded n] refl] by metis
  have sym: "m ! x ! y = m ! y ! x" if "x < ?n" "y < ?n" for x y
    using m(2) that by (simp add: lat_ok_def)
  have joined: "\<exists>x y. x < ?n \<and> y < ?n \<and> x \<in> llc_cpus topo a \<and> y \<in> llc_cpus topo b \<and> 0 < m ! x ! y"
    if "a < ?N" "b < ?N" "a \<noteq> b" for a b
  proof (cases "a < b")
    case True
    then show ?thesis using pos that(2) by blast
  next
    case False
    then have "b < a" using that(3) by simp
    from pos [OF this that(1)] show ?thesis using sym by metis
  qed
  show thesis
  proof (rule that [OF m(1) m(2) [folded n]])
    fix s :: sched and a b assume ab: "sched_wf s" "a < ?N" "b < ?N" "a \<noteq> b"
    obtain x y where "x < ?n" "y < ?n" "x \<in> llc_cpus topo a" "y \<in> llc_cpus topo b" "0 < m ! x ! y"
      using joined [OF ab(2-4)] by blast
    note written = costs_written [OF m(2) ab(1) this assms(1,2) ab(4,2,3)]
    then show "snd (try_write_etd_costs (Some m) (detect topo) s)
       \<and> llc_etd_cost (fst (try_write_etd_costs (Some m) (detect topo) s)) ! a ! b = etd_cost (min_latency m (detect topo) a b)
       \<and> 1 \<le> unat (etd_cost (min_latency m (detect topo) a b))" by (intro conjI)
  qed
qed

lemma sorted_le_last: "sorted xs \<Longrightarrow> x \<in> set xs \<Longrightarrow> x \<le> last xs"
  by (induction xs) (auto split: if_splits)

section \<open>Properties\<close>

definition two_llcs :: scx_topology where
  "two_llcs = \<lparr>all_cpus_len = 8, all_llcs = [[0, 1, 2, 3], [4, 5, 6, 7]], all_cores = [], smt_on = False, sibling_cpus = []\<rparr>"

definition two_llcs_gap :: scx_topology where
  \<comment> \<open>CPUs 2 and 3 are offline\<close>
  "two_llcs_gap = \<lparr>all_cpus_len = 4, all_llcs = [[0, 1], [4, 5]], all_cores = [], smt_on = False, sibling_cpus = []\<rparr>"

lemma two_llcs_ok:
  "llcs_populated two_llcs" "llcs_disjoint two_llcs" "ids_dense two_llcs" "llcs_populated two_llcs_gap"
  by (auto simp: llcs_populated_def llcs_disjoint_def ids_dense_def two_llcs_def two_llcs_gap_def less_Suc_eq)

lemma example_meas_ok: "meas_ok (\<lambda>a b k. if a = 0 then None else Some [100])"
  using f64_MAX_gt by (auto simp: meas_ok_def)

text \<open>
  The sampled pairs. For disjoint LLC masks the selection is empty exactly when at most one LLC
  has CPUs; otherwise it takes from every two LLCs as many pairs as the smaller one has CPUs, at most
  three, each with one CPU of either LLC, and no pair twice.
\<close>

theorem etd_pairs_selected:
  assumes "llcs_populated topo" "llcs_disjoint topo"
  shows "(select_etd_pairs (detect topo) = [] \<longleftrightarrow> length (all_llcs topo) \<le> 1)
    \<and> distinct (select_etd_pairs (detect topo))
    \<and> (\<forall>(x, y) \<in> set (select_etd_pairs (detect topo)).
         \<exists>b < min 8 (length (all_llcs topo)). \<exists>a < b. x \<in> llc_cpus topo a \<and> y \<in> llc_cpus topo b)
    \<and> (\<forall>b < min 8 (length (all_llcs topo)). \<forall>a < b.
         card {p \<in> set (select_etd_pairs (detect topo)). fst p \<in> llc_cpus topo a \<and> snd p \<in> llc_cpus topo b}
         = min 3 (min (card (llc_cpus topo a)) (card (llc_cpus topo b))))"
proof (intro conjI)
  show "distinct (select_etd_pairs (detect topo))" by (rule distinct_select [OF assms])
  have "select_etd_pairs (detect topo) \<noteq> []" if "1 < length (all_llcs topo)"
    using select_covers [OF assms(1), of 0 1] that by force
  then show "select_etd_pairs (detect topo) = [] \<longleftrightarrow> length (all_llcs topo) \<le> 1"
    by (cases "1 < length (all_llcs topo)")
       (simp_all add: select_etd_pairs_def members_detect [OF assms(1)] Let_def)
  show "\<forall>(x, y) \<in> set (select_etd_pairs (detect topo)).
         \<exists>b < min 8 (length (all_llcs topo)). \<exists>a < b. x \<in> llc_cpus topo a \<and> y \<in> llc_cpus topo b"
    using select_pair_cpus [OF assms(1)] by blast
  show "\<forall>b < min 8 (length (all_llcs topo)). \<forall>a < b.
         card {p \<in> set (select_etd_pairs (detect topo)). fst p \<in> llc_cpus topo a \<and> snd p \<in> llc_cpus topo b}
         = min 3 (min (card (llc_cpus topo a)) (card (llc_cpus topo b)))"
    using card_between [OF assms] by blast
qed

theorem etd_pairs_selected_witness:
  "select_etd_pairs (detect two_llcs) \<noteq> [] \<and> distinct (select_etd_pairs (detect two_llcs))"
  using etd_pairs_selected [OF two_llcs_ok(1,2)] by (simp add: two_llcs_def)

text \<open>
  C27. Calibration completes the table. When the CPU ids have no gap, then for every outcome of the measurements, failed
  pinnings included, calibrating the sampled pairs or all pairs succeeds and writing the table
  gives every two different LLCs the same cost in both directions, and never the
  value 0 that marks an uncalibrated pair.
\<close>

theorem etd_costs_complete:
  assumes "llcs_populated topo" "llcs_disjoint topo" "ids_dense topo" "meas_ok meas" "sched_wf s"
    and "1 < length (all_llcs topo)"
    and "calibrated = calibrate_pairs meas (ti_nr_cpus (detect topo)) (select_etd_pairs (detect topo))
       \<or> calibrated = calibrate_full_matrix meas (ti_nr_cpus (detect topo))"
  shows "\<exists>m s'. calibrated = Some m \<and> try_write_etd_costs (Some m) (detect topo) s = (s', True)
    \<and> (\<forall>a < min 8 (length (all_llcs topo)). \<forall>b < min 8 (length (all_llcs topo)). a \<noteq> b \<longrightarrow>
         llc_etd_cost s' ! a ! b \<noteq> 0 \<and> llc_etd_cost s' ! a ! b = llc_etd_cost s' ! b ! a)"
proof -
  obtain m where m: "calibrated = Some m" "lat_ok (ti_nr_cpus (detect topo)) m"
    and w: "\<And>s a b. sched_wf s \<Longrightarrow> a < min 8 (length (all_llcs topo)) \<Longrightarrow> b < min 8 (length (all_llcs topo)) \<Longrightarrow> a \<noteq> b \<Longrightarrow>
        snd (try_write_etd_costs (Some m) (detect topo) s)
        \<and> llc_etd_cost (fst (try_write_etd_costs (Some m) (detect topo) s)) ! a ! b = etd_cost (min_latency m (detect topo) a b)
        \<and> 1 \<le> unat (etd_cost (min_latency m (detect topo) a b))"
    using calibration_writes [OF assms(1-4,7)] by blast
  define s' where "s' = fst (try_write_etd_costs (Some m) (detect topo) s)"
  have "0 < min 8 (length (all_llcs topo))" "1 < min 8 (length (all_llcs topo))" using assms(6) by linarith+
  from w [OF assms(5) this] have "snd (try_write_etd_costs (Some m) (detect topo) s)" by simp
  then have "try_write_etd_costs (Some m) (detect topo) s = (s', True)" by (simp add: s'_def prod_eq_iff)
  moreover have "min_latency m (detect topo) a b = min_latency m (detect topo) b a" for a b
    by (simp only: min_latency_Min(2) latencies_sym [OF m(2), of _ a b])
  then have "llc_etd_cost s' ! a ! b \<noteq> 0 \<and> llc_etd_cost s' ! a ! b = llc_etd_cost s' ! b ! a"
    if "a < min 8 (length (all_llcs topo))" "b < min 8 (length (all_llcs topo))" "a \<noteq> b" for a b
    using w [OF assms(5) that] w [OF assms(5), of b a] that by (auto simp: s'_def)
  ultimately show ?thesis using m(1) by blast
qed

theorem etd_costs_complete_witness:
  "\<exists>m s'. calibrate_pairs (\<lambda>a b k. if a = 0 then None else Some [100]) 8 (select_etd_pairs (detect two_llcs)) = Some m
    \<and> try_write_etd_costs (Some m) (detect two_llcs) bss_zero = (s', True) \<and> llc_etd_cost s' ! 0 ! 1 \<noteq> 0"
proof -
  have wf: "sched_wf bss_zero" by (simp add: sched_wf_def bss_zero_def stats_zero_def)
  have two: "length (all_llcs two_llcs) = 2" "ti_nr_cpus (detect two_llcs) = 8"
    by (simp_all add: detect_llc_tables(3) two_llcs_def)
  from etd_costs_complete [OF two_llcs_ok(1-3) example_meas_ok wf _ disjI1 [OF refl]]
  obtain m s' where m: "calibrate_pairs (\<lambda>a b k. if a = 0 then None else Some [100]) 8 (select_etd_pairs (detect two_llcs)) = Some m"
      "try_write_etd_costs (Some m) (detect two_llcs) bss_zero = (s', True)"
      "\<forall>a < min 8 2. \<forall>b < min 8 2. a \<noteq> b \<longrightarrow> llc_etd_cost s' ! a ! b \<noteq> 0 \<and> llc_etd_cost s' ! a ! b = llc_etd_cost s' ! b ! a"
    unfolding two by auto
  moreover have "llc_etd_cost s' ! 0 ! 1 \<noteq> 0"
    using m(3) [rule_format, of 0 1] by auto
  ultimately show ?thesis by blast
qed

lemma gap_sampled:
  assumes "llcs_populated topo" "a < min 8 (length (all_llcs topo))" "b < min 8 (length (all_llcs topo))" "a \<noteq> b"
    and "2 \<le> card (llc_cpus topo a)" "2 \<le> card (llc_cpus topo b)"
    and "c \<in> llc_cpus topo a" "all_cpus_len topo \<le> c"
  shows "\<exists>(x, y) \<in> set (select_etd_pairs (detect topo)). all_cpus_len topo \<le> x \<or> all_cpus_len topo \<le> y"
proof -
  let ?m = "llc_members (detect topo)" and ?n = "all_cpus_len topo"
  have len: "2 \<le> length (?m ! a)" "2 \<le> length (?m ! b)"
    using assms(5,6) card_llc_cpus [OF assms(1,2)] card_llc_cpus [OF assms(1,3)] by simp_all
  have "sorted (?m ! a)" using assms(1,2) by (intro llc_members_nth) (simp add: members_detect)
  moreover have "c \<in> set (?m ! a)" using assms(7) set_members [OF assms(1,2)] by simp
  ultimately have "c \<le> last (?m ! a)" by (rule sorted_le_last)
  then have "?n \<le> last (?m ! a)" using assms(8) by simp
  moreover have "(last (?m ! a), last (?m ! b)) \<in> set (select_etd_pairs (detect topo))
      \<or> (last (?m ! b), last (?m ! a)) \<in> set (select_etd_pairs (detect topo))"
    using assms(4) last_pair_sampled [OF len] last_pair_sampled [OF len(2,1)]
      select_contains [OF assms(1) _ assms(3), of a] select_contains [OF assms(1) _ assms(2), of b]
    by (cases a b rule: linorder_cases) auto
  ultimately show ?thesis by blast
qed

lemma gap_panics_iff:
  assumes "meas_ok meas"
  shows "calibrate_pairs meas n pairs = None \<longleftrightarrow> (\<exists>(x, y) \<in> set pairs. n \<le> x \<or> n \<le> y)"
proof (cases "\<forall>(x, y) \<in> set pairs. x < n \<and> y < n")
  case True
  obtain m where "calibrate_pairs meas n pairs = Some m" by (rule calibrate_pairs_ok [OF assms True])
  then show ?thesis using True by fastforce
next
  case False
  then obtain x y where xy: "(x, y) \<in> set pairs" "\<not> (x < n \<and> y < n)" by blast
  then have "\<exists>(x, y) \<in> set pairs. n \<le> x \<or> n \<le> y" by (intro bexI [of _ "(x, y)"]) auto
  then show ?thesis using calibrate_pairs_panics [OF assms xy] by simp
qed

text \<open>
  C38. When the calibration panics. The matrix has one row per online CPU, but the sampled pairs name CPUs by
  id. Whatever the measurements are, the default, sampled calibration panics (before it publishes anything)
  exactly when a sampled CPU id is not below the number of online CPUs. This is so whenever an LLC with two
  CPUs has such a CPU, as after taking siblings offline, and another LLC has two CPUs as well. The full
  sweep measures the ids below the number of online CPUs only and never panics.
\<close>

theorem etd_gap_panics:
  assumes "llcs_populated topo" "meas_ok meas" and n: "n = ti_nr_cpus (detect topo)"
  shows "(calibrate_pairs meas n (select_etd_pairs (detect topo)) = None
      \<longleftrightarrow> (\<exists>(x, y) \<in> set (select_etd_pairs (detect topo)). n \<le> x \<or> n \<le> y))
    \<and> (\<forall>a < min 8 (length (all_llcs topo)). \<forall>b < min 8 (length (all_llcs topo)). \<forall>c \<in> llc_cpus topo a.
         a \<noteq> b \<and> 2 \<le> card (llc_cpus topo a) \<and> 2 \<le> card (llc_cpus topo b) \<and> all_cpus_len topo \<le> c
         \<longrightarrow> calibrate_pairs meas n (select_etd_pairs (detect topo)) = None)
    \<and> calibrate_full_matrix meas n \<noteq> None"
proof (intro conjI allI ballI impI)
  show iff: "calibrate_pairs meas n (select_etd_pairs (detect topo)) = None
      \<longleftrightarrow> (\<exists>(x, y) \<in> set (select_etd_pairs (detect topo)). n \<le> x \<or> n \<le> y)"
    by (rule gap_panics_iff [OF assms(2)])
  fix a b c assume "a < min 8 (length (all_llcs topo))" "b < min 8 (length (all_llcs topo))" "c \<in> llc_cpus topo a"
    and *: "a \<noteq> b \<and> 2 \<le> card (llc_cpus topo a) \<and> 2 \<le> card (llc_cpus topo b) \<and> all_cpus_len topo \<le> c"
  then show "calibrate_pairs meas n (select_etd_pairs (detect topo)) = None"
    unfolding iff using gap_sampled [OF assms(1), of a b c] by (simp add: n detect_llc_tables(3))
next
  show "calibrate_full_matrix meas n \<noteq> None"
    unfolding calibrate_full_matrix_def gap_panics_iff [OF assms(2)] full_pairs by auto
qed

theorem etd_gap_panics_witness:
  "calibrate_pairs (\<lambda>a b k. if a = 0 then None else Some [100]) 4 (select_etd_pairs (detect two_llcs_gap)) = None
   \<and> calibrate_full_matrix (\<lambda>a b k. if a = 0 then None else Some [100]) 4 \<noteq> None"
proof -
  have cpus: "llc_cpus two_llcs_gap 0 = {0, 1}" "llc_cpus two_llcs_gap 1 = {4, 5}"
    by (auto simp: llc_cpus_def two_llcs_gap_def)
  have g: "ti_nr_cpus (detect two_llcs_gap) = 4" "all_cpus_len two_llcs_gap = 4" "length (all_llcs two_llcs_gap) = 2"
    by (simp_all add: detect_llc_tables(3) two_llcs_gap_def)
  note t = etd_gap_panics [OF two_llcs_ok(4) example_meas_ok g(1) [symmetric]]
  have "calibrate_pairs (\<lambda>a b k. if a = 0 then None else Some [100]) 4 (select_etd_pairs (detect two_llcs_gap)) = None"
    using t [THEN conjunct2, THEN conjunct1, rule_format, of 1 0 4] by (simp add: g cpus del: One_nat_def)
  with t show ?thesis by blast
qed

end
