(* ===== verification/Rates.thy ===== *)
theory Rates
  imports Complex_Main Accounting
begin

text \<open>
  The rates of the terminal interface: \<open>TuiApp::tick_stats\<close>, \<open>invalidate_rates\<close> and one round of the loop of
  \<open>run_tui\<close> (\<open>src/src/tui.rs\<close>). Instants and durations are rationals in seconds (rounding is not
  represented); what the operating system answers (key, readings of the clock) is an argument.
\<close>

section \<open>Rates between two snapshots\<close>

record tui_app =
  prev_stats :: imperator_stats
  prev_tick :: rat

record stats_rates =
  starve_per_sec :: "rat list"
  lock_skip_per_sec :: rat
  burst_credit_per_sec :: rat

definition saturating_sub :: "u64 \<Rightarrow> u64 \<Rightarrow> u64" where
  "saturating_sub a b = (if b \<le> a then a - b else 0)"

definition delta :: "rat \<Rightarrow> u64 \<Rightarrow> u64 \<Rightarrow> rat" where
  "delta elapsed_secs cur prev = of_nat (unat (saturating_sub cur prev)) / elapsed_secs"

definition tick_stats :: "rat \<Rightarrow> rat \<Rightarrow> imperator_stats \<Rightarrow> tui_app \<Rightarrow> stats_rates \<times> tui_app" where
  \<comment> \<open>the two readings of the clock: for \<open>elapsed\<close> and for the new \<open>prev_tick\<close>\<close>
  "tick_stats now now2 current app =
     (let elapsed_secs = max (now - prev_tick app) (1 / 1000);
          starve = map (\<lambda>i. delta elapsed_secs (nr_starvation_preempts_tier current ! i)
                              (nr_starvation_preempts_tier (prev_stats app) ! i)) [0..<4];
          lock_skip = delta elapsed_secs (nr_lock_holder_skips current) (nr_lock_holder_skips (prev_stats app));
          burst_credit = delta elapsed_secs (nr_preempt_with_credit current) (nr_preempt_with_credit (prev_stats app))
      in (\<lparr>starve_per_sec = starve, lock_skip_per_sec = lock_skip, burst_credit_per_sec = burst_credit\<rparr>,
          app\<lparr>prev_stats := current, prev_tick := now2\<rparr>))"

definition invalidate_rates :: "rat \<Rightarrow> tui_app \<Rightarrow> tui_app" where
  "invalidate_rates now app = app\<lparr>prev_stats := stats_zero, prev_tick := now\<rparr>"

section \<open>One round of the event loop\<close>

datatype tui_key = Quit | Copy | Reset | Other_key

record tui_state =
  app :: tui_app
  last_tick :: rat
  cached_rates :: stats_rates
  bss :: sched

record tui_input =
  key :: "tui_key option"  \<comment> \<open>the key pressed before the timeout, if any\<close>
  t_reset :: rat           \<comment> \<open>the clock in \<open>invalidate_rates\<close>\<close>
  t_check :: rat           \<comment> \<open>at \<open>last_tick.elapsed()\<close>\<close>
  t_last :: rat            \<comment> \<open>the new \<open>last_tick\<close>\<close>
  t_rate :: rat            \<comment> \<open>in \<open>tick_stats\<close>: the elapsed time\<close>
  t_prev :: rat            \<comment> \<open>in \<open>tick_stats\<close>: the new \<open>prev_tick\<close>\<close>

definition reset_stats :: "sched \<Rightarrow> sched" where
  \<comment> \<open>the loop over the blocks\<close>
  "reset_stats s = fold reset_stats_block [0..<length (global_stats s)] s"

definition tui_round :: "rat \<Rightarrow> tui_input \<Rightarrow> tui_state \<Rightarrow> tui_state option" where
  \<comment> \<open>None when the user quits\<close>
  "tui_round tick_rate inp z =
     (let stats = aggregate_stats (global_stats (bss z))
      in if key inp = Some Quit then None
         else (let z = (if key inp = Some Reset
                        then z\<lparr>bss := reset_stats (bss z), app := invalidate_rates (t_reset inp) (app z)\<rparr> else z)
               in if t_check inp - last_tick z \<ge> tick_rate
                  then (let (rates, app') = tick_stats (t_rate inp) (t_prev inp) stats (app z)
                        in Some (z\<lparr>last_tick := t_last inp, app := app', cached_rates := rates\<rparr>))
                  else Some z))"

section \<open>Lemmas\<close>

lemma unat_saturating_sub: "unat (saturating_sub a b) = unat a - unat b"
  by (simp add: saturating_sub_def unat_sub word_le_nat_alt)

lemma delta_grown: "unat cur = unat prev + n \<Longrightarrow> delta e cur prev = of_nat n / e"
  by (simp add: delta_def unat_saturating_sub)

lemma delta_not_grown: "unat cur \<le> unat prev \<Longrightarrow> delta e cur prev = 0"
  by (simp add: delta_def unat_saturating_sub)

lemma delta_from_zero: "delta e cur 0 = of_nat (unat cur) / e"
  by (simp add: delta_def unat_saturating_sub)

lemma fold_reset:
  "len = length (global_stats s) \<Longrightarrow> n \<le> len \<Longrightarrow>
   fold reset_stats_block [0..<n] s = s\<lparr>global_stats := replicate n stats_zero @ drop n (global_stats s)\<rparr>"
proof (induction n)
  case (Suc n)
  have "(replicate n stats_zero @ drop n (global_stats s))[n := stats_zero]
      = replicate (Suc n) stats_zero @ drop (Suc n) (global_stats s)"
    using Suc.prems by (simp add: list_update_append Cons_nth_drop_Suc [symmetric] replicate_append_same)
  then show ?case using Suc by (simp add: reset_stats_block_def)
qed simp

lemma reset_stats_eq: "reset_stats s = s\<lparr>global_stats := replicate (length (global_stats s)) stats_zero\<rparr>"
  unfolding reset_stats_def by (subst fold_reset [OF HOL.refl order.refl]) simp

lemma add_stats_zero: "add_stats stats_zero stats_zero = stats_zero"
  by (simp add: add_stats_def stats_zero_def upt_rec numeral_eq_Suc)

lemma aggregate_zero: "aggregate_stats (replicate n stats_zero) = stats_zero"
  by (induction n) (simp_all add: aggregate_stats_def add_stats_zero)

lemma stats_zero_sel [simp]:
  "i < 4 \<Longrightarrow> nr_starvation_preempts_tier stats_zero ! i = 0" "nr_lock_holder_skips stats_zero = 0"
  "nr_preempt_with_credit stats_zero = 0"
  by (simp_all add: stats_zero_def)

section \<open>Properties\<close>

text \<open>
  What a rate means: over a window without a reset in which a counter grew by some number, the displayed
  rate is that number over the elapsed time (at least a millisecond); the snapshot moves on with every full
  window, and a redraw for a key press inside a window changes neither snapshot nor rates.
\<close>

theorem rates_count_the_window:
  assumes "tui_round tick_rate inp z = Some z'" "key inp \<noteq> Some Reset" "st = aggregate_stats (global_stats (bss z))"
  shows "(if tick_rate \<le> t_check inp - last_tick z
     then prev_stats (app z') = st \<and> prev_tick (app z') = t_prev inp
       \<and> (\<forall>i < 4. \<forall>n. unat (nr_starvation_preempts_tier st ! i) = unat (nr_starvation_preempts_tier (prev_stats (app z)) ! i) + n
            \<longrightarrow> starve_per_sec (cached_rates z') ! i = of_nat n / max (t_rate inp - prev_tick (app z)) (1 / 1000))
     else z' = z) \<and> bss z' = bss z"
  using assms by (auto simp: tui_round_def tick_stats_def Let_def delta_grown split: if_splits)

text \<open>
  A reset can falsify the rates. The counters are summed before the key is handled, so when the user
  resets them in the round that also completes a window, the sums of before the reset are
  compared with the zero snapshot and divided by the moment since the reset (at least a
  millisecond): the display shows a spike of the whole history, which the comments exclude. The
  old sums then stay as the snapshot, so the next window shows 0 until a counter has passed its old value.
\<close>

theorem reset_in_window_spikes:
  assumes "key inp = Some Reset" "tick_rate \<le> t_check inp - last_tick z"
    and st: "st = aggregate_stats (global_stats (bss z))" and i: "i < 4"
    and e: "e = max (t_rate inp - t_reset inp) (1 / 1000)"
  shows "\<exists>z'. tui_round tick_rate inp z = Some z' \<and> aggregate_stats (global_stats (bss z')) = stats_zero
    \<and> starve_per_sec (cached_rates z') ! i = of_nat (unat (nr_starvation_preempts_tier st ! i)) / e
    \<and> lock_skip_per_sec (cached_rates z') = of_nat (unat (nr_lock_holder_skips st)) / e
    \<and> (\<forall>inp2 s2. key inp2 = None \<and> tick_rate \<le> t_check inp2 - last_tick z'
         \<and> unat (nr_starvation_preempts_tier (aggregate_stats (global_stats s2)) ! i) \<le> unat (nr_starvation_preempts_tier st ! i)
         \<longrightarrow> (\<exists>z2. tui_round tick_rate inp2 (z'\<lparr>bss := s2\<rparr>) = Some z2 \<and> starve_per_sec (cached_rates z2) ! i = 0))"
proof -
  obtain rates app' where t: "tick_stats (t_rate inp) (t_prev inp) st (invalidate_rates (t_reset inp) (app z)) = (rates, app')"
    by (metis prod.exhaust)
  define z' where "z' = z\<lparr>bss := reset_stats (bss z), app := app', last_tick := t_last inp, cached_rates := rates\<rparr>"
  have r: "tui_round tick_rate inp z = Some z'"
    using assms(1,2) t by (simp add: tui_round_def Let_def st [symmetric] z'_def)
  have now: "starve_per_sec rates ! i = of_nat (unat (nr_starvation_preempts_tier st ! i)) / e"
    "lock_skip_per_sec rates = of_nat (unat (nr_lock_holder_skips st)) / e" "prev_stats app' = st"
    using t i by (auto simp: tick_stats_def Let_def invalidate_rates_def delta_from_zero e)
  have "\<exists>z2. tui_round tick_rate inp2 (z'\<lparr>bss := s2\<rparr>) = Some z2 \<and> starve_per_sec (cached_rates z2) ! i = 0"
    if "key inp2 = None" "tick_rate \<le> t_check inp2 - last_tick z'"
      "unat (nr_starvation_preempts_tier (aggregate_stats (global_stats s2)) ! i) \<le> unat (nr_starvation_preempts_tier st ! i)" for inp2 s2
    using that i now(3) by (simp add: tui_round_def Let_def tick_stats_def z'_def delta_not_grown)
  then show ?thesis
    using r now by (auto simp: z'_def reset_stats_eq aggregate_zero)
qed

definition example_tui :: tui_state where
  \<comment> \<open>7000 starvation preemptions of T2 on CPU 0, a window of one second just over\<close>
  "example_tui = \<lparr>app = \<lparr>prev_stats = stats_zero, prev_tick = 0\<rparr>, last_tick = 0,
     cached_rates = \<lparr>starve_per_sec = [0, 0, 0, 0], lock_skip_per_sec = 0, burst_credit_per_sec = 0\<rparr>,
     bss = bss_zero\<lparr>global_stats := [stats_zero\<lparr>nr_starvation_preempts_tier := [0, 0, 7000, 0]\<rparr>]\<rparr>\<rparr>"

definition example_reset :: tui_input where
  "example_reset = \<lparr>key = Some Reset, t_reset = 1, t_check = 1, t_last = 1, t_rate = 1, t_prev = 1\<rparr>"

theorem reset_in_window_spikes_witness:
  "\<exists>z'. tui_round 1 example_reset example_tui = Some z' \<and> starve_per_sec (cached_rates z') ! 2 = 7000000"
proof -
  have "nr_starvation_preempts_tier (aggregate_stats (global_stats (bss example_tui))) ! 2 = 7000"
    by (simp add: example_tui_def aggregate_stats_def add_stats_def stats_zero_def)
  then show ?thesis
    using reset_in_window_spikes [of example_reset 1 example_tui _ 2, OF _ _ HOL.refl _ HOL.refl]
    by (auto simp: example_reset_def example_tui_def)
qed

end
