(* ===== verification/Event_Loop.thy ===== *)
theory Event_Loop
  imports Etd Rates Local_Handlers
begin

text \<open>
  How the measured latencies reach the scheduler: \<open>Scheduler::run\<close> of \<open>src/src/main.rs\<close> beside the
  calibration thread that \<open>Scheduler::new\<close> spawns. The two share the matrix behind a mutex and an
  eventfd; the loop of the main thread is either the headless one, woken by the eventfd, by signals and every
  minute, or the one of the terminal interface. The results of poll, of reading the signal fd and of the
  keyboard are arguments; the scheduler runs meanwhile and only reads the cost table.
\<close>

section \<open>The two threads\<close>

datatype cal_pc = Measuring | Locked | Stored | Unlocked | Signalled | Panicked

datatype main_pc = Starting | Looping | Ended

record loader_state =
  cal :: cal_pc
  latencies_shared :: matrix
  efd :: nat  \<comment> \<open>the counter of the eventfd\<close>
  main_thread :: main_pc
  etd_written :: bool
  ui :: tui_state  \<comment> \<open>with the program's BSS\<close>

definition mutex_held :: "loader_state \<Rightarrow> bool" where
  \<comment> \<open>the guard lives until the end of the match\<close>
  "mutex_held z \<longleftrightarrow> cal z = Locked \<or> cal z = Stored"

definition write_costs :: "topology_info \<Rightarrow> loader_state \<Rightarrow> loader_state" where
  "write_costs topo z =
     (let (b, ok) = try_write_etd_costs (if mutex_held z then None else Some (latencies_shared z)) topo (bss (ui z))
      in z\<lparr>ui := (ui z)\<lparr>bss := b\<rparr>, etd_written := ok\<rparr>)"

datatype signal_read = Signal_received | Signal_not_ready | Signal_error

datatype poll_result =
    Ready signal_read     \<comment> \<open>some fd is ready; what \<open>read_signal\<close> then returns\<close>
  | Timeout bool          \<comment> \<open>after 60 s; whether the scheduler has exited\<close>
  | Interrupted bool      \<comment> \<open>EINTR; the shutdown flag\<close>
  | Poll_error

definition headless_round :: "bool \<Rightarrow> topology_info \<Rightarrow> poll_result \<Rightarrow> loader_state \<Rightarrow> loader_state" where
  \<comment> \<open>\<open>has_efd\<close>: the eventfd could be created\<close>
  "headless_round has_efd topo result z =
     (case result of
        Ready sig \<Rightarrow>
          (let z = (if \<not> etd_written z \<and> has_efd \<and> 0 < efd z then write_costs topo (z\<lparr>efd := 0\<rparr>) else z)
           in if sig = Signal_not_ready then z else z\<lparr>main_thread := Ended\<rparr>)
      | Timeout exited \<Rightarrow>
          (let z = (if \<not> etd_written z then write_costs topo z else z)
           in if exited then z\<lparr>main_thread := Ended\<rparr> else z)
      | Interrupted shutdown \<Rightarrow> if shutdown then z\<lparr>main_thread := Ended\<rparr> else z
      | Poll_error \<Rightarrow> z\<lparr>main_thread := Ended\<rparr>)"

record loader_setup =
  verbose :: bool
  has_efd :: bool
  has_efd_write :: bool  \<comment> \<open>the duplicate for the calibration thread\<close>
  topo_info :: topology_info
  calibrated :: "matrix option"  \<comment> \<open>the result of the measurements, None for a panic\<close>

inductive loader_step :: "loader_setup \<Rightarrow> loader_state \<Rightarrow> loader_state \<Rightarrow> bool" for C where
  lock: "cal z = Measuring \<Longrightarrow> calibrated C = Some m \<Longrightarrow> loader_step C z (z\<lparr>cal := Locked\<rparr>)"
| store: "cal z = Locked \<Longrightarrow> calibrated C = Some m \<Longrightarrow> loader_step C z (z\<lparr>latencies_shared := m, cal := Stored\<rparr>)"
| unlock: "cal z = Stored \<Longrightarrow> loader_step C z (z\<lparr>cal := Unlocked\<rparr>)"
| signal: "cal z = Unlocked \<Longrightarrow>
    loader_step C z (z\<lparr>efd := (if has_efd_write C then efd z + 1 else efd z), cal := Signalled\<rparr>)"
| panic: "cal z = Measuring \<Longrightarrow> calibrated C = None \<Longrightarrow> loader_step C z (z\<lparr>cal := Panicked, main_thread := Ended\<rparr>)"
    \<comment> \<open>the release profile of \<open>Cargo.toml\<close> aborts the whole process\<close>
| start: "main_thread z = Starting \<Longrightarrow> loader_step C z ((write_costs (topo_info C) z)\<lparr>main_thread := Looping\<rparr>)"
| headless: "main_thread z = Looping \<Longrightarrow> \<not> verbose C \<Longrightarrow>
    loader_step C z (headless_round (has_efd C) (topo_info C) result z)"
| tui: "main_thread z = Looping \<Longrightarrow> verbose C \<Longrightarrow> tui_round tick_rate inp (ui z) = Some u \<Longrightarrow> loader_step C z (z\<lparr>ui := u\<rparr>)"
| tui_quit: "main_thread z = Looping \<Longrightarrow> verbose C \<Longrightarrow> loader_step C z (z\<lparr>main_thread := Ended\<rparr>)"
| program: "sched_wf b \<Longrightarrow> llc_etd_cost b = llc_etd_cost (bss (ui z)) \<Longrightarrow>
    loader_step C z (z\<lparr>ui := (ui z)\<lparr>bss := b\<rparr>\<rparr>)"
    \<comment> \<open>handlers of the scheduler, which run until the kernel has detached it, also after the loader's end\<close>

definition loader_start :: "nat \<Rightarrow> loader_state \<Rightarrow> bool" where
  "loader_start n z \<longleftrightarrow> cal z = Measuring \<and> latencies_shared z = replicate n (replicate n 0) \<and> efd z = 0
     \<and> main_thread z = Starting \<and> \<not> etd_written z \<and> sched_wf (bss (ui z))"

section \<open>Handlers as steps\<close>

text \<open>Every handler of theory \<open>Local_Handlers\<close> is such a step: it keeps the invariant and the cost table.\<close>

lemma event_keeps_costs: "llc_etd_cost (event_step R K e s) = llc_etd_cost s"
proof -
  obtain p where "event_task e = None \<or> event_task e = Some p" by (cases "event_task e") auto
  from cpu_handler.effect [OF event_handler [OF this, of R K], of s] show ?thesis
    by (auto simp: confined_def patch_def set_shared_def)
qed

lemma event_keeps_good:
  assumes "good R s"
  shows "good R (event_step R K e s)"
proof (cases e)
  case (E_switch sw)
  then show ?thesis using assms by (cases sw) (simp_all add: good_running good_stopping)
qed (use assms in \<open>simp_all add: tick_handler.keeps_good select_handler.keeps_good enqueue_handler.keeps_good
      dispatch_handler.keeps_good lock_events.keeps_good\<close>)

lemma event_is_step:
  assumes "good R (bss (ui z))"
  shows "loader_step C z (z\<lparr>ui := (ui z)\<lparr>bss := event_step R K e (bss (ui z))\<rparr>\<rparr>)"
  using event_keeps_good [OF assms] by (intro loader_step.program) (simp_all add: good_def event_keeps_costs)

section \<open>What a write does\<close>

definition cost_table :: "loader_state \<Rightarrow> u8 list list" where
  "cost_table z = llc_etd_cost (bss (ui z))"

definition written_table :: "matrix \<Rightarrow> topology_info \<Rightarrow> u8 list list \<Rightarrow> u8 list list" where
  \<comment> \<open>the table \<open>try_write_etd_costs\<close> makes of a published matrix\<close>
  "written_table m topo t = llc_etd_cost (fst (try_write_etd_costs (Some m) topo (bss_zero\<lparr>llc_etd_cost := t\<rparr>)))"

definition measured :: "matrix \<Rightarrow> bool" where
  "measured m \<longleftrightarrow> (\<exists>v \<in> set (concat m). 0 < v)"

lemma try_write_cases:
  "try_write_etd_costs None topo s = (s, False)"
  "\<not> measured m \<Longrightarrow> try_write_etd_costs (Some m) topo s = (s, False)"
  "measured m \<Longrightarrow> try_write_etd_costs (Some m) topo s = (s\<lparr>llc_etd_cost := written_table m topo (llc_etd_cost s)\<rparr>, True)"
  by (simp_all only: try_write_etd_costs_def measured_def written_table_def option.case not_not if_not_P if_P if_False if_True
      Let_def fst_conv sched.select_convs sched.update_convs sched.surjective)
     (simp_all add: measured_def)

lemma not_measured_zero: "\<not> measured (replicate n (replicate n 0))"
  by (auto simp: measured_def)

lemma write_costs_sel [simp]:
  "cal (write_costs topo z) = cal z" "latencies_shared (write_costs topo z) = latencies_shared z"
  "efd (write_costs topo z) = efd z" "main_thread (write_costs topo z) = main_thread z"
  by (simp_all add: write_costs_def split: prod.split)

lemma write_costs_outcome:
  "etd_written (write_costs topo z) \<longleftrightarrow> \<not> mutex_held z \<and> measured (latencies_shared z)"
  "cost_table (write_costs topo z) =
     (if \<not> mutex_held z \<and> measured (latencies_shared z) then written_table (latencies_shared z) topo (cost_table z) else cost_table z)"
  by (cases "measured (latencies_shared z)"; simp add: write_costs_def try_write_cases cost_table_def)+

section \<open>The invariant of the two threads\<close>

definition published :: "loader_state \<Rightarrow> bool" where
  "published z \<longleftrightarrow> cal z = Stored \<or> cal z = Unlocked \<or> cal z = Signalled"

definition cal_inv :: "loader_setup \<Rightarrow> nat \<Rightarrow> loader_state \<Rightarrow> bool" where
  \<comment> \<open>the calibration thread: the matrix is the result once stored, and the eventfd fires only after the unlock\<close>
  "cal_inv C n z \<longleftrightarrow> latencies_shared z = (if published z then the (calibrated C) else replicate n (replicate n 0))
     \<and> (0 < efd z \<longrightarrow> cal z = Signalled)"

definition write_inv :: "loader_setup \<Rightarrow> u8 list list \<Rightarrow> loader_state \<Rightarrow> bool" where
  \<comment> \<open>the main thread: the table is written once, with the result, and a signal not yet used is pending\<close>
  "write_inv C t0 z \<longleftrightarrow> cost_table z = (if etd_written z then written_table (the (calibrated C)) (topo_info C) t0 else t0)
     \<and> (etd_written z \<longrightarrow> published z \<and> measured (the (calibrated C)))
     \<and> (main_thread z = Starting \<longrightarrow> \<not> etd_written z)
     \<and> (cal z = Signalled \<and> has_efd_write C \<and> measured (the (calibrated C)) \<and> \<not> etd_written z \<longrightarrow> 0 < efd z)"

lemma inv_start: "loader_start n z \<Longrightarrow> cal_inv C n z \<and> write_inv C (cost_table z) z"
  by (simp add: loader_start_def cal_inv_def write_inv_def published_def)

lemma cost_table_ui [simp]: "cost_table (z\<lparr>ui := u\<rparr>) = llc_etd_cost (bss u)"
  by (simp add: cost_table_def)

lemma cost_table_same [simp]:
  "cost_table (z\<lparr>cal := c\<rparr>) = cost_table z" "cost_table (z\<lparr>latencies_shared := m\<rparr>) = cost_table z"
  "cost_table (z\<lparr>efd := k\<rparr>) = cost_table z" "cost_table (z\<lparr>main_thread := p\<rparr>) = cost_table z"
  by (simp_all add: cost_table_def)

lemma tui_keeps_costs: "tui_round tick_rate inp u = Some u' \<Longrightarrow> llc_etd_cost (bss u') = llc_etd_cost (bss u)"
  by (auto simp: tui_round_def reset_stats_eq Let_def split: if_splits prod.splits)

text \<open>A write in a state of the invariant publishes the result, or does nothing.\<close>

lemma write_costs_inv:
  assumes "cal_inv C n z" "write_inv C t0 z \<or> (0 < k \<and> write_inv C t0 (z\<lparr>efd := k\<rparr>))" "\<not> etd_written z"
  shows "cost_table (write_costs (topo_info C) z) =
      (if etd_written (write_costs (topo_info C) z) then written_table (the (calibrated C)) (topo_info C) t0 else t0)"
    and "etd_written (write_costs (topo_info C) z) \<longleftrightarrow> published z \<and> \<not> mutex_held z \<and> measured (the (calibrated C))"
proof -
  have t: "cost_table z = t0" using assms(2,3) by (auto simp: write_inv_def)
  have m: "measured (latencies_shared z) \<longleftrightarrow> published z \<and> measured (the (calibrated C))"
    using assms(1) not_measured_zero by (auto simp: cal_inv_def)
  show "etd_written (write_costs (topo_info C) z) \<longleftrightarrow> published z \<and> \<not> mutex_held z \<and> measured (the (calibrated C))"
    unfolding write_costs_outcome(1) m by auto
  show "cost_table (write_costs (topo_info C) z) =
      (if etd_written (write_costs (topo_info C) z) then written_table (the (calibrated C)) (topo_info C) t0 else t0)"
    using assms(1) m by (auto simp: write_costs_outcome t cal_inv_def)
qed

lemma cal_inv_sel: "cal z' = cal z \<Longrightarrow> latencies_shared z' = latencies_shared z \<Longrightarrow> efd z' \<le> efd z \<Longrightarrow> cal_inv C n z \<Longrightarrow> cal_inv C n z'"
  by (auto simp: cal_inv_def published_def)

lemma headless_cal: "cal_inv C n z \<Longrightarrow> cal_inv C n (headless_round e topo result z)"
  by (erule cal_inv_sel [rotated 3]) (auto simp: headless_round_def Let_def split: poll_result.split)

lemma signalled_free: "cal z = Signalled \<Longrightarrow> published z \<and> \<not> mutex_held z"
  by (simp add: published_def mutex_held_def)

lemma published_write [simp]: "published (write_costs topo z) = published z" "published (z\<lparr>main_thread := p\<rparr>) = published z"
    "published (z\<lparr>efd := k\<rparr>) = published z" "published (z\<lparr>ui := u\<rparr>) = published z"
  by (simp_all add: published_def)

lemma write_inv_written:
  assumes "cal_inv C n z" "write_inv C t0 (z\<lparr>efd := k\<rparr>)" "\<not> etd_written z" "main_thread z = Looping"
    and "efd z < k \<Longrightarrow> cal z = Signalled"
  shows "write_inv C t0 (write_costs (topo_info C) z)"
proof -
  have "write_inv C t0 z \<or> (0 < k \<and> write_inv C t0 (z\<lparr>efd := k\<rparr>))"
    using assms(2) by (cases "0 < k") (auto simp: write_inv_def published_def cost_table_def)
  note w = write_costs_inv [OF assms(1) this assms(3)]
  show ?thesis
    unfolding write_inv_def w(1)
    using w(2) assms(2,4) signalled_free [of z] by (auto simp: published_def)
qed

lemma write_inv_main: "write_inv C t0 z \<Longrightarrow> p \<noteq> Starting \<Longrightarrow> write_inv C t0 (z\<lparr>main_thread := p\<rparr>)"
  by (simp add: write_inv_def published_def)

lemma efd_id: "z\<lparr>efd := efd z\<rparr> = z"
  by simp

lemma headless_write:
  assumes "cal_inv C n z" "write_inv C t0 z" "main_thread z = Looping"
  shows "write_inv C t0 (headless_round e (topo_info C) result z)"
proof -
  have 1: "write_inv C t0 (write_costs (topo_info C) z)" if "\<not> etd_written z"
    using assms that by (intro write_inv_written [where k = "efd z"]) (simp_all add: efd_id)
  have 2: "write_inv C t0 (write_costs (topo_info C) (z\<lparr>efd := 0\<rparr>))" if "\<not> etd_written z" "0 < efd z"
  proof (rule write_inv_written [where k = "efd z"])
    show "cal_inv C n (z\<lparr>efd := 0\<rparr>)" by (rule cal_inv_sel [OF _ _ _ assms(1)]) simp_all
    show "cal (z\<lparr>efd := 0\<rparr>) = Signalled" using assms(1) that by (simp add: cal_inv_def)
  qed (use assms that in simp_all)
  show ?thesis
    using assms(2) 1 2 by (auto simp: headless_round_def Let_def intro!: write_inv_main split: poll_result.split)
qed

lemma inv_step:
  assumes "loader_step C z z'" "cal_inv C n z" "write_inv C t0 z"
  shows "cal_inv C n z' \<and> write_inv C t0 z'"
  using assms(1)
proof cases
  case start
  have w: "\<not> etd_written z" using start assms(3) by (simp add: write_inv_def)
  note o = write_costs_inv [OF assms(2) disjI1 [OF assms(3)] w]
  have "write_inv C t0 z'"
    unfolding start(1) write_inv_def using o assms(3) w signalled_free [of z] by (auto simp: write_inv_def published_def)
  moreover have "cal_inv C n z'" unfolding start(1) by (rule cal_inv_sel [OF _ _ _ assms(2)]) simp_all
  ultimately show ?thesis by simp
next
  case (headless result)
  then show ?thesis using headless_cal [OF assms(2)] headless_write [OF assms(2,3)] by simp
next
  case (tui tick_rate inp u)
  then show ?thesis
    using assms(2,3) tui_keeps_costs [OF tui(4)] by (simp add: cal_inv_def write_inv_def cost_table_def)
next
  case (program b)
  then show ?thesis using assms(2,3) by (simp add: cal_inv_def write_inv_def cost_table_def)
next
  case (store m)
  have "\<not> etd_written z" using store assms(3) by (auto simp: write_inv_def published_def)
  then show ?thesis using store assms(2,3) by (auto simp: cal_inv_def write_inv_def published_def)
qed (use assms(2,3) in \<open>auto simp: cal_inv_def write_inv_def published_def\<close>)

lemma inv_run:
  "(loader_step C)\<^sup>*\<^sup>* z0 z \<Longrightarrow> cal_inv C n z0 \<Longrightarrow> write_inv C t0 z0 \<Longrightarrow> cal_inv C n z \<and> write_inv C t0 z"
  by (induction rule: rtranclp_induct) (auto dest: inv_step)

section \<open>The table as a sequence of stores\<close>

text \<open>Writing the table is a sequence of the stores that are steps of the machine of theory \<open>System\<close>.\<close>

lemma write_is_stores:
  assumes "measured m"
  shows "try_write_etd_costs (Some m) topo s =
    (fold (\<lambda>(a, b) s. if a = b then s else store_etd_cost a b (etd_cost (min_latency m topo a b)) s)
       (List.product [0..<min (length (filter (\<lambda>m. m \<noteq> 0) (ti_llc_cpu_mask topo))) 8]
          [0..<min (length (filter (\<lambda>m. m \<noteq> 0) (ti_llc_cpu_mask topo))) 8]) s, True)"
proof -
  have "fold (\<lambda>(a, b) s. if a = b then s else store_etd_cost a b (f a b) s) ps s
      = s\<lparr>llc_etd_cost := fold (\<lambda>(a, b) t. if a = b then t else t[a := (t ! a)[b := f a b]]) ps (llc_etd_cost s)\<rparr>"
    for f ps and s :: sched
    by (induction ps arbitrary: s) (auto simp: store_etd_cost_def)
  then show ?thesis using assms by (simp add: try_write_etd_costs_def measured_def Let_def)
qed

lemma wf_stores:
  "sched_wf s \<Longrightarrow> sched_wf (fold (\<lambda>(a, b) s. if a = b then s else store_etd_cost a b (f a b) s) ps s)"
  by (induction ps arbitrary: s) (auto simp: sched_wf_store_cost)

lemma wf_write: "sched_wf s \<Longrightarrow> sched_wf (fst (try_write_etd_costs l topo s))"
proof (cases l)
  case (Some m)
  assume "sched_wf s"
  then show ?thesis
    using Some by (cases "measured m") (simp_all add: write_is_stores wf_stores try_write_cases(2))
qed (simp add: try_write_cases)

lemma wf_tui: "tui_round tick_rate inp u = Some u' \<Longrightarrow> sched_wf (bss u) \<Longrightarrow> sched_wf (bss u')"
proof -
  have "sched_wf (fold reset_stats_block is s)" if "sched_wf s" for s "is"
    using that by (induction "is" arbitrary: s) (simp_all add: sched_wf_reset)
  then have r: "sched_wf (reset_stats s)" if "sched_wf s" for s using that by (simp add: reset_stats_def)
  assume "tui_round tick_rate inp u = Some u'" "sched_wf (bss u)"
  then show ?thesis by (auto simp: tui_round_def Let_def r split: if_splits prod.splits)
qed

lemma wf_write_costs: "sched_wf (bss (ui z)) \<Longrightarrow> sched_wf (bss (ui (write_costs topo z)))"
  using wf_write [of "bss (ui z)"] by (simp add: write_costs_def split_def Let_def)

lemma wf_step: "loader_step C z z' \<Longrightarrow> sched_wf (bss (ui z)) \<Longrightarrow> sched_wf (bss (ui z'))"
proof (induction rule: loader_step.induct)
  case (headless z result)
  then show ?case
    using wf_write_costs [of z] wf_write_costs [of "z\<lparr>efd := 0\<rparr>"]
    by (auto simp: headless_round_def Let_def split: poll_result.split)
qed (use wf_write_costs wf_tui in auto)

lemma wf_run: "(loader_step C)\<^sup>*\<^sup>* z z' \<Longrightarrow> sched_wf (bss (ui z)) \<Longrightarrow> sched_wf (bss (ui z'))"
  by (induction rule: rtranclp_induct) (auto dest: wf_step)

section \<open>After the signal\<close>

text \<open>Once the table is written it is never changed again.\<close>

lemma written_step:
  assumes "loader_step C z z'" "\<not> verbose C" "etd_written z" "main_thread z \<noteq> Starting"
  shows "etd_written z' \<and> main_thread z' \<noteq> Starting"
  using assms
proof cases
  case (headless result)
  then show ?thesis using assms(3) by (auto simp: headless_round_def Let_def split: poll_result.split)
qed auto

lemma written_run:
  assumes "(loader_step C)\<^sup>*\<^sup>* z z'" "\<not> verbose C" "etd_written z" "main_thread z \<noteq> Starting"
  shows "etd_written z'"
proof -
  have "etd_written z' \<and> main_thread z' \<noteq> Starting"
    using assms(1) by (induction rule: rtranclp_induct) (use assms(2-4) written_step in blast)+
  then show ?thesis ..
qed

definition wakes :: "loader_setup \<Rightarrow> poll_result \<Rightarrow> bool" where
  \<comment> \<open>the wakeups after the signal: the eventfd if there is one, else the timeout\<close>
  "wakes C result \<longleftrightarrow> (case result of Ready sig \<Rightarrow> has_efd C \<and> has_efd_write C | Timeout exited \<Rightarrow> True | _ \<Rightarrow> False)"

lemma wakeup_writes:
  assumes "loader_start n z0" "\<not> verbose C" "calibrated C = Some m" "measured m"
    and "(loader_step C)\<^sup>*\<^sup>* z0 z" "cal z = Signalled" "main_thread z = Looping" "wakes C result"
    and "z' = headless_round (has_efd C) (topo_info C) result z" "(loader_step C)\<^sup>*\<^sup>* z' z''"
  shows "cost_table z'' = written_table m (topo_info C) (cost_table z0)"
proof -
  have inv: "cal_inv C n z" "write_inv C (cost_table z0) z"
    using inv_run [OF assms(5)] inv_start [OF assms(1), of C] by blast+
  have step: "loader_step C z z'" unfolding assms(9) using assms(7,2) by (rule loader_step.headless)
  note inv' = inv_step [OF step inv]
  have free: "published z" "\<not> mutex_held z" using signalled_free [OF assms(6)] by simp_all
  have w: "etd_written (write_costs (topo_info C) z)" "etd_written (write_costs (topo_info C) (z\<lparr>efd := 0\<rparr>))"
    using inv(1) assms(3,4) free by (simp_all add: write_costs_outcome cal_inv_def mutex_held_def)
  have "etd_written z'"
  proof (cases "etd_written z")
    case True
    then show ?thesis by (auto simp: assms(9) headless_round_def Let_def split: poll_result.split)
  next
    case False
    show ?thesis
    proof (cases result)
      case (Ready sig)
      then have "0 < efd z" "has_efd C" using assms(3,4,6,8) inv(2) False by (auto simp: write_inv_def wakes_def)
      then show ?thesis using False w by (simp add: assms(9) headless_round_def Ready Let_def)
    next
      case (Timeout exited)
      then show ?thesis using False w by (simp add: assms(9) headless_round_def Let_def)
    qed (use assms(8) in \<open>simp_all add: wakes_def\<close>)
  qed
  moreover have "main_thread z' \<noteq> Starting"
    using assms(7) by (auto simp: assms(9) headless_round_def Let_def split: poll_result.split)
  ultimately have "etd_written z''" using written_run [OF assms(10,2)] by simp
  moreover have "write_inv C (cost_table z0) z''"
    using inv_run [OF assms(10)] inv' by blast
  ultimately show ?thesis using assms(3) by (simp add: write_inv_def)
qed

section \<open>Costs and the order of stealing\<close>

lemma cost_order:
  assumes "0 < x" "0 < y" "x \<noteq> f64_MAX" "y \<noteq> f64_MAX" "Etd.etd_cost x \<le> Etd.etd_cost y"
  shows "x < max 8 (y + 4) \<or> 1020 \<le> y"
proof (cases "1020 \<le> y")
  case False
  let ?f = "\<lambda>v :: rat. max 1 (min 255 (nat \<lfloor>v / 4\<rfloor>))"
  have "\<lfloor>y / 4\<rfloor> < 255" using False by linarith
  then have "nat \<lfloor>y / 4\<rfloor> < 255" by linarith
  then have y: "?f y = max 1 (nat \<lfloor>y / 4\<rfloor>)" "?f y < 255" by simp_all
  have "?f x \<le> ?f y" using assms(3-5) by (simp add: etd_cost_eq word_le_nat_alt unat_of_nat)
  then have x: "max 1 (nat \<lfloor>x / 4\<rfloor>) \<le> max 1 (nat \<lfloor>y / 4\<rfloor>)" using y by linarith
  have "\<lfloor>x / 4\<rfloor> \<le> 1 \<or> \<lfloor>x / 4\<rfloor> \<le> \<lfloor>y / 4\<rfloor>" using x by linarith
  then have "x < 8 \<or> x < y + 4"
  proof
    assume "\<lfloor>x / 4\<rfloor> \<le> 1"
    then have "x < 8" by linarith
    then show ?thesis ..
  next
    assume "\<lfloor>x / 4\<rfloor> \<le> \<lfloor>y / 4\<rfloor>"
    then have "x < y + 4" by linarith
    then show ?thesis ..
  qed
  then show ?thesis by (auto simp: less_max_iff_disj)
qed simp

lemma steal_cands_sorted: "sorted (steal_cands R my_llc s)" "distinct (steal_cands R my_llc s)"
  using sorted_wrt_filter [OF sorted_upt] by (simp_all add: steal_cands_def)

lemma dispatch_calls:
  assumes "my_llc = cpu_llc_id R ! unat (dsp_raw_cpu inp AND 63)" "unat my_llc < 8" "unat (nr_llcs R) \<le> 8"
  shows "kcalls (imperator_dispatch R inp s) = kcalls s
    @ map (\<lambda>l. Dsq_move_to_local (llc_dsq l)) (attempts (moves inp) (dispatch_plan R my_llc s))"
  unfolding dispatch_try_all [OF assms] by (rule try_all_effect)

lemma plan_uncalibrated:
  assumes "\<forall>i < 8. \<forall>j < 8. llc_etd_cost s ! i ! j = 0" "unat (nr_llcs R) \<le> 8"
  shows "dispatch_plan R my_llc s = my_llc # (if nr_llcs R \<le> 1 then [] else map word_of_nat (steal_cands R my_llc s))"
proof -
  have "filter (\<lambda>i. 0 < Dispatch.etd_cost s my_llc i) (steal_cands R my_llc s) = []"
    using assms by (auto simp: filter_empty_conv steal_cands_def Dispatch.etd_cost_def unat_and_low)
  then show ?thesis by (simp add: dispatch_plan_def steal_order_def Let_def)
qed

text \<open>Among flagged LLCs whose costs are all known, the first to be tried has the smallest cost.\<close>

lemma plan_first:
  assumes "unat (nr_llcs R) \<le> 8" "1 < nr_llcs R" "unat my_llc < 8"
    and "\<forall>l \<in> flagged_others R my_llc s. 0 < llc_etd_cost s ! unat my_llc ! unat l"
  obtains plan where "dispatch_plan R my_llc s = my_llc # plan" "set plan = flagged_others R my_llc s"
    "\<forall>l \<in> set plan. llc_etd_cost s ! unat my_llc ! unat (hd plan) \<le> llc_etd_cost s ! unat my_llc ! unat l"
proof -
  let ?c = "Dispatch.etd_cost s my_llc" and ?cs = "steal_cands R my_llc s"
  let ?plan = "map word_of_nat (steal_order ?c ?cs) :: u32 list"
  have idx: "my_llc AND 7 = my_llc" using assms(3) by (simp add: word_unat_eq_iff unat_and_low)
  have lt: "i < 8" if "i \<in> set ?cs" for i using that assms(1) by (auto simp: steal_cands_def)
  let ?k = "\<lambda>l :: u32. llc_etd_cost s ! unat my_llc ! unat l"
  have c: "?k (word_of_nat i :: u32) = ?c i" if "i \<in> set ?cs" for i
    using lt [OF that] by (simp add: Dispatch.etd_cost_def idx unat_of_nat)
  have o: "set ?plan = word_of_nat ` set ?cs"
    by (simp only: list.set_map steal_order_spec(2) [OF steal_cands_sorted])
  have best: "\<forall>l \<in> set ?plan. 0 < ?k l \<longrightarrow> ?k (hd ?plan) \<le> ?k l" if "\<exists>l \<in> set ?plan. 0 < ?k l"
  proof -
    have "0 < ?k (hd ?plan) \<and> (\<forall>l \<in> set ?plan. 0 < ?k l \<longrightarrow> ?k (hd ?plan) \<le> ?k l)"
      by (rule steal_order_words(4) [OF steal_cands_sorted _ _ HOL.refl HOL.refl that]) (fact lt, fact c)
    then show ?thesis ..
  qed
  have p: "dispatch_plan R my_llc s = my_llc # ?plan"
    using assms(2) by (simp only: dispatch_plan_def not_le [symmetric] if_not_P if_False)
  have "word_of_nat i \<noteq> my_llc" if "i \<in> set ?cs" for i
    using that lt [OF that] by (auto simp: steal_cands_def unat_of_nat)
  then have "my_llc \<notin> set ?plan" unfolding o by blast
  then have set: "set ?plan = flagged_others R my_llc s"
    using set_plan [OF assms(1), of my_llc s] insert_ident [of my_llc "set ?plan" "flagged_others R my_llc s"]
    unfolding p by (simp add: flagged_others_def)
  have "\<forall>l \<in> set ?plan. ?k (hd ?plan) \<le> ?k l"
  proof
    fix l assume l: "l \<in> set ?plan"
    have pos: "0 < ?k l" if "l \<in> set ?plan" for l using assms(4) that unfolding set by simp
    have "\<exists>l \<in> set ?plan. 0 < ?k l" by (rule bexI [of "\<lambda>l. 0 < ?k l" l]) (rule pos [OF l], rule l)
    from bspec [OF best [OF this] l] pos [OF l] show "?k (hd ?plan) \<le> ?k l" by (rule mp)
  qed
  with p set show thesis by (rule that)
qed

lemma nearest_plan:
  assumes "llcs_populated topo" "1 < length (all_llcs topo)"
    and R: "R = configure_rodata a (detect topo) R0" and my: "my_llc = cpu_llc_id R ! unat (dsp_raw_cpu inp AND 63)"
    and c: "\<And>j. j < min 8 (length (all_llcs topo)) \<Longrightarrow> j \<noteq> unat my_llc \<Longrightarrow>
      llc_etd_cost s ! unat my_llc ! j = Etd.etd_cost (lat j) \<and> 0 < lat j \<and> lat j \<noteq> f64_MAX"
  shows "\<exists>plan. kcalls (imperator_dispatch R inp s) = kcalls s
        @ map (\<lambda>l. Dsq_move_to_local (llc_dsq l)) (attempts (moves inp) (my_llc # plan))
    \<and> set plan = flagged_others R my_llc s
    \<and> (\<forall>l \<in> set plan. lat (unat (hd plan)) < max 8 (lat (unat l) + 4) \<or> 1020 \<le> lat (unat l))"
proof -
  let ?N = "min 8 (length (all_llcs topo))"
  have ok: "config_ok R" unfolding R by (rule loader_config_ok [OF assms(1)])
  have nr: "unat (nr_llcs R) = ?N"
    using assms(2) by (simp add: R llc_count_populated [OF assms(1)] max_def word_le_nat_alt unat_of_nat min_def)
  then have nr8: "unat (nr_llcs R) \<le> 8" "1 < nr_llcs R" using assms(2) by (simp_all add: word_less_nat_alt)
  have "my_llc < nr_llcs R" unfolding my using ok unat_and_63 by (simp add: config_ok_def)
  then have my8: "unat my_llc < 8" using nr by (simp add: word_less_nat_alt)
  have fl: "unat l < ?N" "unat l \<noteq> unat my_llc" if "l \<in> flagged_others R my_llc s" for l
    using that nr by (auto simp: flagged_others_def word_less_nat_alt word_unat_eq_iff split: if_splits)
  have "0 < llc_etd_cost s ! unat my_llc ! unat l" if "l \<in> flagged_others R my_llc s" for l
    using c [OF fl [OF that]] etd_cost_nonzero [of "lat (unat l)"] by (simp add: word_less_nat_alt)
  then obtain plan where plan: "dispatch_plan R my_llc s = my_llc # plan" "set plan = flagged_others R my_llc s"
      "\<forall>l \<in> set plan. llc_etd_cost s ! unat my_llc ! unat (hd plan) \<le> llc_etd_cost s ! unat my_llc ! unat l"
    using plan_first [OF nr8 my8] by metis
  have "lat (unat (hd plan)) < max 8 (lat (unat l) + 4) \<or> 1020 \<le> lat (unat l)" if l: "l \<in> set plan" for l
  proof -
    have h: "hd plan \<in> set plan" using l by (cases plan) simp_all
    note ch = c [OF fl [OF h [unfolded plan(2)]]] and cl = c [OF fl [OF l [unfolded plan(2)]]]
    have "Etd.etd_cost (lat (unat (hd plan))) \<le> Etd.etd_cost (lat (unat l))"
      using plan(3) l ch cl by metis
    then show ?thesis using ch cl by (intro cost_order) simp_all
  qed
  then show ?thesis using dispatch_calls [OF my my8 nr8(1), of s] plan by auto
qed

lemma session_reaches_signal:
  assumes "calibrated C = Some m" "loader_start n z0"
  shows "\<exists>z. (loader_step C)\<^sup>*\<^sup>* z0 z \<and> cal z = Signalled \<and> main_thread z = Looping"
proof -
  let ?z1 = "z0\<lparr>cal := Locked\<rparr>"
  let ?z2 = "?z1\<lparr>latencies_shared := m, cal := Stored\<rparr>"
  let ?z3 = "?z2\<lparr>cal := Unlocked\<rparr>"
  let ?z4 = "?z3\<lparr>efd := (if has_efd_write C then efd ?z3 + 1 else efd ?z3), cal := Signalled\<rparr>"
  let ?z5 = "(write_costs (topo_info C) ?z4)\<lparr>main_thread := Looping\<rparr>"
  have z0: "cal z0 = Measuring" "main_thread z0 = Starting" using assms(2) by (simp_all add: loader_start_def)
  have "loader_step C z0 ?z1" by (rule loader_step.lock [OF z0(1) assms(1)])
  moreover have "loader_step C ?z1 ?z2" by (rule loader_step.store [OF _ assms(1)]) simp
  moreover have "loader_step C ?z2 ?z3" by (rule loader_step.unlock) simp
  moreover have "loader_step C ?z3 ?z4" by (rule loader_step.signal) simp
  moreover have "loader_step C ?z4 ?z5" by (rule loader_step.start) (simp add: z0)
  ultimately have "(loader_step C)\<^sup>*\<^sup>* z0 ?z5" by (meson converse_rtranclp_into_rtranclp rtranclp.rtrancl_refl)
  then show ?thesis by (intro exI [of _ ?z5]) simp
qed

section \<open>Properties\<close>

text \<open>
  C28. The measurements reach the scheduler. In a headless session on a machine whose CPU ids have no gap, let the
  calibration thread have signalled its end. After the next wakeup of the loop, by the eventfd or by the timeout
  (the eventfd may be missing), and from then on for ever, whatever the threads and the scheduler do:
  \<open>imperator_dispatch\<close> tries its own queue first and then the flagged LLC nearest by
  measured latency, up to the 4 ns resolution of the table (8 ns below, saturation at 1020 ns).
\<close>

theorem headless_session_steals_nearest:
  assumes "llcs_populated topo" "llcs_disjoint topo" "ids_dense topo" "meas_ok meas" "1 < length (all_llcs topo)"
    and "\<not> verbose C" "topo_info C = detect topo"
    and "calibrated C = calibrate_pairs meas (ti_nr_cpus (detect topo)) (select_etd_pairs (detect topo))
       \<or> calibrated C = calibrate_full_matrix meas (ti_nr_cpus (detect topo))"
    and "loader_start n z0" "(loader_step C)\<^sup>*\<^sup>* z0 z" "cal z = Signalled" "main_thread z = Looping" "wakes C result"
    and "(loader_step C)\<^sup>*\<^sup>* (headless_round (has_efd C) (topo_info C) result z) z'"
    and R: "R = configure_rodata a (detect topo) R0" and my: "my_llc = cpu_llc_id R ! unat (dsp_raw_cpu inp AND 63)"
    and lat: "lat = min_latency (the (calibrated C)) (detect topo) (unat my_llc)" and s: "s = bss (ui z')"
  shows "\<exists>plan. kcalls (imperator_dispatch R inp s) = kcalls s
        @ map (\<lambda>l. Dsq_move_to_local (llc_dsq l)) (attempts (moves inp) (my_llc # plan))
    \<and> set plan = flagged_others R my_llc s
    \<and> (\<forall>l \<in> set plan. lat (unat (hd plan)) < max 8 (lat (unat l) + 4) \<or> 1020 \<le> lat (unat l))"
proof -
  let ?N = "min 8 (length (all_llcs topo))"
  obtain m where m: "calibrated C = Some m" and w: "\<And>s a b. sched_wf s \<Longrightarrow> a < ?N \<Longrightarrow> b < ?N \<Longrightarrow> a \<noteq> b \<Longrightarrow>
        snd (try_write_etd_costs (Some m) (detect topo) s)
        \<and> llc_etd_cost (fst (try_write_etd_costs (Some m) (detect topo) s)) ! a ! b = Etd.etd_cost (min_latency m (detect topo) a b)
        \<and> 1 \<le> unat (Etd.etd_cost (min_latency m (detect topo) a b))"
    by (rule calibration_writes [OF assms(1-4,8)]) (rule that)
  have wf0: "sched_wf (bss (ui z0))" using assms(9) by (simp add: loader_start_def)
  have N: "0 < ?N" "1 < ?N" using assms(5) by linarith+
  have "measured m"
    using w [OF wf0 N] try_write_cases(2) [of m "detect topo" "bss (ui z0)"] by (cases "measured m") simp_all
  from wakeup_writes [OF assms(9,6) m this assms(10-13) HOL.refl assms(14)]
  have t: "llc_etd_cost s = llc_etd_cost (fst (try_write_etd_costs (Some m) (detect topo) (bss (ui z0))))"
    using \<open>measured m\<close> by (simp add: s cost_table_def assms(7) try_write_cases(3))
  have "unat my_llc < ?N"
    using loader_config_ok [OF assms(1), of a R0] unat_and_63 N unfolding my R
    by (simp add: config_ok_def llc_count_populated [OF assms(1)] word_less_nat_alt max_def word_le_nat_alt unat_of_nat split: if_splits)
  then have c: "llc_etd_cost s ! unat my_llc ! j = Etd.etd_cost (lat j) \<and> 0 < lat j \<and> lat j \<noteq> f64_MAX"
    if "j < ?N" "j \<noteq> unat my_llc" for j
    using w [OF wf0 _ that(1), of "unat my_llc"] that(2) min_latency_Min [of m "detect topo"] f64_MAX_gt(2)
    by (auto simp: t lat m etd_cost_eq latencies_def)
  show ?thesis by (rule nearest_plan [OF assms(1,5) R my c])
qed

definition example_setup :: "bool \<Rightarrow> loader_setup" where
  "example_setup v = \<lparr>verbose = v, has_efd = True, has_efd_write = True, topo_info = detect two_llcs,
     calibrated = calibrate_pairs (\<lambda>a b k. if a = 0 then None else Some [100]) 8 (select_etd_pairs (detect two_llcs))\<rparr>"

definition example_loader :: loader_state where
  "example_loader = \<lparr>cal = Measuring, latencies_shared = replicate 8 (replicate 8 0), efd = 0, main_thread = Starting,
     etd_written = False, ui = example_tui\<lparr>bss := bss_zero\<rparr>\<rparr>"

lemma example_loader_start: "loader_start 8 example_loader"
  by (simp add: loader_start_def example_loader_def sched_wf_def bss_zero_def stats_zero_def)

theorem headless_session_steals_nearest_witness:
  "\<exists>z plan. (loader_step (example_setup False))\<^sup>*\<^sup>* example_loader z
    \<and> kcalls (imperator_dispatch (configure_rodata example_args (detect two_llcs) rodata_default) example_dsp (bss (ui z)))
      = kcalls (bss (ui z)) @ map (\<lambda>l. Dsq_move_to_local (llc_dsq l)) (attempts (moves example_dsp)
          (cpu_llc_id (configure_rodata example_args (detect two_llcs) rodata_default) ! unat (dsp_raw_cpu example_dsp AND 63) # plan))"
proof -
  let ?C = "example_setup False"
  have two: "1 < length (all_llcs two_llcs)" "ti_nr_cpus (detect two_llcs) = 8"
    by (simp_all add: detect_llc_tables(3) two_llcs_def)
  have C: "\<not> verbose ?C" "topo_info ?C = detect two_llcs"
      "calibrated ?C = calibrate_pairs (\<lambda>a b k. if a = 0 then None else Some [100]) (ti_nr_cpus (detect two_llcs))
         (select_etd_pairs (detect two_llcs))"
    by (simp_all add: example_setup_def two)
  obtain m where "calibrated ?C = Some m"
    by (rule calibration_writes [OF two_llcs_ok(1-3) example_meas_ok disjI1 [OF C(3)]])
  from session_reaches_signal [OF this example_loader_start] obtain z
    where z: "(loader_step ?C)\<^sup>*\<^sup>* example_loader z" "cal z = Signalled" "main_thread z = Looping" by blast
  have step: "loader_step ?C z (headless_round (has_efd ?C) (topo_info ?C) (Timeout False) z)"
    by (rule loader_step.headless [OF z(3) C(1)])
  have "wakes ?C (Timeout False)" by (simp add: wakes_def)
  from headless_session_steals_nearest [OF two_llcs_ok(1-3) example_meas_ok two(1) C(1,2) disjI1 [OF C(3)] example_loader_start
      z this rtranclp.rtrancl_refl HOL.refl HOL.refl HOL.refl HOL.refl]
  show ?thesis using rtranclp.rtrancl_into_rtrancl [OF z(1) step] by blast
qed

text \<open>
  C29. A session with the terminal interface never uses late measurements. The interface's loop does not ask for
  them, so when the calibration has not released its result at the moment \<open>run\<close> starts, the table
  stays as it was, all zero, to the end of the session, and \<open>imperator_dispatch\<close> tries the flagged LLCs in ascending
  order, however far away they are.
\<close>

theorem tui_session_stays_uncalibrated:
  assumes "loader_start n z0" "verbose C" "\<forall>i < 8. \<forall>j < 8. cost_table z0 ! i ! j = 0"
    and "(loader_step C)\<^sup>*\<^sup>* z0 z1" "main_thread z1 = Starting" "\<not> published z1 \<or> mutex_held z1"
    and "(loader_step C)\<^sup>*\<^sup>* ((write_costs (topo_info C) z1)\<lparr>main_thread := Looping\<rparr>) z" "s = bss (ui z)"
    and my: "my_llc = cpu_llc_id R ! unat (dsp_raw_cpu inp AND 63)" "unat my_llc < 8" and nr: "1 < nr_llcs R" "unat (nr_llcs R) \<le> 8"
  shows "cost_table z = cost_table z0
    \<and> kcalls (imperator_dispatch R inp s) = kcalls s @ map (\<lambda>l. Dsq_move_to_local (llc_dsq l))
        (attempts (moves inp) (my_llc # map word_of_nat (steal_cands R my_llc s)))"
proof -
  have inv: "cal_inv C n z1" "write_inv C (cost_table z0) z1"
    using inv_run [OF assms(4)] inv_start [OF assms(1), of C] by blast+
  have t1: "cost_table z1 = cost_table z0" using inv(2) assms(5) by (simp add: write_inv_def)
  have "\<not> (\<not> mutex_held z1 \<and> measured (latencies_shared z1))"
    using assms(6) inv(1) not_measured_zero by (auto simp: cal_inv_def)
  then have "cost_table ((write_costs (topo_info C) z1)\<lparr>main_thread := Looping\<rparr>) = cost_table z0"
    unfolding cost_table_same write_costs_outcome(2) t1 by (rule if_not_P)
  with assms(7) have "cost_table z = cost_table z0 \<and> main_thread z \<noteq> Starting"
    by (induction rule: rtranclp_induct)
       (auto elim!: loader_step.cases simp: assms(2) cost_table_def tui_keeps_costs)
  then have t: "cost_table z = cost_table z0" ..
  have "\<forall>i < 8. \<forall>j < 8. llc_etd_cost s ! i ! j = 0" using assms(3) t by (simp add: cost_table_def assms(8))
  from plan_uncalibrated [OF this nr(2)] show ?thesis
    using dispatch_calls [OF my nr(2), of s] t nr(1) by (simp add: not_le [symmetric])
qed

theorem tui_session_stays_uncalibrated_witness:
  "\<exists>z. (loader_step (example_setup True))\<^sup>*\<^sup>* example_loader z \<and> main_thread z = Looping \<and> cost_table z ! 0 ! 1 = 0"
proof -
  let ?C = "example_setup True" and ?z = "(write_costs (topo_info (example_setup True)) example_loader)\<lparr>main_thread := Looping\<rparr>"
  have z: "main_thread example_loader = Starting" "\<not> published example_loader"
      "\<forall>i < 8. \<forall>j < 8. cost_table example_loader ! i ! j = 0"
    by (simp_all add: example_loader_def published_def cost_table_def bss_zero_def)
  have v: "verbose ?C" by (simp add: example_setup_def)
  have "(loader_step ?C)\<^sup>*\<^sup>* example_loader ?z" by (rule r_into_rtranclp, rule loader_step.start [OF z(1)])
  moreover have "cost_table ?z = cost_table example_loader"
    using tui_session_stays_uncalibrated [OF example_loader_start v z(3) rtranclp.rtrancl_refl z(1) disjI1 [OF z(2)]
        rtranclp.rtrancl_refl HOL.refl HOL.refl, of example_rodata example_dsp]
    by simp
  ultimately show ?thesis using z(3) by (intro exI [of _ ?z]) simp
qed

end
