(* ===== verification/Ping_Pong.thy ===== *)
theory Ping_Pong
  imports Prelude
begin

text \<open>
  The two threads of \<open>measure_pair\<close> in \<open>src/src/calibrate.rs\<close>: pinning, barrier, abort check and
  the compare-and-swap ping-pong, as a step relation of the pair. A compare-and-swap that fails
  leaves the state alone and is retried, so only the successful ones are steps. What is shown is
  that the threads never wait for each other for ever and agree on the outcome; the measured times
  are not represented.
\<close>

section \<open>The threads\<close>

datatype thread_pc =
    Pin  \<comment> \<open>\<open>set_for_current\<close>\<close>
  | Barrier  \<comment> \<open>in \<open>barrier.wait()\<close>\<close>
  | Check  \<comment> \<open>the load of \<open>abort\<close>\<close>
  | Trips nat  \<comment> \<open>successful exchanges still to do, warm-up included\<close>
  | Finished bool  \<comment> \<open>whether the thread measured\<close>

record pair_state =
  ping :: thread_pc
  pong :: thread_pc
  flag :: bool  \<comment> \<open>\<open>PING = false\<close>, \<open>PONG = true\<close>\<close>
  abort :: bool

definition pair_start :: pair_state where
  "pair_start = \<lparr>ping = Pin, pong = Pin, flag = False, abort = False\<rparr>"

definition total_trips :: "nat \<Rightarrow> nat \<Rightarrow> nat \<Rightarrow> nat" where
  \<comment> \<open>warm-up trips, then \<open>iterations\<close> trips for each of the \<open>samples\<close>\<close>
  "total_trips warmup iterations samples = warmup + iterations * samples"

inductive pair_step :: "bool \<Rightarrow> bool \<Rightarrow> nat \<Rightarrow> pair_state \<Rightarrow> pair_state \<Rightarrow> bool" for ping_ok pong_ok n where
  ping_pin: "ping z = Pin \<Longrightarrow>
    pair_step ping_ok pong_ok n z (z\<lparr>ping := Barrier, abort := abort z \<or> \<not> ping_ok\<rparr>)"
| pong_pin: "pong z = Pin \<Longrightarrow>
    pair_step ping_ok pong_ok n z (z\<lparr>pong := Barrier, abort := abort z \<or> \<not> pong_ok\<rparr>)"
| barrier: "ping z = Barrier \<Longrightarrow> pong z = Barrier \<Longrightarrow>
    pair_step ping_ok pong_ok n z (z\<lparr>ping := Check, pong := Check\<rparr>)"
| ping_check: "ping z = Check \<Longrightarrow>
    pair_step ping_ok pong_ok n z (z\<lparr>ping := (if abort z then Finished False else Trips n)\<rparr>)"
| pong_check: "pong z = Check \<Longrightarrow>
    pair_step ping_ok pong_ok n z (z\<lparr>pong := (if abort z then Finished False else Trips n)\<rparr>)"
| ping_trip: "ping z = Trips (Suc k) \<Longrightarrow> flag z \<Longrightarrow>
    pair_step ping_ok pong_ok n z (z\<lparr>ping := Trips k, flag := False\<rparr>)"
| pong_trip: "pong z = Trips (Suc k) \<Longrightarrow> \<not> flag z \<Longrightarrow>
    pair_step ping_ok pong_ok n z (z\<lparr>pong := Trips k, flag := True\<rparr>)"
| ping_done: "ping z = Trips 0 \<Longrightarrow> pair_step ping_ok pong_ok n z (z\<lparr>ping := Finished True\<rparr>)"
| pong_done: "pong z = Trips 0 \<Longrightarrow> pair_step ping_ok pong_ok n z (z\<lparr>pong := Finished True\<rparr>)"

section \<open>Invariant and measure\<close>

fun arrived :: "thread_pc \<Rightarrow> bool" where
  "arrived Pin = False"
| "arrived Barrier = False"
| "arrived _ = True"

fun left :: "nat \<Rightarrow> thread_pc \<Rightarrow> nat" where
  \<comment> \<open>exchanges a thread that goes on still has to do\<close>
  "left n (Trips k) = k"
| "left n (Finished True) = 0"
| "left n _ = n"

fun rank :: "nat \<Rightarrow> thread_pc \<Rightarrow> nat" where
  "rank n Pin = n + 4"
| "rank n Barrier = n + 3"
| "rank n Check = n + 2"
| "rank n (Trips k) = k + 1"
| "rank n (Finished _) = 0"

fun pc_ok :: "bool \<Rightarrow> nat \<Rightarrow> thread_pc \<Rightarrow> bool" where
  \<comment> \<open>after the check a thread does what the pinning of both decided\<close>
  "pc_ok ok n (Trips k) \<longleftrightarrow> ok \<and> k \<le> n"
| "pc_ok ok n (Finished b) \<longleftrightarrow> b = ok"
| "pc_ok ok n _ \<longleftrightarrow> True"

definition pair_inv :: "bool \<Rightarrow> bool \<Rightarrow> nat \<Rightarrow> pair_state \<Rightarrow> bool" where
  "pair_inv ping_ok pong_ok n z \<longleftrightarrow>
     (arrived (ping z) \<longleftrightarrow> arrived (pong z))
     \<and> (abort z \<longleftrightarrow> ping z \<noteq> Pin \<and> \<not> ping_ok \<or> pong z \<noteq> Pin \<and> \<not> pong_ok)
     \<and> pc_ok (ping_ok \<and> pong_ok) n (ping z) \<and> pc_ok (ping_ok \<and> pong_ok) n (pong z)
     \<and> (if ping_ok \<and> pong_ok then left n (ping z) = left n (pong z) + (if flag z then 1 else 0) else \<not> flag z)"

lemma pair_inv_start: "pair_inv ping_ok pong_ok n pair_start"
  by (simp add: pair_inv_def pair_start_def)

lemma pair_inv_step:
  assumes "pair_step ping_ok pong_ok n z z'" "pair_inv ping_ok pong_ok n z"
  shows "pair_inv ping_ok pong_ok n z'"
  using assms by (cases rule: pair_step.cases) (auto simp: pair_inv_def split: if_splits)

lemma pair_inv_run: "(pair_step ping_ok pong_ok n)\<^sup>*\<^sup>* pair_start z \<Longrightarrow> pair_inv ping_ok pong_ok n z"
  by (induction rule: rtranclp_induct) (auto intro: pair_inv_start pair_inv_step)

lemma rank_step:
  assumes "pair_step ping_ok pong_ok n z z'"
  shows "rank n (ping z') + rank n (pong z') < rank n (ping z) + rank n (pong z)"
  using assms by (cases rule: pair_step.cases) auto


text \<open>A thread that has arrived and can go on by itself, or must wait for the flag.\<close>

lemma ping_moves:
  assumes "arrived (ping z)" "pair_inv ping_ok pong_ok n z"
  shows "(\<exists>z'. pair_step ping_ok pong_ok n z z') \<or> (\<exists>k. ping z = Trips (Suc k) \<and> \<not> flag z) \<or> ping z = Finished (ping_ok \<and> pong_ok)"
proof (cases "ping z")
  case (Trips k)
  then show ?thesis by (cases k; cases "flag z") (auto intro: pair_step.intros)
qed (use assms in \<open>auto simp: pair_inv_def intro: pair_step.intros\<close>)

lemma pong_moves:
  assumes "arrived (pong z)" "pair_inv ping_ok pong_ok n z"
  shows "(\<exists>z'. pair_step ping_ok pong_ok n z z') \<or> (\<exists>k. pong z = Trips (Suc k) \<and> flag z) \<or> pong z = Finished (ping_ok \<and> pong_ok)"
proof (cases "pong z")
  case (Trips k)
  then show ?thesis by (cases k; cases "flag z") (auto intro: pair_step.intros)
qed (use assms in \<open>auto simp: pair_inv_def intro: pair_step.intros\<close>)

lemma pair_progress:
  assumes inv: "pair_inv ping_ok pong_ok n z" and stuck: "\<not> (\<exists>z'. pair_step ping_ok pong_ok n z z')"
  shows "ping z = Finished (ping_ok \<and> pong_ok) \<and> pong z = Finished (ping_ok \<and> pong_ok)"
proof (cases "arrived (ping z)")
  case True
  then have "arrived (pong z)" using inv by (simp add: pair_inv_def)
  with True ping_moves [OF _ inv] pong_moves [OF _ inv] stuck
  have *: "(\<exists>k. ping z = Trips (Suc k) \<and> \<not> flag z) \<or> ping z = Finished (ping_ok \<and> pong_ok)"
      "(\<exists>k. pong z = Trips (Suc k) \<and> flag z) \<or> pong z = Finished (ping_ok \<and> pong_ok)" by blast+
  then show ?thesis using inv by (auto simp: pair_inv_def split: if_splits)
next
  case False
  then have "\<not> arrived (pong z)" using inv by (simp add: pair_inv_def)
  with False have "(ping z = Pin \<or> ping z = Barrier) \<and> (pong z = Pin \<or> pong z = Barrier)"
    by (cases "ping z"; cases "pong z") simp_all
  then have "\<exists>z'. pair_step ping_ok pong_ok n z z'" by (auto intro: pair_step.intros)
  with stuck show ?thesis by blast
qed

lemma run_rank:
  "(pair_step ping_ok pong_ok n ^^ k) z z' \<Longrightarrow> k + rank n (ping z') + rank n (pong z') \<le> rank n (ping z) + rank n (pong z)"
proof (induction k arbitrary: z')
  case (Suc k)
  then obtain y where "(pair_step ping_ok pong_ok n ^^ k) z y" "pair_step ping_ok pong_ok n y z'" by auto
  with Suc.IH [of y] rank_step [of ping_ok pong_ok n y z'] show ?case by linarith
qed simp

section \<open>Properties\<close>

text \<open>
  C40. The measurement of a pair ends without a deadlock. Every run of the two threads has at most as many
  steps as two threads have exchanges and phases; a state in which no thread can go on is one in which both
  have finished, and both have measured exactly if both could be pinned, else both have given up.
\<close>

theorem measure_pair_ends:
  assumes "n = total_trips warmup iterations samples" "(pair_step ping_ok pong_ok n ^^ k) pair_start z"
  shows "k \<le> 2 * total_trips warmup iterations samples + 8
    \<and> ((\<exists>z'. pair_step ping_ok pong_ok n z z')
       \<or> ping z = Finished (ping_ok \<and> pong_ok) \<and> pong z = Finished (ping_ok \<and> pong_ok))"
proof -
  have "(pair_step ping_ok pong_ok n)\<^sup>*\<^sup>* pair_start z" using assms(2) by (rule relpowp_imp_rtranclp)
  then have "pair_inv ping_ok pong_ok n z" by (rule pair_inv_run)
  moreover have "k \<le> 2 * n + 8" using run_rank [OF assms(2)] by (simp add: pair_start_def)
  ultimately show ?thesis using pair_progress assms(1) by blast
qed

theorem measure_pair_ends_witness:
  "\<exists>z'. pair_step True False (total_trips 200 500 50) \<lparr>ping = Barrier, pong = Pin, flag = False, abort = False\<rparr> z'"
proof -
  have "pair_step True False (total_trips 200 500 50) pair_start \<lparr>ping = Barrier, pong = Pin, flag = False, abort = False\<rparr>"
    using pair_step.ping_pin [of pair_start True False "total_trips 200 500 50"] by (simp add: pair_start_def)
  then have "(pair_step True False (total_trips 200 500 50) ^^ 1) pair_start
      \<lparr>ping = Barrier, pong = Pin, flag = False, abort = False\<rparr>" by (simp only: relpowp_1)
  from measure_pair_ends [OF refl this] show ?thesis by simp
qed

end
