(* ===== verification/Spec2Isabelle.thy ===== *)
theory Spec2Isabelle
  imports Many_Cpus Local_Handlers Lock_Interrupt Accounting Waiting Layout Slices Event_Loop Ping_Pong
begin

text \<open>
  SCX-IMPERATOR is a CPU scheduler written as a sched\_ext BPF program with a loader in Rust. This
  library models the C part (\<open>src/src/bpf/imperator.bpf.c\<close>, \<open>lock.bpf.c\<close>, \<open>intf.h\<close>, \<open>bpf_compat.h\<close>) and
  the parts of the loader that compute and write what it reads (\<open>src/src/main.rs\<close>, \<open>topology.rs\<close>,
  \<open>calibrate.rs\<close>) or evaluate what it counts (\<open>tui.rs\<close>), and proves what makes them correct.

  The program. Every task has a context (\<open>struct imperator_task_ctx\<close>) with a tier T0 to T3, an
  average burst length and a slice. A task that wakes up passes \<open>imperator_select_cpu\<close>, which runs it
  at once on an idle CPU, or else \<open>imperator_enqueue\<close>, which inserts it into the queue of its LLC
  (last-level cache) at a virtual deadline made from its tier and may preempt a CPU that runs a lower
  tier. \<open>imperator_dispatch\<close> takes work from the local queue or steals it from another LLC whose
  \<open>llc_nonempty\<close> flag is set. \<open>imperator_running\<close> and \<open>imperator_stopping\<close> keep the table
  \<open>tier_cpu_mask\<close> of which CPU runs which tier, and the stop reclassifies the task from the length of
  its burst (\<open>reclassify_task_cold\<close>). \<open>imperator_tick\<close> ends expired slices, has a check that preempts for
  starving work, and steers the CPU frequency. The probes of \<open>lock.bpf.c\<close>, which this build does not
  load, would mark tasks that hold a futex; the starvation check spares marked tasks a bounded number of times. The handlers share the task contexts, the per-CPU
  mailboxes, the two mask tables and the flags, all written without locks. The loader chooses a
  profile of tier parameters, detects caches and cores, writes both into the read-only data before
  the program starts, and measures in the background the latencies between caches by which
  \<open>imperator_dispatch\<close> orders its victims.

  Theories, in the order of their imports:

  \<^item> \<open>Prelude\<close>: the C integer types as words, the reference bit scan, lemmas on words and lists.
  \<^item> \<open>Bitscan\<close> (\<open>bpf_compat.h\<close>): bit fields and De Bruijn scans; the locale \<open>bit_scan\<close> is the contract
    of a scan, interpreted by the scans the code uses.
  \<^item> \<open>Intf\<close> (\<open>intf.h\<close>): tiers, packed words, mailbox, statistics, fused configuration; the locale
    \<open>packed_flag\<close> is the contract of a flag in \<open>packed_info\<close>.
  \<^item> \<open>Sched_State\<close>: RODATA as the record \<open>rodata\<close>, BSS and task storage as the record \<open>sched\<close>. Calls
    into the kernel that have an effect are appended to \<open>kcalls\<close> in order; what the kernel answers is
    an argument of the handler (\<open>kabi\<close> holds the constants of the kernel headers).
  \<^item> \<open>Deadline\<close>: \<open>tier_deadline\<close>, and the locale \<open>edf_key\<close> for an ordering key with tiers and aging.
  \<^item> \<open>Task_Ctx\<close>, \<open>Lifecycle\<close>: allocation, \<open>imperator_enable\<close>, \<open>imperator_init_task\<close>; the invariant
    \<open>ctx_inv\<close> of a task context.
  \<^item> \<open>Reclassify\<close>, \<open>Classification\<close>: \<open>reclassify_task_cold\<close> block by block, and what every stop
    guarantees (average, hysteresis, overrun history, recheck schedule, convergence).
  \<^item> \<open>Lock_Holder\<close>: the fexit probes and the tracepoints, refined to one automaton.
  \<^item> \<open>Run_Stop\<close>, \<open>Tick\<close>, \<open>Enqueue\<close>, \<open>Select_Cpu\<close>, \<open>Dispatch\<close>, \<open>Init\<close>: one callback each, as a function
    on \<open>sched\<close>, with its blocks in the order of the code. \<open>goto\<close> and early returns are values
    (\<open>tick_exit\<close>) or branches. The locale \<open>running_marks\<close> is the contract of \<open>tier_cpu_mask\<close>.
  \<^item> \<open>Invariant\<close>: every callback preserves the state invariant \<open>good\<close>; the locale \<open>calm_handler\<close> is the
    contract of those that neither start nor stop a task, interpreted for each of them.
  \<^item> \<open>System\<close>: the callbacks of \<open>imperator_ops\<close>, the probes, the end of a task and the writes from user
    space as the step relation \<open>sched_step\<close>, the reachable states, their invariant, and the properties that
    span components.
  \<^item> \<open>Interleaving\<close>: enqueue and dispatch as sequences of single accesses to the flag of an LLC;
    a late clear can hide a queued task, and only when the insertion falls after the depth query.
  \<^item> \<open>Many_Cpus\<close>: the same accesses of any number of CPUs that enqueue and dispatch again and again; only a
    clear after an outdated query hides work, and the next insertion repairs it.
  \<^item> \<open>Concurrency\<close>: \<open>imperator_running\<close> and \<open>imperator_stopping\<close> on different CPUs commute, because each
    touches its own task, mailbox and statistics and one bit of a mask word by an atomic operation.
  \<^item> \<open>Local_Handlers\<close>: the same for all handlers of a CPU. The locale \<open>cpu_handler\<close> is the footprint of a
    handler, \<open>shared_free_handler\<close> that of one that touches no shared word; every handler interprets one of them.
  \<^item> \<open>Lock_Interrupt\<close> (\<open>lock.bpf.c\<close>): the two stores of \<open>clear_lock_holder\<close> with any handlers between them; the
    locale \<open>lock_neutral\<close> is the contract of the handlers that may interrupt a release.
  \<^item> \<open>Accounting\<close> (\<open>tui.rs\<close>): \<open>aggregate_stats\<close>, the sums the terminal interface shows, and the balance of
    the counters that every handler keeps.
  \<^item> \<open>Rates\<close> (\<open>tui.rs\<close>): the rates shown, the reset of the counters, and one round of the interface's loop.
  \<^item> \<open>Layout\<close> (\<open>bpf_compat.h\<close>, \<open>intf.h\<close>): byte memory, the relaxed accessors with their contract, the
    locale \<open>accessor\<close>, interpreted for each width, and the layouts of task context, mailbox and LLC flag;
    member stores on memory refine the record updates of the other theories.
  \<^item> \<open>Waiting\<close>: the queue of one LLC over time, with the virtual times \<open>imperator_enqueue\<close> computes and
    dispatches that take the smallest; no task waits for ever.
  \<^item> \<open>Profiles\<close> (\<open>main.rs\<close>): \<open>enum Profile\<close> and \<open>tier_configs\<close>, in the wrapping arithmetic of a release
    build; the profiles interpret \<open>edf_key\<close>.
  \<^item> \<open>Topology\<close> (\<open>topology.rs\<close>): \<open>detect\<close>, from the answer of the library scx\_utils to the tables.
  \<^item> \<open>Loader\<close> (\<open>main.rs\<close>): \<open>effective_values\<close> and the filling of RODATA; it discharges \<open>config_ok\<close> and
    \<open>budgets_increase\<close>, the assumptions of the scheduler's theories on the configuration.
  \<^item> \<open>Slices\<close>: an invariant on the slices of reachable contexts; against the budgets the loader writes it
    determines when the starvation check of the tick can act before the slice is over.
  \<^item> \<open>Etd\<close> (\<open>main.rs\<close>, \<open>calibrate.rs\<close>): the choice of CPU pairs, the retry loop, the latency matrix and the
    cost table; a matrix index out of range, a panic, is None, and the release build then aborts the process.
  \<^item> \<open>Event_Loop\<close> (\<open>main.rs\<close>): the loop of \<open>Scheduler::run\<close> beside the calibration thread, which share the matrix
    and an eventfd; when and how the measured costs reach the scheduler, and its steal order.
  \<^item> \<open>Ping_Pong\<close> (\<open>calibrate.rs\<close>): the two threads of one measurement as a step relation.

  What the groups of lemmas show. For each operation there is a frame (what it leaves alone,
  collected in \<open>frame_simps\<close>), its effect on every branch, and preservation of the invariant
  (\<open>wf_intros\<close>). On top of these stand the properties, numbered C1 to C40: the masks, flags and kicks
  in reachable states, the ordering of the queue, classification, work conservation, bounds on
  delay, equivalence of the bit scans, of the P-core scan and of the steal loop with their
  reference definitions, and refinement of the overrun history and of the futex probes. Several
  state behaviour that differs from the comments of the source: the starvation check that a
  saturated confidence counter switches off, the queue a late clear hides, the burst credit that
  shortens a slice in simulation mode (\<open>sim_credit_shortens_bulk\<close>), the extension that survives a
  backoff stop (\<open>burst_extension_survives_backoff\<close>), the redundant hard-demote cap, the starvation
  override that wraps its field and inverts the tiers, and what follows when the CPU ids have a gap: the
  loader passes the number of online CPUs where a bound of ids is meant, so CPUs behind the gap are
  never kicked, and the sampled calibration panics when it reaches such an id. The gap of two budgets does not
  end the passing of a waiting task by newcomers with an advance (\<open>newcomer_passes_beyond_gap\<close>), and the
  starvation check, said to be unreachable, can preempt a new T0 task (\<open>starvation_path_confined\<close>). In a session with the terminal interface a calibration that
  ends late is never used (\<open>tui_session_stays_uncalibrated\<close>), and a reset of the counters can make the interface show a
  spike (\<open>reset_in_window_spikes\<close>).

  Inactive code. The model contains all code of the program, some of which this build never runs, as the
  README says in its sections 3, 4 and 10. Every program of \<open>lock.bpf.c\<close> is an optional section that libbpf does not load
  by itself, and the loader attaches only the scheduler: \<open>CAKE_FLAG_LOCK_HOLDER\<close> is never set. The steps of
  \<open>futex\<close> in \<open>sched_step\<close>, \<open>futex_tracepoints_refine\<close>, \<open>release_restores_budget\<close> and
  \<open>lock_holder_preempted_in_time\<close> are about that code once it is loaded, and the reachable states include those
  without it. The kernel never passes \<open>SCX_ENQ_PREEMPT\<close> to \<open>ops.enqueue\<close>, so burst credit is not earned. The exec and
  fork branches of \<open>imperator_init_task\<close> find no context, because it is created later, in \<open>imperator_enable\<close>
  (\<open>init_task_before_enable_noop\<close>). The sole-occupant branch of the tick needs a run queue that does not count the
  running task. The model takes what the kernel passes as an argument, so its theorems hold of these calls too.

  Ghost state and assumptions. \<open>machine\<close> adds to the program's state the task each CPU runs and the
  number of tasks in each queue. Its steps assume of the kernel only what sched\_ext documents:
  running and stopping alternate on a CPU, a task runs on one CPU at a time, it is not running when it
  is initialised or enabled, and an empty answer of \<open>scx_bpf_dsq_nr_queued\<close> is true. A start is
  assumed at a time whose low 32 bits are not 0, because the code takes 0 for not running
  (\<open>stop_unmarks_running_tier\<close> shows what happens otherwise). \<open>config_ok\<close> is what the loader writes: at
  most eight LLCs, every CPU in one of them; \<open>loaded_configuration_ok\<close> proves it of the loader for every topology
  each of whose LLCs has a CPU below 64. \<open>imperator_init\<close> starts from zeroed BSS. Of a measurement it is
  assumed that its samples are positive finite numbers (\<open>meas_ok\<close>); the matrix holds rationals, so the
  rounding of floating-point numbers is not represented. Accessors work on little-endian memory, the
  byte order of the \<open>bpfel\<close> target.

  Bounds. The loops of the code have constant bounds, which the model keeps: 64 trips for the P-core
  scan and \<open>nr_llcs\<close> trips for the steal loop; both are proved to reach the end of their search
  (\<open>pcore_hint_best\<close>, \<open>steal_loop_terminates\<close>), so the bound is never what stops them. No definition
  uses other fuel. The numbers in the liveness properties (173 stops, 255 ticks)
  are derived from the shift widths and the tables of the code.

  Not modelled. Handlers are atomic, except in \<open>Interleaving\<close> and \<open>Many_Cpus\<close> (flags), \<open>Lock_Interrupt\<close>
  (release of a lock) and by the commutation proved in \<open>Concurrency\<close> and \<open>Local_Handlers\<close>. What
  that leaves open is an enqueue that reads the masks in the middle of a context switch, and handlers of two CPUs for one
  task, which the kernel excludes by the locks of its run queues; reordering by the hardware is not represented.
  The assembly that pins values to registers for the program verifier has no effect on values.
  \<open>imperator_exit\<close> only passes the exit record to a macro of the sched\_ext headers. Run queues, clock,
  idle-CPU search, interrupt context and queue depths belong to the kernel and are arguments. Of the loader,
  opening and attaching the program, the set-up of signals, real-time priorities, logging and the drawing of the
  terminal interface are left out: they are calls into libraries and the operating system that compute nothing
  the scheduler reads. The shell scripts contain no scheduler logic.
\<close>

end
